(* ===== verification/Esp_Prelude.thy ===== *)
theory Esp_Prelude
  imports Main "HOL-Library.Word" "HOL-Library.Monad_Syntax"
begin

text \<open>
  Shared vocabulary of the development.

  Machine integers are words of their C width.  A pointer together with a length is the list of
  the bytes it delimits; a buffer that is written through a pointer is a list updated by index
  with \<open>poke\<close>, and \<open>None\<close> is the access outside the object that C leaves undefined.
  The collections \<open>fault_simps\<close> and \<open>frame_simps\<close> gather the rewriting facts on guarded memory
  accesses and the facts that an operation leaves a field alone.
\<close>

unbundle bit_operations_syntax

named_theorems fault_simps
named_theorems frame_simps

type_synonym u8 = "8 word"
type_synonym u16 = "16 word"
type_synonym u32 = "32 word"
type_synonym bytes = "u8 list"

section \<open>Guarded memory\<close>

text \<open>A store through a pointer: \<open>None\<close> when the index is outside the object.\<close>

definition poke :: "'a list \<Rightarrow> nat \<Rightarrow> 'a \<Rightarrow> 'a list option" where
  "poke buf i v = (if i < length buf then Some (buf[i := v]) else None)"

definition peek :: "'a list \<Rightarrow> nat \<Rightarrow> 'a option" where
  "peek buf i = (if i < length buf then Some (buf ! i) else None)"

lemma poke_Some [fault_simps]: "i < length buf \<Longrightarrow> poke buf i v = Some (buf[i := v])"
  by (simp add: poke_def)

lemma poke_None [fault_simps]: "\<not> i < length buf \<Longrightarrow> poke buf i v = None"
  by (simp add: poke_def)

lemma poke_SomeD: "poke buf i v = Some buf' \<Longrightarrow> i < length buf \<and> buf' = buf[i := v]"
  by (auto simp: poke_def split: if_splits)

lemma peek_Some [fault_simps]: "i < length buf \<Longrightarrow> peek buf i = Some (buf ! i)"
  by (simp add: peek_def)

lemma peek_None [fault_simps]: "\<not> i < length buf \<Longrightarrow> peek buf i = None"
  by (simp add: peek_def)

text \<open>A pending byte at the end of a prefix that is written and then extended.\<close>

lemma list_update_at_length: "length xs = i \<Longrightarrow> (xs @ y # ys)[i := v] = xs @ v # ys"
  by auto

lemma take_list_update_last:
  "i < length xs \<Longrightarrow> take (Suc i) (xs[i := v]) = take i xs @ [v]"
  by (simp add: take_Suc_conv_app_nth)

section \<open>Monadic folds\<close>

text \<open>A left fold whose step may fault.\<close>

fun mfold :: "('a \<Rightarrow> 's \<Rightarrow> 's option) \<Rightarrow> 'a list \<Rightarrow> 's \<Rightarrow> 's option" where
  "mfold f [] s = Some s"
| "mfold f (x # xs) s = do { s' \<leftarrow> f x s; mfold f xs s' }"

lemma mfold_Nil_eta [simp]: "mfold f [] = Some"
  by (simp add: fun_eq_iff)

lemma mfold_append: "mfold f (xs @ ys) s = do { s' \<leftarrow> mfold f xs s; mfold f ys s' }"
  by (induction xs arbitrary: s) (auto split: Option.bind_splits)

lemma mfold_invariant:
  assumes step: "\<And>x s s'. I s \<Longrightarrow> f x s = Some s' \<Longrightarrow> I s'"
  shows "I s \<Longrightarrow> mfold f xs s = Some s' \<Longrightarrow> I s'"
proof (induction xs arbitrary: s)
  case Nil
  then show ?case by simp
next
  case (Cons x xs)
  then obtain t where "f x s = Some t" "mfold f xs t = Some s'"
    by (auto simp: bind_eq_Some_conv)
  with Cons step show ?case by blast
qed

lemma mfold_total: "(\<And>x s. f x s = Some (g x s)) \<Longrightarrow> mfold f xs s = Some (fold g xs s)"
  by (induction xs arbitrary: s) auto

section \<open>Words and bytes\<close>

lemma unat_add_lt: "unat a + unat b < 2 ^ LENGTH('a) \<Longrightarrow> unat (a + b) = unat a + unat b"
  for a b :: "'a::len word"
  by (simp add: unat_word_ariths)

lemma unat_word_less:
  "unat (a :: u8) < 256" "unat (b :: u16) < 65536" "unat (c :: u32) < 4294967296"
  by (rule order.strict_trans2 [OF unsigned_less], simp)+

lemma u8_neq_0_iff: "x \<noteq> 0 \<longleftrightarrow> 0 < unat x" for x :: "'a::len word"
  by (simp add: unat_gt_0)

definition lo8 :: "u16 \<Rightarrow> u8" where
  "lo8 w = ucast (w AND 0xff)"

definition hi8 :: "u16 \<Rightarrow> u8" where
  "hi8 w = ucast (drop_bit 8 w AND 0xff)"

text \<open>A \<open>uint16_t\<close> read from two bytes in memory, little endian as on the ESP8266.\<close>

definition le16 :: "u8 \<Rightarrow> u8 \<Rightarrow> u16" where
  "le16 a b = ucast a OR push_bit 8 (ucast b)"

definition le32 :: "u8 \<Rightarrow> u8 \<Rightarrow> u8 \<Rightarrow> u8 \<Rightarrow> u32" where
  "le32 a b c d = ucast a OR push_bit 8 (ucast b) OR push_bit 16 (ucast c) OR push_bit 24 (ucast d)"

definition bytes_le32 :: "u32 \<Rightarrow> bytes" where
  "bytes_le32 w = [ucast w, ucast (drop_bit 8 w), ucast (drop_bit 16 w), ucast (drop_bit 24 w)]"

lemma and_ff_take_bit: "w AND 0xff = take_bit 8 w" for w :: "'a::len word"
  by (simp add: take_bit_eq_mask mask_numeral)

lemma bit_u8_iff: "bit (b :: u8) n \<Longrightarrow> n < 8"
  using bit_imp_le_length [of b n] by simp

lemma le16_lo8_hi8 [simp]: "le16 (lo8 w) (hi8 w) = w"
  by (rule bit_word_eqI)
    (auto simp: le16_def lo8_def hi8_def and_ff_take_bit bit_simps not_less)

lemma lo8_le16 [simp]: "lo8 (le16 a b) = a"
  by (rule bit_word_eqI)
    (auto simp: le16_def lo8_def and_ff_take_bit bit_simps)

lemma hi8_le16 [simp]: "hi8 (le16 a b) = b"
  by (rule bit_word_eqI)
    (auto simp: le16_def hi8_def and_ff_take_bit bit_simps dest: bit_u8_iff)

end
