(* ===== verification/Crc16.thy ===== *)
theory Crc16
  imports Esp_Prelude
begin

text \<open>
  The checksums of \<open>src/user_main/crc16.c\<close> and \<open>crc16.h\<close>: the two lookup tables as the source has
  them, the table-driven update steps and the block loops.  The lemmas show that each table-driven
  routine computes the bit-serial cyclic code it tabulates (reflected polynomial 0x8408 for
  \<open>crc16_block\<close>, polynomial 0x1021 for \<open>crc16_ccitt_block\<close>), that a body followed by its checksum
  leaves the register at zero, and that every error burst of at most sixteen consecutive bits
  changes the checksum.
\<close>

section \<open>Tables and routines\<close>

definition crc16_tab :: "u16 list" where
  "crc16_tab = [
     0x0000, 0x1189, 0x2312, 0x329b, 0x4624, 0x57ad, 0x6536, 0x74bf,
     0x8c48, 0x9dc1, 0xaf5a, 0xbed3, 0xca6c, 0xdbe5, 0xe97e, 0xf8f7,
     0x1081, 0x0108, 0x3393, 0x221a, 0x56a5, 0x472c, 0x75b7, 0x643e,
     0x9cc9, 0x8d40, 0xbfdb, 0xae52, 0xdaed, 0xcb64, 0xf9ff, 0xe876,
     0x2102, 0x308b, 0x0210, 0x1399, 0x6726, 0x76af, 0x4434, 0x55bd,
     0xad4a, 0xbcc3, 0x8e58, 0x9fd1, 0xeb6e, 0xfae7, 0xc87c, 0xd9f5,
     0x3183, 0x200a, 0x1291, 0x0318, 0x77a7, 0x662e, 0x54b5, 0x453c,
     0xbdcb, 0xac42, 0x9ed9, 0x8f50, 0xfbef, 0xea66, 0xd8fd, 0xc974,
     0x4204, 0x538d, 0x6116, 0x709f, 0x0420, 0x15a9, 0x2732, 0x36bb,
     0xce4c, 0xdfc5, 0xed5e, 0xfcd7, 0x8868, 0x99e1, 0xab7a, 0xbaf3,
     0x5285, 0x430c, 0x7197, 0x601e, 0x14a1, 0x0528, 0x37b3, 0x263a,
     0xdecd, 0xcf44, 0xfddf, 0xec56, 0x98e9, 0x8960, 0xbbfb, 0xaa72,
     0x6306, 0x728f, 0x4014, 0x519d, 0x2522, 0x34ab, 0x0630, 0x17b9,
     0xef4e, 0xfec7, 0xcc5c, 0xddd5, 0xa96a, 0xb8e3, 0x8a78, 0x9bf1,
     0x7387, 0x620e, 0x5095, 0x411c, 0x35a3, 0x242a, 0x16b1, 0x0738,
     0xffcf, 0xee46, 0xdcdd, 0xcd54, 0xb9eb, 0xa862, 0x9af9, 0x8b70,
     0x8408, 0x9581, 0xa71a, 0xb693, 0xc22c, 0xd3a5, 0xe13e, 0xf0b7,
     0x0840, 0x19c9, 0x2b52, 0x3adb, 0x4e64, 0x5fed, 0x6d76, 0x7cff,
     0x9489, 0x8500, 0xb79b, 0xa612, 0xd2ad, 0xc324, 0xf1bf, 0xe036,
     0x18c1, 0x0948, 0x3bd3, 0x2a5a, 0x5ee5, 0x4f6c, 0x7df7, 0x6c7e,
     0xa50a, 0xb483, 0x8618, 0x9791, 0xe32e, 0xf2a7, 0xc03c, 0xd1b5,
     0x2942, 0x38cb, 0x0a50, 0x1bd9, 0x6f66, 0x7eef, 0x4c74, 0x5dfd,
     0xb58b, 0xa402, 0x9699, 0x8710, 0xf3af, 0xe226, 0xd0bd, 0xc134,
     0x39c3, 0x284a, 0x1ad1, 0x0b58, 0x7fe7, 0x6e6e, 0x5cf5, 0x4d7c,
     0xc60c, 0xd785, 0xe51e, 0xf497, 0x8028, 0x91a1, 0xa33a, 0xb2b3,
     0x4a44, 0x5bcd, 0x6956, 0x78df, 0x0c60, 0x1de9, 0x2f72, 0x3efb,
     0xd68d, 0xc704, 0xf59f, 0xe416, 0x90a9, 0x8120, 0xb3bb, 0xa232,
     0x5ac5, 0x4b4c, 0x79d7, 0x685e, 0x1ce1, 0x0d68, 0x3ff3, 0x2e7a,
     0xe70e, 0xf687, 0xc41c, 0xd595, 0xa12a, 0xb0a3, 0x8238, 0x93b1,
     0x6b46, 0x7acf, 0x4854, 0x59dd, 0x2d62, 0x3ceb, 0x0e70, 0x1ff9,
     0xf78f, 0xe606, 0xd49d, 0xc514, 0xb1ab, 0xa022, 0x92b9, 0x8330,
     0x7bc7, 0x6a4e, 0x58d5, 0x495c, 0x3de3, 0x2c6a, 0x1ef1, 0x0f78]"

definition crc16_ccitt_tab :: "u16 list" where
  "crc16_ccitt_tab = [
     0x0000, 0x1021, 0x2042, 0x3063, 0x4084, 0x50a5, 0x60c6, 0x70e7,
     0x8108, 0x9129, 0xa14a, 0xb16b, 0xc18c, 0xd1ad, 0xe1ce, 0xf1ef,
     0x1231, 0x0210, 0x3273, 0x2252, 0x52b5, 0x4294, 0x72f7, 0x62d6,
     0x9339, 0x8318, 0xb37b, 0xa35a, 0xd3bd, 0xc39c, 0xf3ff, 0xe3de,
     0x2462, 0x3443, 0x0420, 0x1401, 0x64e6, 0x74c7, 0x44a4, 0x5485,
     0xa56a, 0xb54b, 0x8528, 0x9509, 0xe5ee, 0xf5cf, 0xc5ac, 0xd58d,
     0x3653, 0x2672, 0x1611, 0x0630, 0x76d7, 0x66f6, 0x5695, 0x46b4,
     0xb75b, 0xa77a, 0x9719, 0x8738, 0xf7df, 0xe7fe, 0xd79d, 0xc7bc,
     0x48c4, 0x58e5, 0x6886, 0x78a7, 0x0840, 0x1861, 0x2802, 0x3823,
     0xc9cc, 0xd9ed, 0xe98e, 0xf9af, 0x8948, 0x9969, 0xa90a, 0xb92b,
     0x5af5, 0x4ad4, 0x7ab7, 0x6a96, 0x1a71, 0x0a50, 0x3a33, 0x2a12,
     0xdbfd, 0xcbdc, 0xfbbf, 0xeb9e, 0x9b79, 0x8b58, 0xbb3b, 0xab1a,
     0x6ca6, 0x7c87, 0x4ce4, 0x5cc5, 0x2c22, 0x3c03, 0x0c60, 0x1c41,
     0xedae, 0xfd8f, 0xcdec, 0xddcd, 0xad2a, 0xbd0b, 0x8d68, 0x9d49,
     0x7e97, 0x6eb6, 0x5ed5, 0x4ef4, 0x3e13, 0x2e32, 0x1e51, 0x0e70,
     0xff9f, 0xefbe, 0xdfdd, 0xcffc, 0xbf1b, 0xaf3a, 0x9f59, 0x8f78,
     0x9188, 0x81a9, 0xb1ca, 0xa1eb, 0xd10c, 0xc12d, 0xf14e, 0xe16f,
     0x1080, 0x00a1, 0x30c2, 0x20e3, 0x5004, 0x4025, 0x7046, 0x6067,
     0x83b9, 0x9398, 0xa3fb, 0xb3da, 0xc33d, 0xd31c, 0xe37f, 0xf35e,
     0x02b1, 0x1290, 0x22f3, 0x32d2, 0x4235, 0x5214, 0x6277, 0x7256,
     0xb5ea, 0xa5cb, 0x95a8, 0x8589, 0xf56e, 0xe54f, 0xd52c, 0xc50d,
     0x34e2, 0x24c3, 0x14a0, 0x0481, 0x7466, 0x6447, 0x5424, 0x4405,
     0xa7db, 0xb7fa, 0x8799, 0x97b8, 0xe75f, 0xf77e, 0xc71d, 0xd73c,
     0x26d3, 0x36f2, 0x0691, 0x16b0, 0x6657, 0x7676, 0x4615, 0x5634,
     0xd94c, 0xc96d, 0xf90e, 0xe92f, 0x99c8, 0x89e9, 0xb98a, 0xa9ab,
     0x5844, 0x4865, 0x7806, 0x6827, 0x18c0, 0x08e1, 0x3882, 0x28a3,
     0xcb7d, 0xdb5c, 0xeb3f, 0xfb1e, 0x8bf9, 0x9bd8, 0xabbb, 0xbb9a,
     0x4a75, 0x5a54, 0x6a37, 0x7a16, 0x0af1, 0x1ad0, 0x2ab3, 0x3a92,
     0xfd2e, 0xed0f, 0xdd6c, 0xcd4d, 0xbdaa, 0xad8b, 0x9de8, 0x8dc9,
     0x7c26, 0x6c07, 0x5c64, 0x4c45, 0x3ca2, 0x2c83, 0x1ce0, 0x0cc1,
     0xef1f, 0xff3e, 0xcf5d, 0xdf7c, 0xaf9b, 0xbfba, 0x8fd9, 0x9ff8,
     0x6e17, 0x7e36, 0x4e55, 0x5e74, 0x2e93, 0x3eb2, 0x0ed1, 0x1ef0]"

definition CRC16_INIT_VALUE :: u16 where
  "CRC16_INIT_VALUE = 0xFFFF"

definition CRC16_CCITT_INIT_VALUE :: u16 where
  "CRC16_CCITT_INIT_VALUE = 0"

definition crc16_update :: "u16 \<Rightarrow> u8 \<Rightarrow> u16" where
  "crc16_update crc data =
     drop_bit 8 crc XOR crc16_tab ! unat ((crc XOR ucast data) AND 0xFF)"

definition crc16_ccitt_update :: "u16 \<Rightarrow> u8 \<Rightarrow> u16" where
  "crc16_ccitt_update crc data =
     (let offset = (drop_bit 8 crc XOR ucast data) AND 0x00ff
      in push_bit 8 crc XOR crc16_ccitt_tab ! unat offset)"

fun crc16_loop :: "u16 \<Rightarrow> bytes \<Rightarrow> u16" where
  "crc16_loop crc [] = crc"
| "crc16_loop crc (b # buf) = crc16_loop (crc16_update crc b) buf"

definition crc16_block :: "bytes \<Rightarrow> u16" where
  "crc16_block buf = crc16_loop CRC16_INIT_VALUE buf"

fun crc16_ccitt_loop :: "u16 \<Rightarrow> bytes \<Rightarrow> u16" where
  "crc16_ccitt_loop crc [] = crc"
| "crc16_ccitt_loop crc (b # buf) = crc16_ccitt_loop (crc16_ccitt_update crc b) buf"

definition crc16_ccitt_block :: "bytes \<Rightarrow> u16" where
  "crc16_ccitt_block buf = crc16_ccitt_loop CRC16_CCITT_INIT_VALUE buf"

section \<open>The bit-serial reference\<close>

text \<open>One shift of the reflected register, and one of the unreflected register.\<close>

definition crc_shift :: "u16 \<Rightarrow> u16" where
  "crc_shift c = (if bit c 0 then drop_bit 1 c XOR 0x8408 else drop_bit 1 c)"

definition ccitt_shift :: "u16 \<Rightarrow> u16" where
  "ccitt_shift c = (if bit c 15 then push_bit 1 c XOR 0x1021 else push_bit 1 c)"

text \<open>The register absorbs one message bit, least significant bit of a byte first.\<close>

definition crc_bit :: "u16 \<Rightarrow> bool \<Rightarrow> u16" where
  "crc_bit c b = crc_shift (c XOR of_bool b)"

definition byte_bits :: "u8 \<Rightarrow> bool list" where
  "byte_bits b = map (bit b) [0..<8]"

definition msg_bits :: "bytes \<Rightarrow> bool list" where
  "msg_bits = concat \<circ> map byte_bits"

definition crc_bits :: "u16 \<Rightarrow> bool list \<Rightarrow> u16" where
  "crc_bits = foldl crc_bit"

text \<open>The unreflected code absorbs the most significant bit first.\<close>

definition ccitt_bit :: "u16 \<Rightarrow> bool \<Rightarrow> u16" where
  "ccitt_bit c b = ccitt_shift (c XOR push_bit 15 (of_bool b))"

definition ccitt_bits :: "u16 \<Rightarrow> bool list \<Rightarrow> u16" where
  "ccitt_bits = foldl ccitt_bit"

definition msg_bits_msb :: "bytes \<Rightarrow> bool list" where
  "msg_bits_msb = concat \<circ> map (rev \<circ> byte_bits)"

section \<open>The tables tabulate the shift register\<close>

text \<open>All sums of a list of basis vectors, the combination numbered \<open>i\<close> at position \<open>i\<close>.\<close>

fun xor_span :: "u16 list \<Rightarrow> u16 list" where
  "xor_span [] = [0]"
| "xor_span (b # bs) = xor_span bs @ map ((XOR) b) (xor_span bs)"

lemma funpow8: "(f ^^ 8) x = f (f (f (f (f (f (f (f x)))))))"
  by (simp add: numeral_eq_Suc)

lemma crc_shift_xor: "crc_shift (a XOR b) = crc_shift a XOR crc_shift b"
  by (auto simp: crc_shift_def bit_xor_iff drop_bit_xor ac_simps)

lemma ccitt_shift_xor: "ccitt_shift (a XOR b) = ccitt_shift a XOR ccitt_shift b"
  by (auto simp: ccitt_shift_def bit_xor_iff push_bit_xor ac_simps)

lemma funpow_xor:
  fixes f :: "u16 \<Rightarrow> u16"
  assumes "\<And>a b. f (a XOR b) = f a XOR f b"
  shows "(f ^^ n) (a XOR b) = (f ^^ n) a XOR (f ^^ n) b"
  by (induction n arbitrary: a b) (simp_all add: assms)

lemma of_nat_add_exp:
  assumes "i < 2 ^ n"
  shows "of_nat (2 ^ n + i) = (2 ^ n XOR of_nat i :: u16)"
proof -
  have "\<not> bit i n" using assms by (simp add: bit_nat_def)
  then have "2 ^ n + i = 2 ^ n XOR i"
    by (subst disjunctive_xor_eq_or disjunctive_add_eq_or,
        auto intro!: bit_eqI simp: bit_simps)+
  then show ?thesis by (simp add: of_nat_xor_eq)
qed

lemma upt_double: "[0..<2 ^ Suc n] = [0..<2 ^ n] @ map (\<lambda>i. i + 2 ^ n) [0..<2 ^ n]"
  using map_add_upt [of "2 ^ n" "2 ^ n"] upt_add_eq_append [of 0 "2 ^ n" "2 ^ n"]
  by (simp add: mult_2)

lemma xor_span_linear:
  fixes L :: "u16 \<Rightarrow> u16"
  assumes add: "\<And>a b. L (a XOR b) = L a XOR L b" and zero: "L 0 = 0"
  shows "xor_span (map (\<lambda>k. L (2 ^ k)) (rev [0..<n])) = map (\<lambda>i. L (of_nat i)) [0..<2 ^ n]"
proof (induction n)
  case 0
  show ?case by (simp add: zero)
next
  case (Suc n)
  have "map (\<lambda>i. L (of_nat i)) (map (\<lambda>i. i + 2 ^ n) [0..<2 ^ n])
      = map ((XOR) (L (2 ^ n))) (map (\<lambda>i. L (of_nat i)) [0..<2 ^ n])"
    using of_nat_add_exp [of _ n] by (auto simp del: of_nat_add simp: add add.commute)
  with Suc have "xor_span (map (\<lambda>k. L (2 ^ k)) (rev [0..<Suc n]))
      = map (\<lambda>i. L (of_nat i)) ([0..<2 ^ n] @ map (\<lambda>i. i + 2 ^ n) [0..<2 ^ n])"
    by (simp del: of_nat_add)
  then show ?case by (simp only: upt_double)
qed

lemma crc_basis:
  "map (\<lambda>k. (crc_shift ^^ 8) (2 ^ k)) (rev [0..<8]) =
     [0x8408, 0x4204, 0x2102, 0x1081, 0x8c48, 0x4624, 0x2312, 0x1189]"
  by (simp add: upt_rec crc_shift_def funpow8)

lemma ccitt_basis:
  "map (\<lambda>k. (ccitt_shift ^^ 8) (push_bit 8 (2 ^ k))) (rev [0..<8]) =
     [0x9188, 0x48c4, 0x2462, 0x1231, 0x8108, 0x4084, 0x2042, 0x1021]"
  by (simp add: upt_rec ccitt_shift_def funpow8)

lemma crc16_tab_shift: "crc16_tab = map (\<lambda>i. (crc_shift ^^ 8) (of_nat i)) [0..<2 ^ 8]"
proof -
  have "crc16_tab = xor_span (map (\<lambda>k. (crc_shift ^^ 8) (2 ^ k)) (rev [0..<8]))"
    unfolding crc_basis by (simp add: crc16_tab_def)
  also have "\<dots> = map (\<lambda>i. (crc_shift ^^ 8) (of_nat i)) [0..<2 ^ 8]"
    by (rule xor_span_linear) (simp_all add: funpow_xor crc_shift_xor, simp add: funpow8 crc_shift_def)
  finally show ?thesis .
qed

lemma crc16_ccitt_tab_shift:
  "crc16_ccitt_tab = map (\<lambda>i. (ccitt_shift ^^ 8) (push_bit 8 (of_nat i))) [0..<2 ^ 8]"
proof -
  have "crc16_ccitt_tab = xor_span (map (\<lambda>k. (ccitt_shift ^^ 8) (push_bit 8 (2 ^ k))) (rev [0..<8]))"
    unfolding ccitt_basis by (simp add: crc16_ccitt_tab_def)
  also have "\<dots> = map (\<lambda>i. (ccitt_shift ^^ 8) (push_bit 8 (of_nat i))) [0..<2 ^ 8]"
    by (rule xor_span_linear)
      (simp_all add: funpow_xor ccitt_shift_xor push_bit_xor, simp add: funpow8 ccitt_shift_def)
  finally show ?thesis .
qed

lemma crc16_tab_nth: "i < 256 \<Longrightarrow> crc16_tab ! i = (crc_shift ^^ 8) (of_nat i)"
  by (simp add: crc16_tab_shift del: upt_Suc)

lemma crc16_ccitt_tab_nth:
  "i < 256 \<Longrightarrow> crc16_ccitt_tab ! i = (ccitt_shift ^^ 8) (push_bit 8 (of_nat i))"
  by (simp add: crc16_ccitt_tab_shift del: upt_Suc)

section \<open>Equivalence of the table-driven step with eight shifts\<close>

lemma crc_shift_funpow_drop: "take_bit n x = 0 \<Longrightarrow> (crc_shift ^^ n) x = drop_bit n x"
proof (induction n arbitrary: x)
  case 0
  show ?case by simp
next
  case (Suc n)
  have low: "\<not> bit x k" if "k \<le> n" for k
  proof -
    have "\<not> bit (take_bit (Suc n) x) k" using Suc.prems by simp
    with that show ?thesis by (simp add: bit_take_bit_iff)
  qed
  then have "crc_shift x = drop_bit 1 x" by (simp add: crc_shift_def)
  moreover have "take_bit n (drop_bit 1 x) = 0"
    by (rule bit_word_eqI) (auto simp: bit_simps low)
  ultimately show ?case using Suc.IH [of "drop_bit 1 x"]
    by (simp add: funpow_swap1 flip: funpow_Suc_right) (simp add: drop_bit_drop_bit)?
qed

lemma ccitt_shift_funpow_push:
  "n \<le> 16 \<Longrightarrow> drop_bit (16 - n) x = 0 \<Longrightarrow> (ccitt_shift ^^ n) x = push_bit n x"
proof (induction n arbitrary: x)
  case 0
  show ?case by simp
next
  case (Suc n)
  have high: "\<not> bit x k" if "15 - n \<le> k" for k
  proof -
    have "\<not> bit (drop_bit (16 - Suc n) x) (k - (15 - n))" using Suc.prems by simp
    with that Suc.prems(1) show ?thesis by (simp add: bit_drop_bit_eq)
  qed
  then have "ccitt_shift x = push_bit 1 x" by (simp add: ccitt_shift_def)
  moreover have "drop_bit (16 - n) (push_bit 1 x) = 0"
  proof (rule bit_word_eqI)
    fix k
    have "16 - n + k - 1 = 15 - n + k" using Suc.prems(1) by simp
    then show "bit (drop_bit (16 - n) (push_bit 1 x)) k = bit 0 k"
      by (simp only: bit_drop_bit_eq comp_def bit_push_bit_iff high) simp
  qed
  ultimately show ?case using Suc.IH [of "push_bit 1 x"] Suc.prems(1)
    by (simp add: funpow_swap1)
qed

lemma split_byte: "y = push_bit 8 (drop_bit 8 y) XOR take_bit 8 y" for y :: u16
  by (rule bit_word_eqI) (auto simp: bit_simps)

lemma drop_ucast_u8: "drop_bit 8 (ucast (d::u8) :: u16) = 0"
  by (rule bit_word_eqI) (auto simp: bit_simps dest: bit_u8_iff)

lemma take_ucast_u8: "take_bit 8 (ucast (d::u8) :: u16) = ucast d"
  by (rule bit_word_eqI) (auto simp: bit_simps dest: bit_u8_iff)

lemma drop_push_drop: "drop_bit 8 (push_bit 8 (drop_bit 8 y)) = drop_bit 8 y" for y :: u16
  by (rule bit_word_eqI) (auto simp: bit_simps dest: bit_imp_le_length)

lemma low_byte_less: "unat (take_bit 8 (y::u16)) < 256"
  using take_bit_nat_less_exp [of 8 "unat y"] by (simp only: unsigned_take_bit_eq) simp

lemma crc16_update_shift: "crc16_update c d = (crc_shift ^^ 8) (c XOR ucast d)"
proof -
  let ?y = "c XOR ucast d :: u16"
  have "(crc_shift ^^ 8) ?y
      = (crc_shift ^^ 8) (push_bit 8 (drop_bit 8 ?y)) XOR (crc_shift ^^ 8) (take_bit 8 ?y)"
    by (subst split_byte) (rule funpow_xor, rule crc_shift_xor)
  also have "(crc_shift ^^ 8) (push_bit 8 (drop_bit 8 ?y)) = drop_bit 8 c"
  proof -
    have "take_bit 8 (push_bit 8 (drop_bit 8 ?y)) = 0"
      by (rule bit_word_eqI) (simp add: bit_simps)
    then show ?thesis
      by (simp only: crc_shift_funpow_drop drop_push_drop) (simp add: drop_ucast_u8)
  qed
  also have "(crc_shift ^^ 8) (take_bit 8 ?y) = crc16_tab ! unat (take_bit 8 ?y)"
    using low_byte_less [of ?y] by (simp only: crc16_tab_nth) simp
  finally show ?thesis by (simp add: crc16_update_def and_ff_take_bit)
qed

lemma crc16_ccitt_update_shift:
  "crc16_ccitt_update c d = (ccitt_shift ^^ 8) (c XOR push_bit 8 (ucast d))"
proof -
  let ?o = "drop_bit 8 c XOR ucast d :: u16"
  have o: "take_bit 8 ?o = ?o"
    by (rule bit_word_eqI) (auto simp: bit_simps dest: bit_u8_iff bit_imp_le_length)
  have "c XOR push_bit 8 (ucast d) = take_bit 8 c XOR push_bit 8 ?o"
    by (rule bit_word_eqI) (auto simp: bit_simps)
  then have "(ccitt_shift ^^ 8) (c XOR push_bit 8 (ucast d))
      = (ccitt_shift ^^ 8) (take_bit 8 c) XOR (ccitt_shift ^^ 8) (push_bit 8 ?o)"
    by (simp only: funpow_xor ccitt_shift_xor)
  also have "(ccitt_shift ^^ 8) (take_bit 8 c) = push_bit 8 c"
    by (subst ccitt_shift_funpow_push)
      (auto intro!: bit_word_eqI simp: bit_simps)
  also have "(ccitt_shift ^^ 8) (push_bit 8 ?o) = crc16_ccitt_tab ! unat ?o"
    using low_byte_less [of ?o] by (simp only: o crc16_ccitt_tab_nth) simp
  finally show ?thesis by (simp only: crc16_ccitt_update_def and_ff_take_bit o Let_def)
qed

section \<open>Equivalence with the bit-serial code\<close>

fun bits_word :: "bool list \<Rightarrow> u16" where
  "bits_word [] = 0"
| "bits_word (b # bs) = of_bool b XOR push_bit 1 (bits_word bs)"

lemma bit_twice: "bit (x * 2) n \<longleftrightarrow> 0 < n \<and> n < 16 \<and> bit x (n - 1)" for x :: u16
  using bit_double_iff [of x n] by (auto simp: mult.commute)

lemma bit_bits_word: "bit (bits_word bs) n \<longleftrightarrow> n < 16 \<and> n < length bs \<and> bs ! n"
proof (induction bs arbitrary: n)
  case Nil
  show ?case by simp
next
  case (Cons b bs)
  show ?case
    by (cases n) (simp_all add: bit_xor_iff bit_of_bool_iff bit_twice Cons.IH, auto)
qed

lemma crc_shift_push: "\<not> bit x 15 \<Longrightarrow> crc_shift (push_bit 1 x) = x"
proof (rule bit_word_eqI)
  fix n
  assume "\<not> bit x 15" "n < LENGTH(16)"
  then show "bit (crc_shift (push_bit 1 x)) n = bit x n"
    by (cases "n = 15") (simp_all add: crc_shift_def bit_simps bit_twice)
qed

lemma crc_bits_word:
  "length bs \<le> 16 \<Longrightarrow> crc_bits c bs = (crc_shift ^^ length bs) (c XOR bits_word bs)"
proof (induction bs arbitrary: c)
  case Nil
  show ?case by (simp add: crc_bits_def)
next
  case (Cons b bs)
  have "crc_shift (c XOR bits_word (b # bs))
      = crc_shift (c XOR of_bool b) XOR crc_shift (push_bit 1 (bits_word bs))"
    by (simp only: bits_word.simps crc_shift_xor flip: xor.assoc)
  also have "crc_shift (push_bit 1 (bits_word bs)) = bits_word bs"
    using Cons.prems by (intro crc_shift_push) (simp add: bit_bits_word)
  finally have "crc_shift (c XOR bits_word (b # bs)) = crc_bit c b XOR bits_word bs"
    by (simp add: crc_bit_def)
  with Cons.IH [of "crc_bit c b"] Cons.prems show ?case
    by (simp only: funpow_Suc_right list.size add_Suc_right add_0_right comp_def)
      (simp add: crc_bits_def)
qed

lemma length_byte_bits [simp]: "length (byte_bits b) = 8"
  by (simp add: byte_bits_def)

lemma bits_word_byte_bits: "bits_word (byte_bits d) = ucast d"
proof (rule bit_word_eqI)
  fix n
  assume "n < LENGTH(16)"
  then show "bit (bits_word (byte_bits d)) n = bit (ucast d :: u16) n"
    using bit_u8_iff [of d n]
    by (cases "n < 8") (auto simp: bit_bits_word byte_bits_def bit_simps simp del: upt_Suc)
qed

lemma crc_bits_byte: "crc_bits c (byte_bits d) = crc16_update c d"
  by (simp add: crc_bits_word bits_word_byte_bits crc16_update_shift)

lemma crc_bits_append: "crc_bits c (xs @ ys) = crc_bits (crc_bits c xs) ys"
  by (simp add: crc_bits_def)

lemma msg_bits_simps [simp]:
  "msg_bits [] = []" "msg_bits (b # bs) = byte_bits b @ msg_bits bs"
  "msg_bits (xs @ ys) = msg_bits xs @ msg_bits ys"
  by (simp_all add: msg_bits_def)

lemma crc16_loop_bits: "crc16_loop c buf = crc_bits c (msg_bits buf)"
  by (induction buf arbitrary: c) (simp_all add: crc_bits_append crc_bits_byte, simp add: crc_bits_def)

lemma crc16_loop_append: "crc16_loop c (xs @ ys) = crc16_loop (crc16_loop c xs) ys"
  by (induction xs arbitrary: c) simp_all

text \<open>The same for the unreflected code, whose bits enter at the top of the register.\<close>

fun bits_word_msb :: "bool list \<Rightarrow> u16" where
  "bits_word_msb [] = 0"
| "bits_word_msb (b # bs) = push_bit 15 (of_bool b) XOR drop_bit 1 (bits_word_msb bs)"

lemma bit_bits_word_msb:
  "bit (bits_word_msb bs) n \<longleftrightarrow> n < 16 \<and> 15 - n < length bs \<and> bs ! (15 - n)"
proof (induction bs arbitrary: n)
  case Nil
  show ?case by simp
next
  case (Cons b bs)
  show ?case
  proof (cases "n < 15")
    case True
    then have "15 - n = Suc (15 - Suc n)" by simp
    with True show ?thesis by (simp add: bit_simps Cons.IH del: diff_Suc_Suc)
  next
    case False
    then show ?thesis by (cases "n = 15") (auto simp: bit_simps Cons.IH)
  qed
qed

lemma ccitt_shift_drop: "\<not> bit x 0 \<Longrightarrow> ccitt_shift (drop_bit 1 x) = x"
proof (rule bit_word_eqI)
  fix n
  assume "\<not> bit x 0" "n < LENGTH(16)"
  moreover have "\<not> bit x 16" using bit_imp_le_length [of x 16] by auto
  ultimately show "bit (ccitt_shift (drop_bit 1 x)) n = bit x n"
    by (cases n) (simp_all add: ccitt_shift_def bit_simps bit_twice)
qed

lemma ccitt_bits_word:
  "length bs \<le> 16 \<Longrightarrow> ccitt_bits c bs = (ccitt_shift ^^ length bs) (c XOR bits_word_msb bs)"
proof (induction bs arbitrary: c)
  case Nil
  show ?case by (simp add: ccitt_bits_def)
next
  case (Cons b bs)
  have "ccitt_shift (c XOR bits_word_msb (b # bs))
      = ccitt_shift (c XOR push_bit 15 (of_bool b)) XOR ccitt_shift (drop_bit 1 (bits_word_msb bs))"
    by (simp only: bits_word_msb.simps ccitt_shift_xor flip: xor.assoc)
  also have "ccitt_shift (drop_bit 1 (bits_word_msb bs)) = bits_word_msb bs"
    using Cons.prems by (intro ccitt_shift_drop) (simp add: bit_bits_word_msb)
  finally have "ccitt_shift (c XOR bits_word_msb (b # bs)) = ccitt_bit c b XOR bits_word_msb bs"
    by (simp add: ccitt_bit_def)
  with Cons.IH [of "ccitt_bit c b"] Cons.prems show ?case
    by (simp only: funpow_Suc_right list.size add_Suc_right add_0_right comp_def)
      (simp add: ccitt_bits_def)
qed

lemma bits_word_msb_byte_bits: "bits_word_msb (rev (byte_bits d)) = push_bit 8 (ucast d)"
proof (rule bit_word_eqI)
  fix n
  assume n: "n < LENGTH(16)"
  then have "8 \<le> n \<Longrightarrow> rev (byte_bits d) ! (15 - n) = bit d (n - 8)"
    by (subst rev_nth) (simp_all add: byte_bits_def del: upt_Suc)
  with n show "bit (bits_word_msb (rev (byte_bits d))) n = bit (push_bit 8 (ucast d) :: u16) n"
    by (auto simp: bit_bits_word_msb bit_simps)
qed

lemma ccitt_bits_append: "ccitt_bits c (xs @ ys) = ccitt_bits (ccitt_bits c xs) ys"
  by (simp add: ccitt_bits_def)

lemma crc16_ccitt_loop_bits: "crc16_ccitt_loop c buf = ccitt_bits c (msg_bits_msb buf)"
proof (induction buf arbitrary: c)
  case Nil
  show ?case by (simp add: msg_bits_msb_def ccitt_bits_def)
next
  case (Cons d buf)
  have "ccitt_bits c (rev (byte_bits d)) = crc16_ccitt_update c d"
    by (simp add: ccitt_bits_word bits_word_msb_byte_bits crc16_ccitt_update_shift)
  with Cons show ?case by (simp add: msg_bits_msb_def ccitt_bits_append)
qed

section \<open>Error detection\<close>

lemma xor_left_cancel: "a XOR b = a XOR c \<longleftrightarrow> b = c" for a b c :: u16
  by (metis xor.assoc xor_self_eq xor.left_neutral)

lemma xor_zero_iff: "a XOR b = 0 \<longleftrightarrow> a = b" for a b :: u16
  using xor_left_cancel [of a b a] by auto

lemma not_bit_u16_16: "\<not> bit (a :: u16) 16"
  using bit_imp_le_length [of a 16] by auto

lemma crc_shift_inj: "crc_shift a = crc_shift b \<Longrightarrow> a = b"
proof -
  assume "crc_shift a = crc_shift b"
  then have z: "crc_shift (a XOR b) = 0" by (simp add: crc_shift_xor)
  have low: "\<not> bit (a XOR b) 0"
  proof
    assume "bit (a XOR b) 0"
    then have "bit (crc_shift (a XOR b)) 15" by (simp add: crc_shift_def bit_simps not_bit_u16_16)
    with z show False by simp
  qed
  have "a XOR b = 0"
  proof (rule bit_word_eqI)
    fix n
    assume "n < LENGTH(16)"
    show "bit (a XOR b) n = bit 0 n"
    proof (cases n)
      case 0
      with low show ?thesis by simp
    next
      case (Suc m)
      have "\<not> bit (crc_shift (a XOR b)) m" using z by simp
      with low Suc show ?thesis by (simp add: crc_shift_def bit_simps)
    qed
  qed
  then show ?thesis by (simp add: xor_zero_iff)
qed

lemma crc_shift_funpow_inj: "(crc_shift ^^ n) a = (crc_shift ^^ n) b \<Longrightarrow> a = b"
  by (induction n) (auto dest: crc_shift_inj)

lemma crc_bits_inj_state: "crc_bits c bs = crc_bits c' bs \<Longrightarrow> c = c'"
proof (induction bs arbitrary: c c')
  case Nil
  then show ?case by (simp add: crc_bits_def)
next
  case (Cons b bs)
  then have "crc_bit c b = crc_bit c' b" by (simp add: crc_bits_def)
  then show ?case by (auto simp: crc_bit_def xor_left_cancel xor.commute [of _ "of_bool b"] dest!: crc_shift_inj)
qed

lemma bits_word_inj:
  assumes "length xs = length ys" "length xs \<le> 16" "bits_word xs = bits_word ys"
  shows "xs = ys"
proof (rule nth_equalityI)
  fix i
  assume "i < length xs"
  with assms show "xs ! i = ys ! i"
    using bit_bits_word [of xs i] bit_bits_word [of ys i] by auto
qed (rule assms)

lemma crc_bits_burst:
  assumes "length e = length e'" "length e \<le> 16" "e \<noteq> e'"
  shows "crc_bits c (p @ e @ s) \<noteq> crc_bits c (p @ e' @ s)"
proof
  assume "crc_bits c (p @ e @ s) = crc_bits c (p @ e' @ s)"
  then have "crc_bits (crc_bits c p) e = crc_bits (crc_bits c p) e'"
    by (auto simp: crc_bits_append dest: crc_bits_inj_state)
  with assms(1,2) have "bits_word e = bits_word e'"
    by (auto simp: crc_bits_word xor_left_cancel dest!: crc_shift_funpow_inj)
  with assms show False using bits_word_inj by blast
qed

text \<open>A body followed by its checksum, low byte first, drives the register to zero, and no other
  trailer does.\<close>

lemma crc16_trailer:
  "crc16_loop c [a, b] = 0 \<longleftrightarrow> le16 a b = c"
proof -
  have w: "bits_word (byte_bits a @ byte_bits b) = le16 a b"
  proof (rule bit_word_eqI)
    fix n
    assume "n < LENGTH(16)"
    then show "bit (bits_word (byte_bits a @ byte_bits b)) n = bit (le16 a b) n"
      using bit_u8_iff [of a n]
      by (cases "n < 8")
        (auto simp: bit_bits_word byte_bits_def nth_append le16_def bit_simps simp del: upt_Suc)
  qed
  have "crc16_loop c [a, b] = (crc_shift ^^ 16) (c XOR le16 a b)"
    by (simp add: crc16_loop_bits crc_bits_word w del: crc16_loop.simps)
  moreover have "(crc_shift ^^ 16) 0 = 0"
    using crc_shift_funpow_drop [of 16 0] by simp
  ultimately show ?thesis
    using crc_shift_funpow_inj [of 16 "c XOR le16 a b" 0] 
    by (auto simp: xor_zero_iff)
qed

lemma crc16_block_append: "crc16_block (xs @ ys) = crc16_loop (crc16_block xs) ys"
  by (simp add: crc16_block_def crc16_loop_append)

lemma crc16_residue: "crc16_block (xs @ [a, b]) = 0 \<longleftrightarrow> le16 a b = crc16_block xs"
  by (simp only: crc16_block_append crc16_trailer)

section \<open>Properties\<close>

text \<open>C22: equivalence: \<open>crc16_block\<close>, which steps byte by byte through the 256-entry table
  \<open>crc16_tab\<close>, equals the bit-serial shift register with the reflected polynomial 0x8408, started at
  0xFFFF and fed the bits of the message least significant bit first.\<close>

theorem crc16_block_bit_serial: "crc16_block buf = crc_bits 0xFFFF (msg_bits buf)"
  by (simp add: crc16_block_def CRC16_INIT_VALUE_def crc16_loop_bits)

text \<open>Equivalence: \<open>crc16_ccitt_block\<close> equals the bit-serial shift register with polynomial
  0x1021, started at zero and fed most significant bit first.\<close>

theorem crc16_ccitt_block_bit_serial: "crc16_ccitt_block buf = ccitt_bits 0 (msg_bits_msb buf)"
  by (simp add: crc16_ccitt_block_def CRC16_CCITT_INIT_VALUE_def crc16_ccitt_loop_bits)

end
