(* ===== verification/Cobs.thy ===== *)
theory Cobs
  imports Esp_Prelude
begin

text \<open>
  Consistent overhead byte stuffing, \<open>src/user_main/cobs.c\<close> and \<open>cobs.h\<close>: the encoder writing
  through its \<open>dst\<close> and \<open>code_ptr\<close> pointers into a caller's buffer, and the streaming decoder.  Every
  store is guarded by the size of the buffer it goes to, \<open>None\<close> being a store outside of it.  The
  abstract specification is \<open>cobs_spec\<close>, the block encoding of a message as a list; the lemmas show
  that the encoder refines it inside \<open>COBS_ENCODED_MAX_SIZE\<close> bytes, that the decoder inverts it, and
  where the decoder leaves its buffer.
\<close>

section \<open>Encoder\<close>

definition COBS_MAX_DISTANCE :: nat where
  "COBS_MAX_DISTANCE = 0xff - 1"

definition COBS_BYTE_EOF :: u8 where
  "COBS_BYTE_EOF = 0"

definition COBS_ENCODED_MAX_SIZE :: "nat \<Rightarrow> nat" where
  "COBS_ENCODED_MAX_SIZE n = n + ((n + COBS_MAX_DISTANCE - 1) div COBS_MAX_DISTANCE) + 1"

text \<open>The encoder's local variables: the destination buffer, the indices of \<open>dst\<close> and \<open>code_ptr\<close>
  relative to \<open>dst_orig\<close>, and the running block length.\<close>

record cobs_enc =
  dst_buf :: bytes
  dst :: nat
  code_ptr :: nat
  code_len :: u8

datatype enc_exit = Enc_Error cobs_enc | Enc_Done cobs_enc

text \<open>\<open>while (src_len--)\<close>: inside the body for a byte \<open>ch\<close> the variable \<open>src_len\<close> is the number of
  bytes after it.\<close>

fun cobs_encode_loop :: "nat \<Rightarrow> bytes \<Rightarrow> cobs_enc \<Rightarrow> enc_exit option" where
  "cobs_encode_loop code_end [] s = Some (Enc_Done s)"
| "cobs_encode_loop code_end (ch # src) s =
     (if dst s \<ge> code_end then Some (Enc_Error s)
      else if ch = COBS_BYTE_EOF then do {
        b \<leftarrow> poke (dst_buf s) (code_ptr s) (code_len s);
        cobs_encode_loop code_end src
          (s\<lparr>dst_buf := b, code_ptr := dst s, dst := dst s + 1, code_len := 1\<rparr>)
      }
      else do {
        b \<leftarrow> poke (dst_buf s) (dst s) ch;
        let s = s\<lparr>dst_buf := b, dst := dst s + 1, code_len := code_len s + 1\<rparr>;
        if code_len s = 0xFF then
          (if src = [] then Some (Enc_Done s)
           else do {
             b \<leftarrow> poke (dst_buf s) (code_ptr s) (code_len s);
             cobs_encode_loop code_end src
               (s\<lparr>dst_buf := b, code_ptr := dst s, dst := dst s + 1, code_len := 1\<rparr>)
           })
        else cobs_encode_loop code_end src s
      })"

text \<open>The function returns the number of bytes written, or -1 converted to \<open>size_t\<close>; the second
  component is the destination buffer afterwards.\<close>

definition cobs_encode :: "bytes \<Rightarrow> bytes \<Rightarrow> (u32 \<times> bytes) option" where
  "cobs_encode dst_orig src_orig =
     (let dest_sz = COBS_ENCODED_MAX_SIZE (length src_orig);
          code_end = dest_sz - 1;
          s0 = \<lparr>dst_buf = dst_orig, dst = 1, code_ptr = 0, code_len = 1\<rparr>
      in do {
        r \<leftarrow> cobs_encode_loop code_end src_orig s0;
        case r of
          Enc_Error s \<Rightarrow> Some (- 1, dst_buf s)
        | Enc_Done s \<Rightarrow> do {
            b \<leftarrow> poke (dst_buf s) (code_ptr s) (code_len s);
            b \<leftarrow> poke b (dst s) COBS_BYTE_EOF;
            Some (of_nat (dst s + 1), b)
          }
      })"

section \<open>Decoder\<close>

datatype cobs_decoder_state = DEC_IDLE | DEC_BLOCK

record cobs_decoder =
  buf :: bytes
  buf_size :: nat
  buf_ind :: nat
  overflow :: bool
  block_len :: u32
  block_cnt :: u32
  state :: cobs_decoder_state

text \<open>The callback and its data pointer are a function on the state \<open>'e\<close> the data pointer leads to.\<close>

type_synonym 'e cobs_callback = "bytes \<Rightarrow> 'e \<Rightarrow> 'e option"

definition cobs_decoder_init :: "cobs_decoder \<Rightarrow> bytes \<Rightarrow> nat \<Rightarrow> cobs_decoder" where
  "cobs_decoder_init cobs b n = cobs\<lparr>state := DEC_IDLE, buf := b, buf_size := n\<rparr>"

definition cobs_decoder_byte ::
  "'e cobs_callback \<Rightarrow> u8 \<Rightarrow> cobs_decoder \<times> 'e \<Rightarrow> (cobs_decoder \<times> 'e) option" where
  "cobs_decoder_byte cb ch = (\<lambda>(cobs, e).
     case state cobs of
       DEC_IDLE \<Rightarrow>
         (if ch \<noteq> COBS_BYTE_EOF then
            Some (cobs\<lparr>buf_ind := 0, overflow := False, block_cnt := ucast ch,
                       block_len := ucast ch, state := DEC_BLOCK\<rparr>, e)
          else Some (cobs, e))
     | DEC_BLOCK \<Rightarrow>
         (if ch \<noteq> COBS_BYTE_EOF then
            (if block_cnt cobs = 1 \<and> block_len cobs < 0xFF then do {
               b \<leftarrow> poke (buf cobs) (buf_ind cobs) COBS_BYTE_EOF;
               Some (cobs\<lparr>buf := b, buf_ind := buf_ind cobs + 1,
                          block_cnt := ucast ch, block_len := ucast ch\<rparr>, e)
             }
             else if block_cnt cobs = 1 \<and> block_len cobs = 0xff then
               Some (cobs\<lparr>block_cnt := ucast ch, block_len := ucast ch\<rparr>, e)
             else
               (let cobs = cobs\<lparr>block_cnt := block_cnt cobs - 1\<rparr> in
                if buf_ind cobs < buf_size cobs then do {
                  b \<leftarrow> poke (buf cobs) (buf_ind cobs) ch;
                  Some (cobs\<lparr>buf := b, buf_ind := buf_ind cobs + 1\<rparr>, e)
                }
                else Some (cobs\<lparr>overflow := True\<rparr>, e)))
          else do {
            e' \<leftarrow> (if block_cnt cobs = 1 \<and> \<not> overflow cobs
                   then cb (take (buf_ind cobs) (buf cobs)) e else Some e);
            Some (cobs\<lparr>buf_ind := 0, state := DEC_IDLE\<rparr>, e')
          }))"

definition cobs_decoder_put ::
  "'e cobs_callback \<Rightarrow> bytes \<Rightarrow> cobs_decoder \<times> 'e \<Rightarrow> (cobs_decoder \<times> 'e) option" where
  "cobs_decoder_put cb src = mfold (cobs_decoder_byte cb) src"

section \<open>Abstract specification\<close>

text \<open>\<open>cobs_blocks acc xs\<close> encodes the rest \<open>xs\<close> of a message when the bytes \<open>acc\<close> of the current
  block are already collected: a block of up to 254 non-zero bytes is preceded by its length plus
  one, a zero ends a block, and a frame ends with the zero byte.\<close>

fun cobs_blocks :: "bytes \<Rightarrow> bytes \<Rightarrow> bytes" where
  "cobs_blocks acc [] = of_nat (length acc + 1) # acc @ [0]"
| "cobs_blocks acc (x # xs) =
     (if x = 0 then of_nat (length acc + 1) # acc @ cobs_blocks [] xs
      else if length acc + 1 = 254 \<and> xs \<noteq> [] then 255 # acc @ x # cobs_blocks [] xs
      else cobs_blocks (acc @ [x]) xs)"

definition cobs_spec :: "bytes \<Rightarrow> bytes" where
  "cobs_spec xs = cobs_blocks [] xs"

text \<open>A decoder in zero-initialised storage.\<close>

definition cobs_decoder_zero :: cobs_decoder where
  "cobs_decoder_zero =
     \<lparr>buf = [], buf_size = 0, buf_ind = 0, overflow = False, block_len = 0, block_cnt = 0, state = DEC_IDLE\<rparr>"

section \<open>The encoder refines the specification\<close>

lemma cobs_blocks_min_length: "length acc + 2 \<le> length (cobs_blocks acc xs)"
  by (induction acc xs rule: cobs_blocks.induct) auto

lemma cobs_blocks_min_length_Cons: "length acc + 3 \<le> length (cobs_blocks acc (x # xs))"
  using cobs_blocks_min_length [of "[]" xs] cobs_blocks_min_length [of "acc @ [x]" xs] by auto

lemma cobs_blocks_length:
  "length acc \<le> 253 \<Longrightarrow>
   length (cobs_blocks acc xs) \<le> length acc + length xs + 2 + (length acc + length xs - 1) div 254"
proof (induction acc xs rule: cobs_blocks.induct)
  case (1 acc)
  show ?case by simp
next
  case (2 acc x xs)
  show ?case
  proof (cases "x = 0")
    case True
    with "2.IH"(1) have "length (cobs_blocks [] xs) \<le> length xs + 2 + (length xs - 1) div 254" by simp
    moreover have "(length xs - 1) div 254 \<le> (length acc + length xs) div 254"
      by (rule div_le_mono) simp
    ultimately show ?thesis using True by simp
  next
    case nz: False
    show ?thesis
    proof (cases "length acc + 1 = 254 \<and> xs \<noteq> []")
      case True
      with "2.IH"(2) nz have "length (cobs_blocks [] xs) \<le> length xs + 2 + (length xs - 1) div 254"
        by simp
      moreover from True have "(length acc + length xs) div 254 = (length xs - 1) div 254 + 1"
        by (cases xs) auto
      ultimately show ?thesis using True nz by simp
    next
      case False
      then consider "length acc < 253" | "xs = []" using "2.prems" by force
      then show ?thesis
        using "2.IH"(3) nz False by cases auto
    qed
  qed
qed

lemma encoded_max_size:
  "0 < n \<Longrightarrow> COBS_ENCODED_MAX_SIZE n = n + 2 + (n - 1) div 254"
  by (cases n) (simp_all add: COBS_ENCODED_MAX_SIZE_def COBS_MAX_DISTANCE_def)

lemma cobs_spec_length: "xs \<noteq> [] \<Longrightarrow> length (cobs_spec xs) \<le> COBS_ENCODED_MAX_SIZE (length xs)"
  using cobs_blocks_length [of "[]" xs] by (simp add: cobs_spec_def encoded_max_size)

text \<open>The encoder has emitted the complete blocks \<open>out\<close>, holds the bytes \<open>acc\<close> of an open block after
  the place reserved for its length, and has not touched the buffer from \<open>dst\<close> on.\<close>

definition enc_rel :: "bytes \<Rightarrow> bytes \<Rightarrow> bytes \<Rightarrow> cobs_enc \<Rightarrow> bool" where
  "enc_rel orig out acc s \<longleftrightarrow>
     (\<exists>c. dst_buf s = out @ c # acc @ drop (dst s) orig) \<and>
     dst s = length out + 1 + length acc \<and> dst s \<le> length orig \<and>
     code_ptr s = length out \<and> code_len s = of_nat (length acc + 1)"

lemma enc_rel_length: "enc_rel orig out acc s \<Longrightarrow> length (dst_buf s) = length orig"
  by (auto simp: enc_rel_def)

lemma enc_rel_put:
  assumes "enc_rel orig out acc s" "dst s < length orig"
  shows "\<exists>b. poke (dst_buf s) (dst s) ch = Some b \<and>
    enc_rel orig out (acc @ [ch]) (s\<lparr>dst_buf := b, dst := dst s + 1, code_len := code_len s + 1\<rparr>)"
proof -
  from assms obtain c where b: "dst_buf s = out @ c # acc @ drop (dst s) orig"
    and d: "dst s = length out + 1 + length acc" by (auto simp: enc_rel_def)
  have "drop (dst s) orig = orig ! dst s # drop (Suc (dst s)) orig"
    using assms(2) by (simp add: Cons_nth_drop_Suc)
  then have "(dst_buf s)[dst s := ch] = out @ c # (acc @ [ch]) @ drop (Suc (dst s)) orig"
    using b d by (simp add: list_update_append)
  with assms show ?thesis
    by (auto simp: poke_def enc_rel_length enc_rel_def)
qed

lemma enc_rel_close:
  assumes "enc_rel orig out acc s" "dst s < length orig"
  shows "\<exists>b. poke (dst_buf s) (code_ptr s) (code_len s) = Some b \<and>
    enc_rel orig (out @ of_nat (length acc + 1) # acc) []
      (s\<lparr>dst_buf := b, code_ptr := dst s, dst := dst s + 1, code_len := 1\<rparr>)"
proof -
  from assms obtain c where b: "dst_buf s = out @ c # acc @ drop (dst s) orig"
    by (auto simp: enc_rel_def)
  have "drop (dst s) orig = orig ! dst s # drop (Suc (dst s)) orig"
    using assms(2) by (simp add: Cons_nth_drop_Suc)
  with b assms show ?thesis
    by (auto simp: poke_def enc_rel_def list_update_append)
qed

lemma cobs_encode_loop_refines:
  assumes "enc_rel orig out acc s" "length acc \<le> 253"
    and "length out + length (cobs_blocks acc xs) \<le> length orig"
    and "length out + length (cobs_blocks acc xs) \<le> code_end + 1"
  shows "\<exists>s' out' acc'. cobs_encode_loop code_end xs s = Some (Enc_Done s') \<and>
    enc_rel orig out' acc' s' \<and>
    out' @ of_nat (length acc' + 1) # acc' @ [0] = out @ cobs_blocks acc xs"
  using assms
proof (induction xs arbitrary: s out acc)
  case Nil
  then show ?case by auto
next
  case (Cons x xs)
  have d: "dst s < code_end" "dst s + 1 < length orig"
    using Cons.prems cobs_blocks_min_length_Cons [of acc x xs] by (auto simp: enc_rel_def)
  show ?case
  proof (cases "x = 0")
    case True
    from enc_rel_close [OF Cons.prems(1)] d obtain b where
      "poke (dst_buf s) (code_ptr s) (code_len s) = Some b"
      "enc_rel orig (out @ of_nat (length acc + 1) # acc) []
        (s\<lparr>dst_buf := b, code_ptr := dst s, dst := dst s + 1, code_len := 1\<rparr>)" by auto
    with Cons.IH [OF this(2)] Cons.prems(2-) True d show ?thesis
      by (auto simp: COBS_BYTE_EOF_def)
  next
    case False
    define s1 where "s1 b = s\<lparr>dst_buf := b, dst := dst s + 1, code_len := code_len s + 1\<rparr>" for b
    from enc_rel_put [OF Cons.prems(1)] d obtain b where
      b: "poke (dst_buf s) (dst s) x = Some b" "enc_rel orig out (acc @ [x]) (s1 b)"
      by (auto simp: s1_def)
    have ff: "code_len (s1 b) = 0xFF \<longleftrightarrow> length acc + 1 = 254"
    proof -
      have "code_len (s1 b) = of_nat (length acc + 2)"
        using b(2) by (simp add: enc_rel_def)
      moreover have "unat (of_nat (length acc + 2) :: u8) = length acc + 2"
        using Cons.prems(2) by (simp only: unat_of_nat) (simp add: take_bit_eq_mod)
      ultimately show ?thesis by (auto simp: word_unat_eq_iff)
    qed
    have loop: "cobs_encode_loop code_end (x # xs) s =
      (if code_len (s1 b) = 0xFF then
         (if xs = [] then Some (Enc_Done (s1 b))
          else do {
            b' \<leftarrow> poke (dst_buf (s1 b)) (code_ptr (s1 b)) (code_len (s1 b));
            cobs_encode_loop code_end xs
              ((s1 b)\<lparr>dst_buf := b', code_ptr := dst (s1 b), dst := dst (s1 b) + 1, code_len := 1\<rparr>)
          })
       else cobs_encode_loop code_end xs (s1 b))"
      using d False b(1) by (simp add: COBS_BYTE_EOF_def Let_def s1_def)
    note loop = loop [unfolded ff]
    consider "length acc + 1 = 254" "xs = []" | "length acc + 1 = 254" "xs \<noteq> []" | "length acc + 1 < 254"
      using Cons.prems(2) by linarith
    then show ?thesis
    proof cases
      case 1
      then have "cobs_encode_loop code_end (x # xs) s = Some (Enc_Done (s1 b))" using loop by simp
      moreover have "out @ of_nat (length (acc @ [x]) + 1) # (acc @ [x]) @ [0] = out @ cobs_blocks acc (x # xs)"
        using 1 False by simp
      ultimately show ?thesis using b(2) by blast
    next
      case 2
      have len: "length out + (255 + length (cobs_blocks [] xs)) \<le> length orig"
        "length out + (255 + length (cobs_blocks [] xs)) \<le> code_end + 1"
        using Cons.prems(3,4) 2 False by auto
      then have "dst (s1 b) < length orig"
        using b(2) 2 cobs_blocks_min_length [of "[]" xs] by (auto simp: enc_rel_def)
      with enc_rel_close [OF b(2)] obtain b' where
        b': "poke (dst_buf (s1 b)) (code_ptr (s1 b)) (code_len (s1 b)) = Some b'"
        "enc_rel orig (out @ of_nat (length (acc @ [x]) + 1) # acc @ [x]) []
          ((s1 b)\<lparr>dst_buf := b', code_ptr := dst (s1 b), dst := dst (s1 b) + 1, code_len := 1\<rparr>)"
        by auto
      have "out @ cobs_blocks acc (x # xs)
          = (out @ of_nat (length (acc @ [x]) + 1) # acc @ [x]) @ cobs_blocks [] xs"
        using 2 False by simp
      with Cons.IH [OF b'(2)] len 2 b'(1) loop show ?thesis by simp
    next
      case 3
      with loop have "cobs_encode_loop code_end (x # xs) s = cobs_encode_loop code_end xs (s1 b)" by simp
      with Cons.IH [OF b(2)] 3 False Cons.prems(3,4) show ?thesis by simp
    qed
  qed
qed

lemma cobs_encode_refines:
  assumes "src \<noteq> []" "COBS_ENCODED_MAX_SIZE (length src) \<le> length b"
  shows "cobs_encode b src =
    Some (of_nat (length (cobs_spec src)), cobs_spec src @ drop (length (cobs_spec src)) b)"
proof -
  define s0 where "s0 = \<lparr>dst_buf = b, dst = 1, code_ptr = 0, code_len = 1\<rparr>"
  have bound: "length (cobs_spec src) \<le> COBS_ENCODED_MAX_SIZE (length src)"
    using assms(1) by (rule cobs_spec_length)
  have "0 < length b" using assms(2) by (auto simp: COBS_ENCODED_MAX_SIZE_def)
  then have "b = b ! 0 # drop 1 b" by (cases b) simp_all
  then have r0: "enc_rel b [] [] s0" using \<open>0 < length b\<close>
    by (auto simp: enc_rel_def s0_def Suc_le_eq)
  have "0 < COBS_ENCODED_MAX_SIZE (length src)" by (simp add: COBS_ENCODED_MAX_SIZE_def)
  with cobs_encode_loop_refines [OF r0, of src "COBS_ENCODED_MAX_SIZE (length src) - 1"] bound assms(2)
  obtain s out acc where
    l: "cobs_encode_loop (COBS_ENCODED_MAX_SIZE (length src) - 1) src s0 = Some (Enc_Done s)"
    and r: "enc_rel b out acc s"
    and e: "out @ of_nat (length acc + 1) # acc @ [0] = cobs_spec src"
    by (auto simp: cobs_spec_def)
  have n: "length (cobs_spec src) = dst s + 1"
    using e [symmetric] r by (simp add: enc_rel_def)
  then have d: "dst s < length b" using bound assms(2) by simp
  then have "drop (dst s) b = b ! dst s # drop (Suc (dst s)) b"
    by (simp add: Cons_nth_drop_Suc)
  with r d have "\<exists>b'. poke (dst_buf s) (code_ptr s) (code_len s) = Some b' \<and>
      poke b' (dst s) 0 = Some ((out @ of_nat (length acc + 1) # acc @ [0]) @ drop (Suc (dst s)) b)"
    by (auto simp: poke_def enc_rel_def list_update_append)
  then obtain b' where
    "poke (dst_buf s) (code_ptr s) (code_len s) = Some b'"
    "poke b' (dst s) 0 = Some (cobs_spec src @ drop (Suc (dst s)) b)"
    unfolding e by blast
  with l show ?thesis
    by (simp add: cobs_encode_def Let_def COBS_BYTE_EOF_def n s0_def)
qed

section \<open>The decoder\<close>

lemma cobs_decoder_put_append:
  "cobs_decoder_put cb (xs @ ys) s = do { s' \<leftarrow> cobs_decoder_put cb xs s; cobs_decoder_put cb ys s' }"
  by (simp add: cobs_decoder_put_def mfold_append)

lemma cobs_decoder_put_simps [simp]:
  "cobs_decoder_put cb [] s = Some s"
  "cobs_decoder_put cb (x # xs) s = do { s' \<leftarrow> cobs_decoder_byte cb x s; cobs_decoder_put cb xs s' }"
  by (simp_all add: cobs_decoder_put_def)

text \<open>The decoder invariant: the recorded size is the size of the buffer.\<close>

definition dec_inv :: "cobs_decoder \<Rightarrow> bool" where
  "dec_inv d \<longleftrightarrow> buf_size d = length (buf d) \<and> (state d = DEC_BLOCK \<longrightarrow> buf_ind d \<le> buf_size d)"

lemma cobs_decoder_byte_inv:
  "dec_inv d \<Longrightarrow> cobs_decoder_byte cb ch (d, e) = Some (d', e') \<Longrightarrow> dec_inv d' \<and> buf_size d' = buf_size d"
  by (auto simp: dec_inv_def cobs_decoder_byte_def bind_eq_Some_conv Let_def
      split: cobs_decoder_state.splits if_splits dest!: poke_SomeD)

lemma cobs_decoder_put_inv:
  "dec_inv d \<Longrightarrow> cobs_decoder_put cb src (d, e) = Some (d', e') \<Longrightarrow> dec_inv d' \<and> buf_size d' = buf_size d"
  using mfold_invariant [where I = "\<lambda>s. dec_inv (fst s) \<and> buf_size (fst s) = buf_size d"
      and f = "cobs_decoder_byte cb" and s = "(d, e)" and s' = "(d', e')" and xs = src]
  by (fastforce simp: cobs_decoder_put_def dest: cobs_decoder_byte_inv)

text \<open>In the middle of a frame: \<open>got\<close> is the decoded prefix, \<open>len\<close> the code byte of the current block
  and \<open>cnt\<close> what is left of it.\<close>

definition dec_mid :: "nat \<Rightarrow> bytes \<Rightarrow> nat \<Rightarrow> nat \<Rightarrow> cobs_decoder \<Rightarrow> bool" where
  "dec_mid cap got len cnt d \<longleftrightarrow>
     state d = DEC_BLOCK \<and> \<not> overflow d \<and> buf_size d = cap \<and> length (buf d) = cap \<and>
     buf_ind d = length got \<and> length got \<le> cap \<and> take (length got) (buf d) = got \<and>
     block_len d = of_nat len \<and> block_cnt d = of_nat cnt \<and> 1 \<le> cnt \<and> cnt \<le> len \<and> len \<le> 255"

lemma dec_mid_cnt:
  assumes "dec_mid cap got len cnt d"
  shows "block_cnt d = 1 \<longleftrightarrow> cnt = 1" "block_len d < 0xFF \<longleftrightarrow> len < 255" "block_len d = 0xFF \<longleftrightarrow> len = 255"
proof -
  have "unat (of_nat cnt :: u32) = cnt" "unat (of_nat len :: u32) = len"
    using assms by (simp_all only: dec_mid_def unat_of_nat) (simp_all add: take_bit_eq_mod)
  with assms show "block_cnt d = 1 \<longleftrightarrow> cnt = 1" "block_len d < 0xFF \<longleftrightarrow> len < 255"
    "block_len d = 0xFF \<longleftrightarrow> len = 255"
    by (auto simp: dec_mid_def word_unat_eq_iff word_less_nat_alt)
qed

text \<open>A data byte of the current block.\<close>

lemma dec_byte_data:
  assumes m: "dec_mid cap got len (Suc cnt) d" and "0 < cnt" "x \<noteq> 0" "length got < cap"
  shows "\<exists>d'. cobs_decoder_byte cb x (d, e) = Some (d', e) \<and> dec_mid cap (got @ [x]) len cnt d'"
proof -
  have c: "block_cnt d \<noteq> 1" using dec_mid_cnt(1) [OF m] assms(2) by simp
  have "take (Suc (length got)) ((buf d)[length got := x]) = got @ [x]"
    using m assms(4) by (simp add: dec_mid_def take_list_update_last)
  with m c assms(2-) show ?thesis
    by (auto simp: dec_mid_def cobs_decoder_byte_def COBS_BYTE_EOF_def Let_def poke_def)
qed

lemma dec_put_data:
  assumes "dec_mid cap got len (length xs + cnt) d" "0 < cnt" "0 \<notin> set xs"
    and "length got + length xs \<le> cap"
  shows "\<exists>d'. cobs_decoder_put cb xs (d, e) = Some (d', e) \<and> dec_mid cap (got @ xs) len cnt d'"
  using assms
proof (induction xs arbitrary: got d)
  case Nil
  then show ?case by simp
next
  case (Cons x xs)
  then obtain d1 where d1: "cobs_decoder_byte cb x (d, e) = Some (d1, e)"
    "dec_mid cap (got @ [x]) len (length xs + cnt) d1"
    using dec_byte_data [of cap got len "length xs + cnt" d x cb e] by auto
  with Cons.IH [OF d1(2)] Cons.prems show ?case by auto
qed

text \<open>The code byte of the next block: the block before it ends in an implicit zero unless it was
  full.\<close>

lemma of_nat_u8:
  assumes "1 \<le> n" "n \<le> 255"
  shows "(of_nat n :: u8) \<noteq> 0 \<and> (ucast (of_nat n :: u8) :: u32) = of_nat n"
proof -
  have "unat (of_nat n :: u8) = n" "unat (of_nat n :: u32) = n"
    using assms by (simp_all only: unat_of_nat) (simp_all add: take_bit_eq_mod)
  with assms show ?thesis by (auto simp: word_unat_eq_iff unsigned_ucast_eq take_bit_eq_mod)
qed

lemma dec_byte_code:
  assumes m: "dec_mid cap got len 1 d" and "1 \<le> n" "n \<le> 255"
    and room: "len < 255 \<Longrightarrow> length got < cap"
  shows "\<exists>d'. cobs_decoder_byte cb (of_nat n) (d, e) = Some (d', e) \<and>
    dec_mid cap (if len < 255 then got @ [0] else got) n n d'"
proof -
  have n: "(of_nat n :: u8) \<noteq> 0" "(ucast (of_nat n :: u8) :: u32) = of_nat n"
    using of_nat_u8 [OF assms(2,3)] by auto
  have "len < 255 \<Longrightarrow> take (Suc (length got)) ((buf d)[length got := 0]) = got @ [0]"
    using m room by (simp add: dec_mid_def take_list_update_last)
  with m n assms(2-) show ?thesis
    using dec_mid_cnt [OF m]
    by (auto simp: dec_mid_def cobs_decoder_byte_def COBS_BYTE_EOF_def Let_def poke_def)
qed

lemma dec_byte_eof:
  assumes "dec_mid cap got len 1 d"
  shows "\<exists>d'. cobs_decoder_byte cb 0 (d, e) = map_option (\<lambda>e'. (d', e')) (cb got e) \<and>
    dec_inv d' \<and> state d' = DEC_IDLE \<and> buf_size d' = cap"
  using assms dec_mid_cnt(1) [OF assms]
  by (intro exI [of _ "d\<lparr>buf_ind := 0, state := DEC_IDLE\<rparr>"])
    (cases "cb got e", auto simp: dec_inv_def dec_mid_def cobs_decoder_byte_def COBS_BYTE_EOF_def)

text \<open>The decoder waits for a code byte, with \<open>pre\<close> decoded once it comes: between frames, or after a
  block, which ends in an implicit zero unless it was full.\<close>

definition dec_ready :: "'e cobs_callback \<Rightarrow> 'e \<Rightarrow> nat \<Rightarrow> bytes \<Rightarrow> cobs_decoder \<Rightarrow> bool" where
  "dec_ready cb e cap pre d \<longleftrightarrow> (\<forall>n. 1 \<le> n \<and> n \<le> 255 \<longrightarrow>
     (\<exists>d'. cobs_decoder_byte cb (of_nat n) (d, e) = Some (d', e) \<and> dec_mid cap pre n n d'))"

lemma dec_ready_idle: "dec_inv d \<Longrightarrow> state d = DEC_IDLE \<Longrightarrow> dec_ready cb e (buf_size d) [] d"
  using of_nat_u8
  by (auto simp: dec_ready_def dec_inv_def dec_mid_def cobs_decoder_byte_def COBS_BYTE_EOF_def)

lemma dec_ready_full: "dec_mid cap got 255 1 d \<Longrightarrow> dec_ready cb e cap got d"
  using dec_byte_code [of cap got 255 d _ cb e] by (simp add: dec_ready_def)

lemma dec_ready_short:
  "dec_mid cap got len 1 d \<Longrightarrow> len < 255 \<Longrightarrow> length got < cap \<Longrightarrow> dec_ready cb e cap (got @ [0]) d"
  using dec_byte_code [of cap got len d _ cb e] by (simp add: dec_ready_def)

lemma dec_put_block:
  assumes "dec_ready cb e cap pre d" "length acc \<le> 254" "0 \<notin> set acc" "length pre + length acc \<le> cap"
  shows "\<exists>d'. cobs_decoder_put cb (of_nat (length acc + 1) # acc) (d, e) = Some (d', e) \<and>
    dec_mid cap (pre @ acc) (length acc + 1) 1 d'"
proof -
  obtain d1 where "cobs_decoder_byte cb (of_nat (length acc + 1)) (d, e) = Some (d1, e)"
    "dec_mid cap pre (length acc + 1) (length acc + 1) d1"
    using dec_ready_def [THEN iffD1, OF assms(1), rule_format, of "length acc + 1"] assms(2) by auto
  with dec_put_data [of cap pre "length acc + 1" acc 1 d1 cb e] assms show ?thesis
    by auto
qed

lemma block_cases:
  assumes "length acc \<le> 253 \<or> (x # xs = [] \<and> length acc = 254)"
  obtains "x = 0" | "x \<noteq> 0" "length acc = 253" "xs \<noteq> []" | "x \<noteq> 0" "length acc < 253 \<or> xs = []"
  using assms by (cases "length acc = 253") auto

lemma dec_put_blocks:
  assumes "dec_ready cb e cap pre d" "length acc \<le> 253 \<or> (xs = [] \<and> length acc = 254)" "0 \<notin> set acc"
    and "length pre + length acc + length xs \<le> cap"
  shows "\<exists>d'. cobs_decoder_put cb (cobs_blocks acc xs) (d, e)
      = map_option (\<lambda>e'. (d', e')) (cb (pre @ acc @ xs) e) \<and>
    dec_inv d' \<and> state d' = DEC_IDLE \<and> buf_size d' = cap"
  using assms
proof (induction acc xs arbitrary: pre d rule: cobs_blocks.induct)
  case (1 acc)
  obtain d1 where d1: "cobs_decoder_put cb (of_nat (length acc + 1) # acc) (d, e) = Some (d1, e)"
    "dec_mid cap (pre @ acc) (length acc + 1) 1 d1"
    using dec_put_block [OF 1(1), of acc] 1 by auto
  have "cobs_blocks acc [] = (of_nat (length acc + 1) # acc) @ [0]" by simp
  then have "cobs_decoder_put cb (cobs_blocks acc []) (d, e) = cobs_decoder_byte cb 0 (d1, e)"
    by (simp only: cobs_decoder_put_append d1(1)) simp
  with dec_byte_eof [OF d1(2), of cb e] show ?case by simp
next
  case (2 acc x xs)
  consider "x = 0" | "x \<noteq> 0" "length acc = 253" "xs \<noteq> []" | "x \<noteq> 0" "length acc < 253 \<or> xs = []"
    using block_cases [of acc x xs] "2.prems" by blast
  then show ?case
  proof cases
    case 1
    obtain d1 where d1: "cobs_decoder_put cb (of_nat (length acc + 1) # acc) (d, e) = Some (d1, e)"
      "dec_mid cap (pre @ acc) (length acc + 1) 1 d1"
      using dec_put_block [OF "2.prems"(1), of acc] "2.prems" by auto
    have "dec_ready cb e cap ((pre @ acc) @ [0]) d1"
      using "2.prems" by (intro dec_ready_short [OF d1(2)]) auto
    moreover have "cobs_blocks acc (x # xs) = (of_nat (length acc + 1) # acc) @ cobs_blocks [] xs"
      using 1 by simp
    ultimately show ?thesis
      using "2.IH"(1) [of "(pre @ acc) @ [0]" d1] 1 d1(1) "2.prems"
      by (simp only: cobs_decoder_put_append) auto
  next
    case c: 2
    obtain d1 where d1: "cobs_decoder_put cb (of_nat (length (acc @ [x]) + 1) # acc @ [x]) (d, e) = Some (d1, e)"
      "dec_mid cap (pre @ acc @ [x]) (length (acc @ [x]) + 1) 1 d1"
      using dec_put_block [OF "2.prems"(1), of "acc @ [x]"] "2.prems" c by auto
    have "dec_ready cb e cap (pre @ acc @ [x]) d1"
      using d1(2) c by (intro dec_ready_full) auto
    moreover have "cobs_blocks acc (x # xs)
        = (of_nat (length (acc @ [x]) + 1) # acc @ [x]) @ cobs_blocks [] xs"
      using c by simp
    ultimately show ?thesis
      using "2.IH"(2) [of "pre @ acc @ [x]" d1] c d1(1) "2.prems"
      by (simp only: cobs_decoder_put_append) auto
  next
    case c: 3
    have "length (acc @ [x]) \<le> 253 \<or> (xs = [] \<and> length (acc @ [x]) = 254)"
      using c "2.prems"(2) by (cases "length acc = 253") auto
    moreover have "cobs_blocks acc (x # xs) = cobs_blocks (acc @ [x]) xs" using c by auto
    ultimately show ?thesis
      using "2.IH"(3) [of pre d] c "2.prems" by auto
  qed
qed

text \<open>Round trip, in the decoder's own terms.\<close>

lemma cobs_decoder_put_spec:
  assumes "dec_inv d" "state d = DEC_IDLE" "length xs \<le> buf_size d"
  shows "\<exists>d'. cobs_decoder_put cb (cobs_spec xs) (d, e) = map_option (\<lambda>e'. (d', e')) (cb xs e) \<and>
    dec_inv d' \<and> state d' = DEC_IDLE \<and> buf_size d' = buf_size d"
  using dec_put_blocks [OF dec_ready_idle [OF assms(1,2)], of "[]" xs] assms(3)
  by (simp add: cobs_spec_def)

section \<open>Frames on the line\<close>

text \<open>The specification never emits the delimiter inside a frame.\<close>

lemma cobs_blocks_delimited:
  assumes "length acc \<le> 253 \<or> (xs = [] \<and> length acc = 254)" "0 \<notin> set acc"
  shows "\<exists>w. cobs_blocks acc xs = w @ [0] \<and> 0 \<notin> set w"
  using assms
proof (induction acc xs rule: cobs_blocks.induct)
  case (1 acc)
  then have "(of_nat (length acc + 1) :: u8) \<noteq> 0" using of_nat_u8 [of "length acc + 1"] by auto
  with 1 show ?case by (intro exI [of _ "of_nat (length acc + 1) # acc"]) auto
next
  case (2 acc x xs)
  consider "x = 0" | "x \<noteq> 0" "length acc = 253" "xs \<noteq> []" | "x \<noteq> 0" "length acc < 253 \<or> xs = []"
    using block_cases [of acc x xs] "2.prems" by blast
  then show ?case
  proof cases
    case 1
    then have "(of_nat (length acc + 1) :: u8) \<noteq> 0" using of_nat_u8 [of "length acc + 1"] "2.prems" by auto
    moreover obtain w where "cobs_blocks [] xs = w @ [0]" "0 \<notin> set w"
      using 1 "2.IH"(1) by auto
    ultimately show ?thesis
      using 1 "2.prems" by (intro exI [of _ "of_nat (length acc + 1) # acc @ w"]) auto
  next
    case c: 2
    then obtain w where "cobs_blocks [] xs = w @ [0]" "0 \<notin> set w"
      using "2.IH"(2) by auto
    then show ?thesis
      using c "2.prems" by (intro exI [of _ "255 # acc @ x # w"]) auto
  next
    case c: 3
    have "length (acc @ [x]) \<le> 253 \<or> (xs = [] \<and> length (acc @ [x]) = 254)"
      using c "2.prems"(1) by (cases "length acc = 253") auto
    then show ?thesis using c "2.IH"(3) "2.prems" by auto
  qed
qed

lemma cobs_spec_delimited: "\<exists>w. cobs_spec xs = w @ [0] \<and> 0 \<notin> set w"
  unfolding cobs_spec_def by (rule cobs_blocks_delimited) simp_all

lemma cobs_spec_nonempty [simp]: "cobs_spec xs \<noteq> []"
  using cobs_spec_delimited [of xs] by auto

text \<open>The delimiter brings the decoder back to its idle state from wherever it is.\<close>

lemma cobs_decoder_resync:
  assumes "cobs_decoder_put cb (junk @ [0]) (d, e) = Some (d', e')"
  shows "state d' = DEC_IDLE"
proof -
  from assms obtain d1 e1 where "cobs_decoder_byte cb 0 (d1, e1) = Some (d', e')"
    by (auto simp: cobs_decoder_put_append bind_eq_Some_conv)
  then show ?thesis
    by (auto simp: cobs_decoder_byte_def COBS_BYTE_EOF_def bind_eq_Some_conv
        split: cobs_decoder_state.splits if_splits)
qed

text \<open>The interface of a self-delimiting framing: an encoder, and a receiver that hands complete
  messages to a callback.  The laws are the round trip and the return to the waiting state.\<close>

locale framing =
  fixes frame :: "'m \<Rightarrow> 'b list"
    and put :: "('m \<Rightarrow> 'e \<Rightarrow> 'e option) \<Rightarrow> 'b list \<Rightarrow> 'd \<times> 'e \<Rightarrow> ('d \<times> 'e) option"
    and idle :: "'d \<Rightarrow> bool"
    and fits :: "'d \<Rightarrow> 'm \<Rightarrow> bool"
  assumes put_append: "put cb (xs @ ys) s = do { s' \<leftarrow> put cb xs s; put cb ys s' }"
    and put_nil: "put cb [] s = Some s"
    and put_frame: "idle d \<Longrightarrow> fits d m \<Longrightarrow>
      \<exists>d'. put cb (frame m) (d, e) = map_option (\<lambda>e'. (d', e')) (cb m e) \<and> idle d' \<and> fits d' = fits d"
begin

text \<open>A stream of frames is delivered message by message, in order.\<close>

lemma put_frames:
  assumes "idle d" "\<forall>m \<in> set ms. fits d m"
  shows "\<exists>d'. put cb (concat (map frame ms)) (d, e) = map_option (\<lambda>e'. (d', e')) (mfold cb ms e)
    \<and> (mfold cb ms e \<noteq> None \<longrightarrow> idle d' \<and> fits d' = fits d)"
  using assms
proof (induction ms arbitrary: d e)
  case Nil
  then show ?case by (auto simp: put_nil)
next
  case (Cons m ms)
  then obtain d1 where d1: "put cb (frame m) (d, e) = map_option (\<lambda>e'. (d1, e')) (cb m e)"
    "idle d1" "fits d1 = fits d"
    using put_frame [of d m cb e] by auto
  show ?case
  proof (cases "cb m e")
    case None
    then show ?thesis using d1 by (simp add: put_append)
  next
    case (Some e1)
    with d1 Cons.IH [of d1 e1] Cons.prems show ?thesis by (auto simp: put_append)
  qed
qed

text \<open>With a callback that collects the messages, the receiver inverts the sender.\<close>

lemma collect_frames:
  assumes "idle d" "\<forall>m \<in> set ms. fits d m"
  shows "\<exists>d'. put (\<lambda>m acc. Some (g m acc)) (concat (map frame ms)) (d, acc) = Some (d', fold g ms acc) \<and> idle d'"
  using put_frames [OF assms, of "\<lambda>m acc. Some (g m acc)" acc]
  by (auto simp: mfold_total [where g = g])

end

interpretation cobs: framing cobs_spec cobs_decoder_put
  "\<lambda>d. dec_inv d \<and> state d = DEC_IDLE" "\<lambda>d xs. length xs \<le> buf_size d"
proof unfold_locales
  fix d :: cobs_decoder and m :: bytes and cb :: "bytes \<Rightarrow> 'e \<Rightarrow> 'e option" and e
  assume "dec_inv d \<and> state d = DEC_IDLE" "length m \<le> buf_size d"
  then show "\<exists>d'. cobs_decoder_put cb (cobs_spec m) (d, e) = map_option (\<lambda>e'. (d', e')) (cb m e)
      \<and> (dec_inv d' \<and> state d' = DEC_IDLE)
      \<and> (\<lambda>xs. length xs \<le> buf_size d') = (\<lambda>xs. length xs \<le> buf_size d)"
    using cobs_decoder_put_spec [of d m cb e] by auto
qed (simp_all add: cobs_decoder_put_append)

section \<open>Where the decoder leaves its buffer\<close>

text \<open>The implicit zero between two short blocks is stored without a look at \<open>buf_size\<close>.\<close>

lemma dec_byte_ones:
  assumes "dec_inv d" "state d = DEC_BLOCK" "block_cnt d = 1" "block_len d = 1"
  shows "cobs_decoder_byte cb 1 (d, e) =
    (if buf_ind d < buf_size d
     then Some (d\<lparr>buf := (buf d)[buf_ind d := 0], buf_ind := buf_ind d + 1\<rparr>, e) else None)"
  using assms by (simp add: cobs_decoder_byte_def COBS_BYTE_EOF_def dec_inv_def poke_def)

lemma dec_put_ones:
  assumes "dec_inv d" "state d = DEC_BLOCK" "block_cnt d = 1" "block_len d = 1"
    and "buf_size d < buf_ind d + n"
  shows "cobs_decoder_put cb (replicate n 1) (d, e) = None"
  using assms
proof (induction n arbitrary: d)
  case 0
  then show ?case by (simp add: dec_inv_def)
next
  case (Suc n)
  show ?case
  proof (cases "buf_ind d < buf_size d")
    case True
    let ?d = "d\<lparr>buf := (buf d)[buf_ind d := 0], buf_ind := buf_ind d + 1\<rparr>"
    have "cobs_decoder_put cb (replicate n 1) (?d, e) = None"
      using Suc.prems True by (intro Suc.IH) (auto simp: dec_inv_def)
    with dec_byte_ones [OF Suc.prems(1-4), of cb e] True show ?thesis by simp
  next
    case False
    with dec_byte_ones [OF Suc.prems(1-4), of cb e] show ?thesis by simp
  qed
qed

lemma dec_inv_init: "dec_inv (cobs_decoder_init d b (length b))"
  "state (cobs_decoder_init d b n) = DEC_IDLE" "buf_size (cobs_decoder_init d b n) = n"
  by (simp_all add: dec_inv_def cobs_decoder_init_def)

section \<open>Properties\<close>

text \<open>C4: refinement and bounds: for every non-empty message and every destination of at least
  \<open>COBS_ENCODED_MAX_SIZE\<close> bytes, \<open>cobs_encode\<close> stays inside the destination, never takes its \<open>return
  -1\<close> exit, returns the length of the frame, leaves the frame \<open>cobs_spec src\<close> at the start of the
  buffer and does not touch the bytes behind it.\<close>

theorem cobs_encode_correct:
  assumes "src \<noteq> []" "COBS_ENCODED_MAX_SIZE (length src) \<le> length dst_orig"
  shows "cobs_encode dst_orig src =
    Some (of_nat (length (cobs_spec src)), cobs_spec src @ drop (length (cobs_spec src)) dst_orig)"
  using assms by (rule cobs_encode_refines)

theorem cobs_encode_correct_witness:
  "cobs_encode [7, 7, 7, 7, 7, 7, 7, 7, 7, 7, 7, 7] [0x13, 0x08, 0, 0xF0, 0, 0, 0x34, 0xA4, 0x11] =
     Some (11, [0x03, 0x13, 0x08, 0x02, 0xF0, 0x01, 0x04, 0x34, 0xA4, 0x11, 0, 7])"
  using cobs_encode_correct [of "[0x13, 0x08, 0, 0xF0, 0, 0, 0x34, 0xA4, 0x11]"
      "[7, 7, 7, 7, 7, 7, 7, 7, 7, 7, 7, 7]"]
  by (simp add: COBS_ENCODED_MAX_SIZE_def COBS_MAX_DISTANCE_def cobs_spec_def)

text \<open>C5: round trip: what \<open>cobs_encode\<close> writes for a non-empty message that fits the decoder's
  buffer, fed to a freshly initialised decoder, makes the decoder call its callback exactly once,
  with exactly that message, and leaves it waiting for the next frame.\<close>

theorem cobs_roundtrip:
  assumes "src \<noteq> []" "COBS_ENCODED_MAX_SIZE (length src) \<le> length dst_orig" "length dst_orig < 2 ^ 32"
    and "length src \<le> length b"
    and "cobs_encode dst_orig src = Some (n, out)"
  shows "\<exists>d'. cobs_decoder_put (\<lambda>m ms. Some (ms @ [m])) (take (unat n) out)
      (cobs_decoder_init d b (length b), []) = Some (d', [src]) \<and> state d' = DEC_IDLE"
proof -
  have "length (cobs_spec src) < 2 ^ 32"
    using cobs_spec_length [OF assms(1)] assms(2,3) by linarith
  then have "unat (of_nat (length (cobs_spec src)) :: u32) = length (cobs_spec src)"
    by (simp only: unat_of_nat) (simp add: take_bit_eq_mod)
  then have "take (unat n) out = cobs_spec src"
    using cobs_encode_refines [OF assms(1,2)] assms(5) by auto
  with cobs.collect_frames [of "cobs_decoder_init d b (length b)" "[src]" "\<lambda>m ms. ms @ [m]" "[]"] assms(4)
  show ?thesis by (auto simp: dec_inv_init)
qed

theorem cobs_roundtrip_witness:
  "\<exists>d'. cobs_decoder_put (\<lambda>m ms. Some (ms @ [m])) [2, 9, 2, 8, 0]
      (cobs_decoder_init cobs_decoder_zero [1, 1, 1] 3, []) = Some (d', [[9, 0, 8]]) \<and> state d' = DEC_IDLE"
proof -
  have "cobs_encode [0, 0, 0, 0, 0] [9, 0, 8] = Some (5, [2, 9, 2, 8, 0])"
    by (simp add: cobs_encode_def COBS_ENCODED_MAX_SIZE_def COBS_MAX_DISTANCE_def COBS_BYTE_EOF_def
        poke_def Let_def)
  then show ?thesis
    using cobs_roundtrip [of "[9, 0, 8]" "[0, 0, 0, 0, 0]" "[1, 1, 1]" 5 "[2, 9, 2, 8, 0]" cobs_decoder_zero]
    by (simp add: COBS_ENCODED_MAX_SIZE_def COBS_MAX_DISTANCE_def numeral_3_eq_3)
qed



text \<open>C20: safety: the exact condition under which the decoder stores outside its buffer: the
  only such store is the implicit zero between two blocks, and it happens exactly when the buffer is
  full.  Every other byte, in every state, is handled inside the buffer.\<close>

theorem cobs_decoder_byte_fault_iff:
  assumes "dec_inv d" "\<forall>m e. cb m e \<noteq> None"
  shows "cobs_decoder_byte cb ch (d, e) = None \<longleftrightarrow>
    state d = DEC_BLOCK \<and> ch \<noteq> 0 \<and> block_cnt d = 1 \<and> block_len d < 0xFF \<and> buf_ind d = buf_size d"
proof -
  have "cb = (\<lambda>m e. Some (the (cb m e)))" using assms(2) by (auto simp: fun_eq_iff)
  then obtain f where "cb = (\<lambda>m e. Some (f m e))" by (rule that)
  with assms(1) show ?thesis
    by (auto simp: cobs_decoder_byte_def COBS_BYTE_EOF_def dec_inv_def poke_def Let_def
        split: cobs_decoder_state.splits)
qed

theorem cobs_decoder_byte_fault_iff_witness:
  "cobs_decoder_byte (\<lambda>m e. Some ()) 1
     (\<lparr>buf = [9], buf_size = 1, buf_ind = 1, overflow = False, block_len = 1, block_cnt = 1,
       state = DEC_BLOCK\<rparr>, ()) = None"
  using cobs_decoder_byte_fault_iff
    [of "\<lparr>buf = [9], buf_size = 1, buf_ind = 1, overflow = False, block_len = 1, block_cnt = 1,
          state = DEC_BLOCK\<rparr>" "\<lambda>m e. Some ()" 1 "()"]
  by (simp add: dec_inv_def)

text \<open>C21: safety (a defect of the code): for every buffer size there is a byte stream that drives
  \<open>cobs_decoder_put\<close> outside its buffer: after a code byte 1, each further 1 stores a zero with no
  comparison against \<open>buf_size\<close>.\<close>

theorem cobs_decoder_overrun:
  "cobs_decoder_put cb (replicate (length b + 2) 1) (cobs_decoder_init d b (length b), e) = None"
proof -
  let ?d = "cobs_decoder_init d b (length b)"
  let ?d1 = "?d\<lparr>buf_ind := 0, overflow := False, block_cnt := 1, block_len := 1, state := DEC_BLOCK\<rparr>"
  have "cobs_decoder_byte cb 1 (?d, e) = Some (?d1, e)"
    by (simp add: cobs_decoder_byte_def cobs_decoder_init_def COBS_BYTE_EOF_def)
  moreover have "cobs_decoder_put cb (replicate (length b + 1) 1) (?d1, e) = None"
    by (rule dec_put_ones) (simp_all add: dec_inv_def cobs_decoder_init_def)
  ultimately show ?thesis by (simp add: replicate_add [symmetric])
qed

end
