(* ===== verification/Uart.thy ===== *)
theory Uart
  imports Esp_Prelude
begin

text \<open>
  The UART driver, \<open>src/driver/uart.c\<close>, \<open>src/include/driver/uart.h\<close> and
  \<open>src/include/driver/uart_register.h\<close>.

  The driver talks to the peripheral through \<open>READ_PERI_REG\<close> and \<open>WRITE_PERI_REG\<close> at the addresses of
  \<open>uart_register.h\<close>.  The peripheral is the state \<open>uart\<close>: its storage registers, its receive FIFO, the
  number of bytes in its transmit FIFO, and \<open>tx_line\<close>, every byte written to the transmit FIFO so far.
  Calls of the vendor's SDK that only touch pins or the interrupt controller are recorded in \<open>calls\<close>.
\<close>

section \<open>Register map\<close>

definition BIT_MASK :: "nat \<Rightarrow> u32" where
  "BIT_MASK n = push_bit n 1"

definition REG_UART_BASE :: "u32 \<Rightarrow> u32" where
  "REG_UART_BASE i = 0x60000000 + i * 0xf00"

definition UART_FIFO :: "u32 \<Rightarrow> u32" where "UART_FIFO i = REG_UART_BASE i + 0x0"
definition UART_INT_RAW :: "u32 \<Rightarrow> u32" where "UART_INT_RAW i = REG_UART_BASE i + 0x4"
definition UART_INT_ST :: "u32 \<Rightarrow> u32" where "UART_INT_ST i = REG_UART_BASE i + 0x8"
definition UART_INT_ENA :: "u32 \<Rightarrow> u32" where "UART_INT_ENA i = REG_UART_BASE i + 0xC"
definition UART_INT_CLR :: "u32 \<Rightarrow> u32" where "UART_INT_CLR i = REG_UART_BASE i + 0x10"
definition UART_STATUS :: "u32 \<Rightarrow> u32" where "UART_STATUS i = REG_UART_BASE i + 0x1C"
definition UART_CONF0 :: "u32 \<Rightarrow> u32" where "UART_CONF0 i = REG_UART_BASE i + 0x20"
definition UART_CONF1 :: "u32 \<Rightarrow> u32" where "UART_CONF1 i = REG_UART_BASE i + 0x24"

definition UART_RXFIFO_TOUT_INT :: u32 where "UART_RXFIFO_TOUT_INT = BIT_MASK 8"
definition UART_TXFIFO_EMPTY_INT :: u32 where "UART_TXFIFO_EMPTY_INT = BIT_MASK 1"
definition UART_RXFIFO_FULL_INT :: u32 where "UART_RXFIFO_FULL_INT = BIT_MASK 0"
definition UART_TXFIFO_CNT :: u32 where "UART_TXFIFO_CNT = 0x000000FF"
definition UART_TXFIFO_CNT_S :: nat where "UART_TXFIFO_CNT_S = 16"
definition UART_RXFIFO_CNT :: u32 where "UART_RXFIFO_CNT = 0x000000FF"
definition UART_RXFIFO_CNT_S :: nat where "UART_RXFIFO_CNT_S = 0"
definition UART_TXFIFO_RST :: u32 where "UART_TXFIFO_RST = BIT_MASK 18"
definition UART_RXFIFO_RST :: u32 where "UART_RXFIFO_RST = BIT_MASK 17"
definition UART_STOP_BIT_NUM_S :: nat where "UART_STOP_BIT_NUM_S = 4"
definition UART_BIT_NUM_S :: nat where "UART_BIT_NUM_S = 2"
definition UART_RX_FLOW_EN :: u32 where "UART_RX_FLOW_EN = BIT_MASK 23"
definition UART_RX_FLOW_THRHD :: u32 where "UART_RX_FLOW_THRHD = 0x0000007F"
definition UART_RX_FLOW_THRHD_S :: nat where "UART_RX_FLOW_THRHD_S = 16"
definition UART_RXFIFO_FULL_THRHD :: u32 where "UART_RXFIFO_FULL_THRHD = 0x0000007F"
definition UART_RXFIFO_FULL_THRHD_S :: nat where "UART_RXFIFO_FULL_THRHD_S = 0"

lemmas uart_addr_defs = REG_UART_BASE_def UART_FIFO_def UART_INT_RAW_def UART_INT_ST_def
  UART_INT_ENA_def UART_INT_CLR_def UART_STATUS_def UART_CONF0_def UART_CONF1_def

lemmas uart_bit_defs = BIT_MASK_def UART_RXFIFO_TOUT_INT_def UART_TXFIFO_EMPTY_INT_def
  UART_RXFIFO_FULL_INT_def UART_TXFIFO_RST_def UART_RXFIFO_RST_def

section \<open>The peripheral\<close>

datatype uart_no = UART0 | UART1

definition uart_idx :: "uart_no \<Rightarrow> u32" where
  "uart_idx u = (case u of UART0 \<Rightarrow> 0 | UART1 \<Rightarrow> 1)"

record uart =
  conf0 :: u32
  conf1 :: u32
  int_ena :: u32
  int_raw :: u32
  rx_fifo :: bytes
  tx_cnt :: nat
  tx_line :: bytes

datatype pin = PERIPHS_IO_MUX_GPIO2_U | PERIPHS_IO_MUX_U0TXD_U | PERIPHS_IO_MUX_U0RXD_U
  | PERIPHS_IO_MUX_MTDO_U | PERIPHS_IO_MUX_MTCK_U

datatype pin_func = FUNC_U1TXD_BK | FUNC_U0TXD | FUNC_U0RXD | FUNC_U0RTS | Pin_Func nat

datatype sdk_call =
    Pin_Func_Select pin pin_func
  | Pin_Pullup_Dis pin
  | Pin_Pullup_En pin
  | Ets_Uart_Intr_Attach
  | Ets_Uart_Intr_Enable
  | Ets_Uart_Intr_Disable
  | Uart_Div_Modify uart_no u32
  | Os_Install_Putc1

record hw =
  uart0 :: uart
  uart1 :: uart
  calls :: "sdk_call list"

definition uart_of :: "uart_no \<Rightarrow> hw \<Rightarrow> uart" where
  "uart_of u h = (case u of UART0 \<Rightarrow> uart0 h | UART1 \<Rightarrow> uart1 h)"

definition upd_uart :: "uart_no \<Rightarrow> (uart \<Rightarrow> uart) \<Rightarrow> hw \<Rightarrow> hw" where
  "upd_uart u f h = (case u of UART0 \<Rightarrow> h\<lparr>uart0 := f (uart0 h)\<rparr> | UART1 \<Rightarrow> h\<lparr>uart1 := f (uart1 h)\<rparr>)"

definition call :: "sdk_call \<Rightarrow> hw \<Rightarrow> hw" where
  "call c h = h\<lparr>calls := calls h @ [c]\<rparr>"

text \<open>Which UART and which register offset an address selects.\<close>

definition decode_addr :: "u32 \<Rightarrow> (uart_no \<times> u32) option" where
  "decode_addr a =
     (if REG_UART_BASE 0 \<le> a \<and> a < REG_UART_BASE 1 then Some (UART0, a - REG_UART_BASE 0)
      else if REG_UART_BASE 1 \<le> a \<and> a < REG_UART_BASE 1 + 0xf00 then Some (UART1, a - REG_UART_BASE 1)
      else None)"

text \<open>Reads: the status register shows both FIFO levels, the FIFO register pops the oldest received
  byte, the interrupt status is the raw status masked by the enables.\<close>

definition uart_read :: "u32 \<Rightarrow> uart \<Rightarrow> u32 \<times> uart" where
  "uart_read off u =
     (if off = 0x0 then (case rx_fifo u of [] \<Rightarrow> (0, u) | b # bs \<Rightarrow> (ucast b, u\<lparr>rx_fifo := bs\<rparr>))
      else if off = 0x4 then (int_raw u, u)
      else if off = 0x8 then (int_raw u AND int_ena u, u)
      else if off = 0xC then (int_ena u, u)
      else if off = 0x1C then
        (of_nat (length (rx_fifo u)) OR push_bit UART_TXFIFO_CNT_S (of_nat (tx_cnt u)), u)
      else if off = 0x20 then (conf0 u, u)
      else if off = 0x24 then (conf1 u, u)
      else (0, u))"

text \<open>Writes: the FIFO register queues a byte for the line, a one in the clear register resets the raw
  status bit, the reset bits of \<open>CONF0\<close> empty the FIFOs.\<close>

definition uart_write :: "u32 \<Rightarrow> u32 \<Rightarrow> uart \<Rightarrow> uart" where
  "uart_write off v u =
     (if off = 0x0 then u\<lparr>tx_line := tx_line u @ [ucast v], tx_cnt := tx_cnt u + 1\<rparr>
      else if off = 0xC then u\<lparr>int_ena := v\<rparr>
      else if off = 0x10 then u\<lparr>int_raw := int_raw u AND NOT v\<rparr>
      else if off = 0x20 then
        u\<lparr>conf0 := v, rx_fifo := (if bit v 17 then [] else rx_fifo u),
          tx_cnt := (if bit v 18 then 0 else tx_cnt u)\<rparr>
      else if off = 0x24 then u\<lparr>conf1 := v\<rparr>
      else u)"

definition READ_PERI_REG :: "u32 \<Rightarrow> hw \<Rightarrow> u32 \<times> hw" where
  "READ_PERI_REG a h = (case decode_addr a of
       None \<Rightarrow> (0, h)
     | Some (u, off) \<Rightarrow> (let (v, s) = uart_read off (uart_of u h) in (v, upd_uart u (\<lambda>_. s) h)))"

definition WRITE_PERI_REG :: "u32 \<Rightarrow> u32 \<Rightarrow> hw \<Rightarrow> hw" where
  "WRITE_PERI_REG a v h = (case decode_addr a of
       None \<Rightarrow> h | Some (u, off) \<Rightarrow> upd_uart u (uart_write off v) h)"

definition SET_PERI_REG_MASK :: "u32 \<Rightarrow> u32 \<Rightarrow> hw \<Rightarrow> hw" where
  "SET_PERI_REG_MASK a m h = (let (v, h) = READ_PERI_REG a h in WRITE_PERI_REG a (v OR m) h)"

definition CLEAR_PERI_REG_MASK :: "u32 \<Rightarrow> u32 \<Rightarrow> hw \<Rightarrow> hw" where
  "CLEAR_PERI_REG_MASK a m h = (let (v, h) = READ_PERI_REG a h in WRITE_PERI_REG a (v AND NOT m) h)"

section \<open>Interrupt masks (uart.h)\<close>

definition uart0_rx_intr_enable :: "hw \<Rightarrow> hw" where
  "uart0_rx_intr_enable h =
     SET_PERI_REG_MASK (UART_INT_ENA 0) (UART_RXFIFO_FULL_INT OR UART_RXFIFO_TOUT_INT) h"

definition uart0_rx_intr_disable :: "hw \<Rightarrow> hw" where
  "uart0_rx_intr_disable h =
     CLEAR_PERI_REG_MASK (UART_INT_ENA 0) (UART_RXFIFO_FULL_INT OR UART_RXFIFO_TOUT_INT) h"

definition uart0_tx_intr_enable :: "hw \<Rightarrow> hw" where
  "uart0_tx_intr_enable h = SET_PERI_REG_MASK (UART_INT_ENA 0) UART_TXFIFO_EMPTY_INT h"

definition uart0_tx_intr_disable :: "hw \<Rightarrow> hw" where
  "uart0_tx_intr_disable h = CLEAR_PERI_REG_MASK (UART_INT_ENA 0) UART_TXFIFO_EMPTY_INT h"

section \<open>The driver (uart.c)\<close>

text \<open>The fields of \<open>UartDev\<close> the driver reads; the structure itself lives in the ROM.\<close>

record UartDevice =
  baut_rate :: u32
  data_bits :: u32
  exist_parity :: u32
  parity :: u32
  stop_bits :: u32
  TrigLvl :: u8

text \<open>\<open>clk\<close> is the SDK's \<open>UART_CLK_FREQ\<close>; a zero baud rate is a division by zero.\<close>

definition uart_config :: "u32 \<Rightarrow> UartDevice \<Rightarrow> uart_no \<Rightarrow> hw \<Rightarrow> hw option" where
  "uart_config clk dev u h =
     (let i = uart_idx u;
          h = (if u = UART1 then call (Pin_Func_Select PERIPHS_IO_MUX_GPIO2_U FUNC_U1TXD_BK) h
               else fold call
                 [Ets_Uart_Intr_Attach,
                  Pin_Pullup_Dis PERIPHS_IO_MUX_U0TXD_U,
                  Pin_Func_Select PERIPHS_IO_MUX_U0TXD_U FUNC_U0TXD,
                  Pin_Pullup_En PERIPHS_IO_MUX_U0RXD_U,
                  Pin_Func_Select PERIPHS_IO_MUX_U0RXD_U FUNC_U0RXD,
                  Pin_Func_Select PERIPHS_IO_MUX_MTDO_U FUNC_U0RTS,
                  Pin_Pullup_Dis PERIPHS_IO_MUX_MTCK_U,
                  Pin_Func_Select PERIPHS_IO_MUX_MTCK_U (Pin_Func 4)] h)
      in if baut_rate dev = 0 then None
      else
       (let h = call (Uart_Div_Modify u (clk div baut_rate dev)) h;
            h = WRITE_PERI_REG (UART_CONF0 i)
                  (exist_parity dev OR parity dev
                   OR push_bit UART_STOP_BIT_NUM_S (stop_bits dev)
                   OR push_bit UART_BIT_NUM_S (data_bits dev)) h;
            h = SET_PERI_REG_MASK (UART_CONF0 i) (UART_RXFIFO_RST OR UART_TXFIFO_RST) h;
            h = CLEAR_PERI_REG_MASK (UART_CONF0 i) (UART_RXFIFO_RST OR UART_TXFIFO_RST) h;
            trig = push_bit UART_RXFIFO_FULL_THRHD_S (ucast (TrigLvl dev) AND UART_RXFIFO_FULL_THRHD);
            h = (if u = UART0
                 then WRITE_PERI_REG (UART_CONF1 i)
                   (trig OR UART_RX_FLOW_EN
                    OR push_bit UART_RX_FLOW_THRHD_S (0x10 AND UART_RX_FLOW_THRHD)) h
                 else WRITE_PERI_REG (UART_CONF1 i) trig h);
            h = WRITE_PERI_REG (UART_INT_CLR i) 0xffff h
        in Some (SET_PERI_REG_MASK (UART_INT_ENA i) UART_RXFIFO_FULL_INT h)))"

text \<open>\<open>uart_tx_one_char\<close> spins on the status register; \<open>drained\<close> lists how many bytes the line takes from
  the transmit FIFO before each poll.  \<open>None\<close> is a wait that outlasts the list.\<close>

definition tx_drain :: "uart_no \<Rightarrow> nat \<Rightarrow> hw \<Rightarrow> hw" where
  "tx_drain u n = upd_uart u (\<lambda>s. s\<lparr>tx_cnt := tx_cnt s - n\<rparr>)"

definition tx_fifo_level :: "uart_no \<Rightarrow> hw \<Rightarrow> u32 \<times> hw" where
  "tx_fifo_level u h =
     (let (st, h) = READ_PERI_REG (UART_STATUS (uart_idx u)) h;
          fifo_cnt = st AND push_bit UART_TXFIFO_CNT_S UART_TXFIFO_CNT
      in (drop_bit UART_TXFIFO_CNT_S fifo_cnt AND UART_TXFIFO_CNT, h))"

fun uart_tx_one_char :: "uart_no \<Rightarrow> u8 \<Rightarrow> nat list \<Rightarrow> hw \<Rightarrow> (nat list \<times> hw) option" where
  "uart_tx_one_char u c [] h = None"
| "uart_tx_one_char u c (n # drained) h =
     (let (lvl, h) = tx_fifo_level u (tx_drain u n h)
      in if lvl < 126 then Some (drained, WRITE_PERI_REG (UART_FIFO (uart_idx u)) (ucast c) h)
         else uart_tx_one_char u c drained h)"

text \<open>\<open>uart1_write_char\<close> and \<open>uart0_putc\<close> have the same body on different UARTs.\<close>

definition put_char :: "uart_no \<Rightarrow> u8 \<Rightarrow> nat list \<Rightarrow> hw \<Rightarrow> (nat list \<times> hw) option" where
  "put_char u c ds h =
     (if c = 0x0A then do {
        (ds, h) \<leftarrow> uart_tx_one_char u 0x0D ds h;
        uart_tx_one_char u 0x0A ds h
      }
      else if c = 0x0D then Some (ds, h)
      else uart_tx_one_char u c ds h)"

definition uart1_write_char :: "u8 \<Rightarrow> nat list \<Rightarrow> hw \<Rightarrow> (nat list \<times> hw) option" where
  "uart1_write_char = put_char UART1"

definition uart0_putc :: "u8 \<Rightarrow> nat list \<Rightarrow> hw \<Rightarrow> (nat list \<times> hw) option" where
  "uart0_putc = put_char UART0"

definition uart0_tx_buffer :: "bytes \<Rightarrow> nat list \<times> hw \<Rightarrow> (nat list \<times> hw) option" where
  "uart0_tx_buffer buf = mfold (\<lambda>b (ds, h). uart_tx_one_char UART0 b ds h) buf"

text \<open>The string is the bytes before the terminating zero.\<close>

definition uart0_sendStr :: "bytes \<Rightarrow> nat list \<times> hw \<Rightarrow> (nat list \<times> hw) option" where
  "uart0_sendStr str = mfold (\<lambda>b (ds, h). uart0_putc b ds h) (takeWhile (\<lambda>b. b \<noteq> 0) str)"

definition uart_init :: "u32 \<Rightarrow> u32 \<Rightarrow> u32 \<Rightarrow> UartDevice \<times> hw \<Rightarrow> (UartDevice \<times> hw) option" where
  "uart_init clk uart0_br uart1_br = (\<lambda>(dev, h). do {
     let dev = dev\<lparr>baut_rate := uart0_br\<rparr>;
     h \<leftarrow> uart_config clk dev UART0 h;
     let dev = dev\<lparr>baut_rate := uart1_br\<rparr>;
     h \<leftarrow> uart_config clk dev UART1 h;
     Some (dev, call Os_Install_Putc1 (call Ets_Uart_Intr_Enable h))
   })"

definition uart_setup :: "u32 \<Rightarrow> uart_no \<Rightarrow> UartDevice \<times> hw \<Rightarrow> (UartDevice \<times> hw) option" where
  "uart_setup clk u = (\<lambda>(dev, h). do {
     h \<leftarrow> uart_config clk dev u (call Ets_Uart_Intr_Disable h);
     Some (dev, call Ets_Uart_Intr_Enable h)
   })"

section \<open>Register-level facts\<close>

lemma decode_addr_simps [simp]:
  "decode_addr (UART_FIFO (uart_idx u)) = Some (u, 0x0)"
  "decode_addr (UART_INT_ST (uart_idx u)) = Some (u, 0x8)"
  "decode_addr (UART_INT_ENA (uart_idx u)) = Some (u, 0xC)"
  "decode_addr (UART_INT_CLR (uart_idx u)) = Some (u, 0x10)"
  "decode_addr (UART_STATUS (uart_idx u)) = Some (u, 0x1C)"
  "decode_addr (UART_CONF0 (uart_idx u)) = Some (u, 0x20)"
  "decode_addr (UART_CONF1 (uart_idx u)) = Some (u, 0x24)"
  by (cases u; simp add: decode_addr_def uart_addr_defs uart_idx_def)+

lemma uart_idx_simps [simp]: "uart_idx UART0 = 0" "uart_idx UART1 = 1"
  by (simp_all add: uart_idx_def)

lemmas decode_addr_uart0 [simp] = decode_addr_simps [of UART0, unfolded uart_idx_simps]
lemmas decode_addr_uart1 [simp] = decode_addr_simps [of UART1, unfolded uart_idx_simps]

lemma upd_uart_id [simp]: "upd_uart u (\<lambda>_. uart_of u h) h = h"
  by (simp add: upd_uart_def uart_of_def split: uart_no.split)

lemma uart_of_upd [simp]: "uart_of u (upd_uart v f h) = (if u = v then f (uart_of u h) else uart_of u h)"
  by (cases u; cases v) (simp_all add: uart_of_def upd_uart_def)

lemma upd_uart_upd [simp]: "upd_uart u f (upd_uart u g h) = upd_uart u (\<lambda>s. f (g s)) h"
  by (cases u) (simp_all add: upd_uart_def)

lemma upd_uart0 [simp]: "upd_uart UART0 f h = h\<lparr>uart0 := f (uart0 h)\<rparr>"
  by (simp add: upd_uart_def)

lemma uart_of0 [simp]: "uart_of UART0 h = uart0 h"
  by (simp add: uart_of_def)

lemma uart_of_call [simp]: "uart_of u (call c h) = uart_of u h"
  by (cases u) (simp_all add: call_def uart_of_def)

lemma read_int_st [simp]: "READ_PERI_REG (UART_INT_ST 0) h = (int_raw (uart0 h) AND int_ena (uart0 h), h)"
  by (simp add: READ_PERI_REG_def uart_read_def)

lemma uart_int_masks:
  "uart0_rx_intr_enable h = h\<lparr>uart0 := (uart0 h)\<lparr>int_ena := int_ena (uart0 h) OR 0x101\<rparr>\<rparr>"
  "uart0_rx_intr_disable h = h\<lparr>uart0 := (uart0 h)\<lparr>int_ena := int_ena (uart0 h) AND NOT 0x101\<rparr>\<rparr>"
  "uart0_tx_intr_enable h = h\<lparr>uart0 := (uart0 h)\<lparr>int_ena := int_ena (uart0 h) OR 0x2\<rparr>\<rparr>"
  "uart0_tx_intr_disable h = h\<lparr>uart0 := (uart0 h)\<lparr>int_ena := int_ena (uart0 h) AND NOT 0x2\<rparr>\<rparr>"
  by (simp_all add: uart0_rx_intr_enable_def uart0_rx_intr_disable_def uart0_tx_intr_enable_def
      uart0_tx_intr_disable_def SET_PERI_REG_MASK_def CLEAR_PERI_REG_MASK_def READ_PERI_REG_def
      WRITE_PERI_REG_def uart_read_def uart_write_def Let_def uart_bit_defs)

text \<open>A UART whose FIFO levels fit the hardware: 128 bytes to receive, at most 126 the driver puts in
  the transmit FIFO.\<close>

definition uart_ok :: "uart \<Rightarrow> bool" where
  "uart_ok s \<longleftrightarrow> length (rx_fifo s) \<le> 128 \<and> tx_cnt s \<le> 126"

lemma not_bit_of_nat:
  assumes "m < 2 ^ k" "k \<le> n"
  shows "\<not> bit (of_nat m :: u32) n"
proof -
  have "m < 2 ^ n" using assms power_increasing [of k n "2 :: nat"] by linarith
  then show ?thesis by (simp add: bit_of_nat_iff bit_nat_def)
qed

lemma status_fields:
  assumes "r \<le> 128" "t \<le> 255"
  defines "st \<equiv> (of_nat r OR push_bit 16 (of_nat t)) :: u32"
  shows "st AND 0xFF = of_nat r" "drop_bit 16 st AND 0xFF = of_nat t"
    "drop_bit 16 (st AND push_bit 16 0xFF) AND 0xFF = of_nat t"
proof -
  have r: "\<not> bit (of_nat r :: u32) n" and t: "\<not> bit (of_nat t :: u32) n" if "8 \<le> n" for n
    using not_bit_of_nat [of r 8 n] not_bit_of_nat [of t 8 n] assms(1,2) that by simp_all
  show "st AND 0xFF = of_nat r"
    unfolding st_def and_ff_take_bit
  proof (rule bit_word_eqI)
    fix n
    show "bit (take_bit 8 (of_nat r OR push_bit 16 (of_nat t)) :: u32) n = bit (of_nat r :: u32) n"
      using r [of n] by (cases "n < 8") (auto simp: bit_simps simp del: bit_of_nat_iff)
  qed
  show d: "drop_bit 16 st AND 0xFF = of_nat t"
    unfolding st_def and_ff_take_bit
  proof (rule bit_word_eqI)
    fix n
    show "bit (take_bit 8 (drop_bit 16 (of_nat r OR push_bit 16 (of_nat t))) :: u32) n = bit (of_nat t :: u32) n"
      using t [of n] r [of "16 + n"]
      by (cases "n < 8") (auto simp: bit_simps simp del: bit_of_nat_iff)
  qed
  have "drop_bit 16 (st AND push_bit 16 0xFF) AND 0xFF = drop_bit 16 st AND 0xFF"
    by (simp add: drop_bit_and and.assoc)
  with d show "drop_bit 16 (st AND push_bit 16 0xFF) AND 0xFF = of_nat t" by simp
qed

lemma read_status:
  "READ_PERI_REG (UART_STATUS (uart_idx u)) h =
     (of_nat (length (rx_fifo (uart_of u h))) OR push_bit 16 (of_nat (tx_cnt (uart_of u h))), h)"
  by (simp add: READ_PERI_REG_def uart_read_def UART_TXFIFO_CNT_S_def)

lemma ucast_u8_u32: "ucast (ucast (c :: u8) :: u32) = c"
  by (rule bit_word_eqI) (auto simp: bit_simps dest: bit_u8_iff)

lemma write_fifo:
  "WRITE_PERI_REG (UART_FIFO (uart_idx u)) (ucast c) h =
     upd_uart u (\<lambda>s. s\<lparr>tx_line := tx_line s @ [c], tx_cnt := tx_cnt s + 1\<rparr>) h"
proof -
  have "uart_write 0 (ucast c) = (\<lambda>s. s\<lparr>tx_line := tx_line s @ [c], tx_cnt := tx_cnt s + 1\<rparr>)"
    by (rule ext) (simp add: uart_write_def ucast_u8_u32)
  then show ?thesis by (simp add: WRITE_PERI_REG_def)
qed

lemma tx_fifo_level:
  assumes "uart_ok (uart_of u h)"
  shows "tx_fifo_level u h = (of_nat (tx_cnt (uart_of u h)), h)"
  using assms status_fields(3) [of "length (rx_fifo (uart_of u h))" "tx_cnt (uart_of u h)"]
  by (simp add: tx_fifo_level_def read_status uart_ok_def UART_TXFIFO_CNT_S_def UART_TXFIFO_CNT_def Let_def)

lemma uart_ok_drain: "uart_ok s \<Longrightarrow> uart_ok (s\<lparr>tx_cnt := tx_cnt s - n\<rparr>)"
  by (auto simp: uart_ok_def)

lemma of_nat_less_126: "n \<le> 126 \<Longrightarrow> (of_nat n :: u32) < 126 \<longleftrightarrow> n < 126"
  by (simp add: word_less_nat_alt unat_of_nat take_bit_eq_mod)

text \<open>The character goes out exactly once, after a poll that found room.\<close>

lemma uart_tx_one_char_spec:
  assumes "uart_ok (uart_of u h)" "uart_tx_one_char u c ds h = Some (ds', h')"
  shows "uart_ok (uart_of u h') \<and> tx_line (uart_of u h') = tx_line (uart_of u h) @ [c] \<and>
    rx_fifo (uart_of u h') = rx_fifo (uart_of u h) \<and>
    (\<forall>v. v \<noteq> u \<longrightarrow> uart_of v h' = uart_of v h) \<and> (\<exists>polled. ds = polled @ ds' \<and> polled \<noteq> [])"
  using assms
proof (induction ds arbitrary: h)
  case Nil
  then show ?case by simp
next
  case (Cons n ds)
  let ?h = "tx_drain u n h"
  have ok: "uart_ok (uart_of u ?h)"
    using Cons.prems(1) by (simp add: tx_drain_def uart_ok_drain)
  have step: "uart_tx_one_char u c (n # ds) h =
      (if tx_cnt (uart_of u ?h) < 126 then Some (ds, WRITE_PERI_REG (UART_FIFO (uart_idx u)) (ucast c) ?h)
       else uart_tx_one_char u c ds ?h)"
    using tx_fifo_level [OF ok] ok by (simp add: of_nat_less_126 uart_ok_def)
  show ?case
  proof (cases "tx_cnt (uart_of u ?h) < 126")
    case True
    with step Cons.prems ok show ?thesis
      by (auto simp: write_fifo uart_ok_def tx_drain_def)
  next
    case False
    with step Cons.prems have "uart_tx_one_char u c ds ?h = Some (ds', h')" by simp
    from Cons.IH [OF ok this] show ?thesis by (auto simp: tx_drain_def) 
  qed
qed

lemma uart_tx_one_char_returns:
  assumes "uart_ok (uart_of u h)" "0 < n"
  shows "\<exists>h'. uart_tx_one_char u c (n # ds) h = Some (ds, h')"
proof -
  let ?h = "tx_drain u n h"
  have ok: "uart_ok (uart_of u ?h)"
    using assms(1) by (simp add: tx_drain_def uart_ok_drain)
  have "tx_cnt (uart_of u ?h) < 126" using assms by (auto simp: tx_drain_def uart_ok_def)
  then show ?thesis
    using tx_fifo_level [OF ok] ok by (simp add: of_nat_less_126 uart_ok_def)
qed

text \<open>What a character becomes on the line: a newline gains a carriage return, a carriage return of
  the text is dropped.\<close>

definition crlf :: "u8 \<Rightarrow> bytes" where
  "crlf c = (if c = 0x0A then [0x0D, 0x0A] else if c = 0x0D then [] else [c])"

lemma uart_tx_one_char_live:
  assumes "uart_ok (uart_of u h)" "\<forall>n \<in> set ds. 0 < n" "ds \<noteq> []"
  shows "\<exists>h'. uart_tx_one_char u c ds h = Some (tl ds, h') \<and> uart_ok (uart_of u h') \<and>
    tx_line (uart_of u h') = tx_line (uart_of u h) @ [c]"
proof (cases ds)
  case Nil
  with assms show ?thesis by simp
next
  case (Cons n ds')
  with uart_tx_one_char_returns [OF assms(1), of n c ds'] assms(2) obtain h' where
    "uart_tx_one_char u c ds h = Some (ds', h')" by auto
  with uart_tx_one_char_spec [OF assms(1) this] Cons show ?thesis by simp
qed

lemma put_char_live:
  assumes "uart_ok (uart_of u h)" "\<forall>n \<in> set ds. 0 < n" "length (crlf c) \<le> length ds"
  shows "\<exists>h'. put_char u c ds h = Some (drop (length (crlf c)) ds, h') \<and> uart_ok (uart_of u h') \<and>
    tx_line (uart_of u h') = tx_line (uart_of u h) @ crlf c"
proof (cases "c = 0x0A")
  case True
  with assms(3) have ds: "ds \<noteq> []" "tl ds \<noteq> []" "\<forall>n \<in> set (tl ds). 0 < n"
    using assms(2) by (auto simp: crlf_def Suc_le_length_iff numeral_2_eq_2)
  obtain h1 where "uart_tx_one_char u 0x0D ds h = Some (tl ds, h1)" "uart_ok (uart_of u h1)"
    "tx_line (uart_of u h1) = tx_line (uart_of u h) @ [0x0D]"
    using uart_tx_one_char_live [OF assms(1,2) ds(1), of "0x0D"] by blast
  moreover from uart_tx_one_char_live [OF this(2) ds(3,2), of "0x0A"] obtain h2 where
    "uart_tx_one_char u 0x0A (tl ds) h1 = Some (tl (tl ds), h2)" "uart_ok (uart_of u h2)"
    "tx_line (uart_of u h2) = tx_line (uart_of u h1) @ [0x0A]" by blast
  ultimately show ?thesis using True by (simp add: put_char_def crlf_def drop_Suc)
next
  case False
  show ?thesis
  proof (cases "c = 0x0D")
    case True
    with assms(1) show ?thesis by (simp add: put_char_def crlf_def)
  next
    case ne: False
    with False assms(3) have "ds \<noteq> []" by (auto simp: crlf_def)
    with uart_tx_one_char_live [OF assms(1,2) this, of c] False ne show ?thesis
      by (simp add: put_char_def crlf_def drop_Suc)
  qed
qed

lemma sendStr_loop_live:
  assumes "uart_ok (uart_of UART0 h)" "\<forall>n \<in> set ds. 0 < n" "length (concat (map crlf str)) \<le> length ds"
  shows "\<exists>ds' h'. mfold (\<lambda>b (ds, h). uart0_putc b ds h) str (ds, h) = Some (ds', h') \<and>
    tx_line (uart_of UART0 h') = tx_line (uart_of UART0 h) @ concat (map crlf str) \<and> uart_ok (uart_of UART0 h')"
  using assms
proof (induction str arbitrary: h ds)
  case Nil
  then show ?case by simp
next
  case (Cons c str)
  then obtain h1 where h1: "put_char UART0 c ds h = Some (drop (length (crlf c)) ds, h1)"
    "uart_ok (uart_of UART0 h1)" "tx_line (uart_of UART0 h1) = tx_line (uart_of UART0 h) @ crlf c"
    using put_char_live [of UART0 h ds c] by auto
  have "\<forall>n \<in> set (drop (length (crlf c)) ds). 0 < n"
    using Cons.prems(2) by (auto dest: in_set_dropD)
  with Cons.IH [OF h1(2) this] Cons.prems(3) h1 show ?case
    by (auto simp: uart0_putc_def)
qed
lemma calls_upd [simp]: "calls (upd_uart u f h) = calls h"
  by (cases u) (simp_all add: upd_uart_def)

lemma calls_call [simp]: "calls (call c h) = calls h @ [c]"
  by (simp add: call_def)

lemma uart_reg_ops:
  "WRITE_PERI_REG (UART_CONF0 (uart_idx u)) v h = upd_uart u (uart_write 0x20 v) h"
  "WRITE_PERI_REG (UART_CONF1 (uart_idx u)) v h = upd_uart u (uart_write 0x24 v) h"
  "WRITE_PERI_REG (UART_INT_CLR (uart_idx u)) v h = upd_uart u (uart_write 0x10 v) h"
  "SET_PERI_REG_MASK (UART_CONF0 (uart_idx u)) m h = upd_uart u (\<lambda>s. uart_write 0x20 (conf0 s OR m) s) h"
  "CLEAR_PERI_REG_MASK (UART_CONF0 (uart_idx u)) m h = upd_uart u (\<lambda>s. uart_write 0x20 (conf0 s AND NOT m) s) h"
  "SET_PERI_REG_MASK (UART_INT_ENA (uart_idx u)) m h = upd_uart u (\<lambda>s. uart_write 0xC (int_ena s OR m) s) h"
  by (cases u; simp add: WRITE_PERI_REG_def SET_PERI_REG_MASK_def CLEAR_PERI_REG_MASK_def
      READ_PERI_REG_def uart_read_def upd_uart_def uart_of_def)+

lemmas uart_reg_ops0 = uart_reg_ops [of UART0, unfolded uart_idx_simps]
lemmas uart_reg_ops1 = uart_reg_ops [of UART1, unfolded uart_idx_simps]

section \<open>Properties\<close>


definition hw_reset :: hw where
  "hw_reset =
     (let u = \<lparr>conf0 = 0, conf1 = 0, int_ena = 0, int_raw = 0, rx_fifo = [], tx_cnt = 0, tx_line = []\<rparr>
      in \<lparr>uart0 = u, uart1 = u, calls = []\<rparr>)"


text \<open>Functional: \<open>uart_config\<close> with a non-zero baud rate programs the selected UART and only it:
  the clock divider is the clock over the baud rate, the frame format is in \<open>CONF0\<close> with both FIFO
  reset bits released again, pending interrupts are cleared and the receive-full interrupt is enabled
  on top of those that were enabled.\<close>

theorem uart_config_correct:
  assumes "baut_rate dev \<noteq> 0"
  shows "\<exists>h'. uart_config clk dev u h = Some h' \<and>
    conf0 (uart_of u h') = (exist_parity dev OR parity dev OR push_bit 4 (stop_bits dev)
      OR push_bit 2 (data_bits dev)) AND NOT 0x60000 \<and>
    int_ena (uart_of u h') = int_ena (uart_of u h) OR 1 \<and>
    int_raw (uart_of u h') = int_raw (uart_of u h) AND NOT 0xffff \<and>
    rx_fifo (uart_of u h') = [] \<and> tx_line (uart_of u h') = tx_line (uart_of u h) \<and>
    Uart_Div_Modify u (clk div baut_rate dev) \<in> set (calls h') \<and>
    (\<forall>v. v \<noteq> u \<longrightarrow> uart_of v h' = uart_of v h)"
proof -
  let ?v = "exist_parity dev OR parity dev OR push_bit 4 (stop_bits dev) OR push_bit 2 (data_bits dev)"
  have reset: "(x OR 0x60000) AND NOT 0x60000 = x AND NOT 0x60000" for x :: u32
    by (rule bit_word_eqI) (auto simp: bit_simps)
  have bits: "bit (x OR 0x60000) 17" "bit (x OR 0x60000) 18" for x :: u32
    by (simp_all add: bit_or_iff)
  show ?thesis
    using assms
    by (cases u)
      (simp_all add: uart_config_def Let_def uart_reg_ops0 uart_reg_ops1 uart_write_def uart_bit_defs
        UART_STOP_BIT_NUM_S_def UART_BIT_NUM_S_def reset [simplified] bits del: upd_uart0 uart_of0)
qed

theorem uart_config_correct_witness:
  "\<exists>h'. uart_config 80000000 \<lparr>baut_rate = 115200, data_bits = 3, exist_parity = 0, parity = 0,
      stop_bits = 0, TrigLvl = 1\<rparr> UART0 hw_reset = Some h' \<and>
    conf0 (uart0 h') = 0xC \<and> int_ena (uart0 h') = 1 \<and> Uart_Div_Modify UART0 694 \<in> set (calls h')"
  using uart_config_correct [of "\<lparr>baut_rate = 115200, data_bits = 3, exist_parity = 0, parity = 0,
      stop_bits = 0, TrigLvl = 1\<rparr>" 80000000 UART0 hw_reset]
  by (auto simp: hw_reset_def Let_def)

end
