(* ===== verification/Pbuf.thy ===== *)
theory Pbuf
  imports Esp_Prelude
begin

text \<open>
  Packet buffers, \<open>src/lwip/core/pbuf.c\<close>: reference-counted buffers in chains, in the configuration of
  \<open>lwipopts.h\<close> (no custom pbufs, no checksum on copy, assertions compiled out, memory from the C heap).

  The heap maps the address of a \<open>struct pbuf\<close> to its fields; an address that was freed or never
  allocated is not in its domain, and reading or writing there is a fault (\<open>None\<close>).  \<open>pb_mem\<close> is the
  memory the payload pointer points into: the rest of the block behind the structure for \<open>PBUF_RAM\<close> and
  \<open>PBUF_POOL\<close>, the referenced object for \<open>PBUF_ROM\<close> and \<open>PBUF_REF\<close>; \<open>pb_payload\<close> is the offset of the payload
  in it, or \<open>None\<close> for a null pointer.  Loops over chains are partial functions, so that they end on a
  proper chain is proved.
\<close>

section \<open>Data\<close>

datatype pbuf_layer = PBUF_TRANSPORT | PBUF_IP | PBUF_LINK | PBUF_RAW
datatype pbuf_type = PBUF_RAM | PBUF_ROM | PBUF_REF | PBUF_POOL

record pbuf =
  pb_next :: "nat option"
  pb_payload :: "int option"
  tot_len :: u16
  pb_len :: u16
  pb_type :: pbuf_type
  pb_flags :: u8
  pb_ref :: u16
  pb_mem :: bytes

type_synonym pheap = "nat \<Rightarrow> pbuf option"

datatype err = ERR_OK | ERR_MEM | ERR_BUF | ERR_TIMEOUT | ERR_RTE | ERR_INPROGRESS | ERR_VAL | ERR_WOULDBLOCK
  | ERR_ABRT | ERR_RST | ERR_CLSD | ERR_CONN | ERR_ARG | ERR_USE | ERR_IF | ERR_ISCONN

definition PBUF_TRANSPORT_HLEN :: nat where "PBUF_TRANSPORT_HLEN = 20"
definition PBUF_IP_HLEN :: nat where "PBUF_IP_HLEN = 20"
definition PBUF_LINK_HLEN :: nat where "PBUF_LINK_HLEN = 14"
definition MEM_ALIGNMENT :: nat where "MEM_ALIGNMENT = 4"
definition LWIP_MEM_ALIGN_SIZE :: "nat \<Rightarrow> nat" where
  "LWIP_MEM_ALIGN_SIZE n = (n + MEM_ALIGNMENT - 1) div MEM_ALIGNMENT * MEM_ALIGNMENT"
definition SIZEOF_STRUCT_PBUF :: nat where "SIZEOF_STRUCT_PBUF = LWIP_MEM_ALIGN_SIZE 20"
definition PBUF_POOL_BUFSIZE :: nat where
  "PBUF_POOL_BUFSIZE = LWIP_MEM_ALIGN_SIZE (1460 + 40 + PBUF_LINK_HLEN)"

text \<open>Access to the payload of one pbuf.\<close>

definition pb_read :: "pbuf \<Rightarrow> nat \<Rightarrow> nat \<Rightarrow> bytes option" where
  "pb_read b off n = (case pb_payload b of
       None \<Rightarrow> if n = 0 then Some [] else None
     | Some pos \<Rightarrow>
         if 0 \<le> pos + int off \<and> nat (pos + int off) + n \<le> length (pb_mem b)
         then Some (take n (drop (nat (pos + int off)) (pb_mem b))) else None)"

definition pb_write :: "pbuf \<Rightarrow> nat \<Rightarrow> bytes \<Rightarrow> pbuf option" where
  "pb_write b off bs = (case pb_payload b of
       None \<Rightarrow> if bs = [] then Some b else None
     | Some pos \<Rightarrow>
         if 0 \<le> pos + int off \<and> nat (pos + int off) + length bs \<le> length (pb_mem b)
         then (let i = nat (pos + int off) in
               Some (b\<lparr>pb_mem := take i (pb_mem b) @ bs @ drop (i + length bs) (pb_mem b)\<rparr>))
         else None)"

section \<open>Reference counts\<close>

text \<open>\<open>pbuf_free\<close>: the number of pbufs released and the heap without them.\<close>

partial_function (option) pbuf_free_loop :: "u8 \<Rightarrow> nat option \<Rightarrow> pheap \<Rightarrow> (u8 \<times> pheap) option" where
  "pbuf_free_loop count p h = (case p of
       None \<Rightarrow> Some (count, h)
     | Some a \<Rightarrow> do {
         b \<leftarrow> h a;
         let ref = pb_ref b - 1;
         if ref = 0 then pbuf_free_loop (count + 1) (pb_next b) (h(a := None))
         else Some (count, h(a \<mapsto> b\<lparr>pb_ref := ref\<rparr>))
       })"

definition pbuf_free :: "nat option \<Rightarrow> pheap \<Rightarrow> (u8 \<times> pheap) option" where
  "pbuf_free p h = (if p = None then Some (0, h) else pbuf_free_loop 0 p h)"

definition pbuf_ref :: "nat option \<Rightarrow> pheap \<Rightarrow> pheap option" where
  "pbuf_ref p h = (case p of
       None \<Rightarrow> Some h
     | Some a \<Rightarrow> do { b \<leftarrow> h a; Some (h(a \<mapsto> b\<lparr>pb_ref := pb_ref b + 1\<rparr>)) })"

partial_function (option) pbuf_clen_loop :: "u8 \<Rightarrow> nat option \<Rightarrow> pheap \<Rightarrow> u8 option" where
  "pbuf_clen_loop len p h = (case p of
       None \<Rightarrow> Some len
     | Some a \<Rightarrow> do { b \<leftarrow> h a; pbuf_clen_loop (len + 1) (pb_next b) h })"

definition pbuf_clen :: "nat option \<Rightarrow> pheap \<Rightarrow> u8 option" where
  "pbuf_clen p h = pbuf_clen_loop 0 p h"

section \<open>Allocation\<close>

text \<open>The header room a layer asks for (the switch falls through).\<close>

definition layer_offset :: "pbuf_layer \<Rightarrow> nat" where
  "layer_offset layer = (case layer of
       PBUF_TRANSPORT \<Rightarrow> PBUF_TRANSPORT_HLEN + PBUF_IP_HLEN + PBUF_LINK_HLEN
     | PBUF_IP \<Rightarrow> PBUF_IP_HLEN + PBUF_LINK_HLEN
     | PBUF_LINK \<Rightarrow> PBUF_LINK_HLEN
     | PBUF_RAW \<Rightarrow> 0)"

text \<open>\<open>mal\<close> is \<open>mem_malloc\<close>, which \<open>memp_malloc\<close> calls as well: for a size and the heap, null or a fresh block,
  given by its address and whatever its bytes are.\<close>

type_synonym malloc = "nat \<Rightarrow> pheap \<Rightarrow> (nat \<times> bytes) option"

function pool_tail :: "malloc \<Rightarrow> nat \<Rightarrow> nat \<Rightarrow> nat \<Rightarrow> pheap \<Rightarrow> (bool \<times> pheap) option" where
  "pool_tail mal p r rem_len h =
     (if 0 < rem_len then
        (case mal (SIZEOF_STRUCT_PBUF + PBUF_POOL_BUFSIZE) h of
           None \<Rightarrow> do { (_, h) \<leftarrow> pbuf_free (Some p) h; Some (False, h) }
         | Some (q, blk) \<Rightarrow>
             (let n = min rem_len PBUF_POOL_BUFSIZE in do {
               b \<leftarrow> h r;
               pool_tail mal p q (rem_len - n)
                 (h(r \<mapsto> b\<lparr>pb_next := Some q\<rparr>,
                    q \<mapsto> \<lparr>pb_next = None, pb_payload = Some 0, tot_len = of_nat rem_len, pb_len = of_nat n,
                         pb_type = PBUF_POOL, pb_flags = 0, pb_ref = 1, pb_mem = drop SIZEOF_STRUCT_PBUF blk\<rparr>))
             }))
      else Some (True, h))"
  by pat_completeness auto
termination
  by (relation "measure (\<lambda>(mal, p, r, n, h). n)")
    (auto simp: PBUF_POOL_BUFSIZE_def LWIP_MEM_ALIGN_SIZE_def MEM_ALIGNMENT_def PBUF_LINK_HLEN_def min_def)

declare pool_tail.simps [simp del]

definition pbuf_alloc :: "malloc \<Rightarrow> pbuf_layer \<Rightarrow> u16 \<Rightarrow> pbuf_type \<Rightarrow> pheap \<Rightarrow> (nat option \<times> pheap) option" where
  "pbuf_alloc mal layer n type h =
     (let offset = layer_offset layer in
      case type of
        PBUF_POOL \<Rightarrow>
          (case mal (SIZEOF_STRUCT_PBUF + PBUF_POOL_BUFSIZE) h of
             None \<Rightarrow> Some (None, h)
           | Some (p, blk) \<Rightarrow>
               (let m = min (unat n) (PBUF_POOL_BUFSIZE - LWIP_MEM_ALIGN_SIZE offset);
                    h = h(p \<mapsto> \<lparr>pb_next = None, pb_payload = Some (int (LWIP_MEM_ALIGN_SIZE offset)), tot_len = n,
                        pb_len = of_nat m, pb_type = type, pb_flags = 0, pb_ref = 1,
                        pb_mem = drop SIZEOF_STRUCT_PBUF blk\<rparr>)
                in do {
                  (ok, h) \<leftarrow> pool_tail mal p p (unat n - m) h;
                  Some (if ok then Some p else None, h)
                }))
      | PBUF_RAM \<Rightarrow>
          (case mal (LWIP_MEM_ALIGN_SIZE (SIZEOF_STRUCT_PBUF + offset) + LWIP_MEM_ALIGN_SIZE (unat n)) h of
             None \<Rightarrow> Some (None, h)
           | Some (p, blk) \<Rightarrow>
               Some (Some p, h(p \<mapsto> \<lparr>pb_next = None,
                   pb_payload = Some (int (LWIP_MEM_ALIGN_SIZE (SIZEOF_STRUCT_PBUF + offset)) - int SIZEOF_STRUCT_PBUF),
                   tot_len = n, pb_len = n, pb_type = type, pb_flags = 0, pb_ref = 1,
                   pb_mem = drop SIZEOF_STRUCT_PBUF blk\<rparr>)))
      | _ \<Rightarrow>
          (case mal SIZEOF_STRUCT_PBUF h of
             None \<Rightarrow> Some (None, h)
           | Some (p, blk) \<Rightarrow>
               Some (Some p, h(p \<mapsto> \<lparr>pb_next = None, pb_payload = None, tot_len = n, pb_len = n,
                   pb_type = type, pb_flags = 0, pb_ref = 1, pb_mem = []\<rparr>))))"

section \<open>Header and length\<close>

text \<open>The result is the status byte: 1 on failure.\<close>

definition pbuf_header :: "nat option \<Rightarrow> int \<Rightarrow> pheap \<Rightarrow> (u8 \<times> pheap) option" where
  "pbuf_header p inc h = (case p of
       None \<Rightarrow> Some (0, h)
     | Some a \<Rightarrow>
         if inc = 0 then Some (0, h)
         else do {
           b \<leftarrow> h a;
           if inc < 0 \<and> nat (- inc) > unat (pb_len b) then Some (1, h)
           else
             (let adjust = (\<lambda>pos. Some (0, h(a \<mapsto> b\<lparr>pb_payload := Some (pos - inc),
                                pb_len := pb_len b + of_int inc, tot_len := tot_len b + of_int inc\<rparr>)))
              in case pb_type b of
                   PBUF_ROM \<Rightarrow> if inc < 0 then do { pos \<leftarrow> pb_payload b; adjust pos } else Some (1, h)
                 | PBUF_REF \<Rightarrow> do { pos \<leftarrow> pb_payload b; adjust pos }
                 | _ \<Rightarrow> do { pos \<leftarrow> pb_payload b; if pos - inc < 0 then Some (1, h) else adjust pos })
         })"

text \<open>\<open>mem_trim\<close> does nothing with memory from the C heap.\<close>

partial_function (option) realloc_loop ::
  "u16 \<Rightarrow> u16 \<Rightarrow> nat \<Rightarrow> pheap \<Rightarrow> (u16 \<times> nat \<times> pheap) option" where
  "realloc_loop grow rem_len q h = do {
     b \<leftarrow> h q;
     if rem_len > pb_len b then
       (case pb_next b of
          None \<Rightarrow> None
        | Some q' \<Rightarrow> realloc_loop grow (rem_len - pb_len b) q' (h(q \<mapsto> b\<lparr>tot_len := tot_len b + grow\<rparr>)))
     else Some (rem_len, q, h)
   }"

definition pbuf_realloc :: "nat \<Rightarrow> u16 \<Rightarrow> pheap \<Rightarrow> pheap option" where
  "pbuf_realloc p new_len h = do {
     b \<leftarrow> h p;
     if new_len \<ge> tot_len b then Some h
     else do {
       (rem_len, q, h) \<leftarrow> realloc_loop (new_len - tot_len b) new_len p h;
       b \<leftarrow> h q;
       let h = h(q \<mapsto> b\<lparr>pb_len := rem_len, tot_len := rem_len\<rparr>);
       h \<leftarrow> (if pb_next b \<noteq> None then do { (_, h) \<leftarrow> pbuf_free (pb_next b) h; Some h } else Some h);
       b \<leftarrow> h q;
       Some (h(q \<mapsto> b\<lparr>pb_next := None\<rparr>))
     }
   }"

section \<open>Chains\<close>

partial_function (option) cat_loop :: "u16 \<Rightarrow> nat \<Rightarrow> pheap \<Rightarrow> (nat \<times> pheap) option" where
  "cat_loop t_tot p h = do {
     b \<leftarrow> h p;
     case pb_next b of
       None \<Rightarrow> Some (p, h)
     | Some q \<Rightarrow> cat_loop t_tot q (h(p \<mapsto> b\<lparr>tot_len := tot_len b + t_tot\<rparr>))
   }"

definition pbuf_cat :: "nat option \<Rightarrow> nat option \<Rightarrow> pheap \<Rightarrow> pheap option" where
  "pbuf_cat hp t h = (case (hp, t) of
       (Some x, Some y) \<Rightarrow> do {
         tb \<leftarrow> h y;
         (p, h) \<leftarrow> cat_loop (tot_len tb) x h;
         b \<leftarrow> h p;
         Some (h(p \<mapsto> b\<lparr>tot_len := tot_len b + tot_len tb, pb_next := Some y\<rparr>))
       }
     | _ \<Rightarrow> Some h)"

definition pbuf_chain :: "nat option \<Rightarrow> nat option \<Rightarrow> pheap \<Rightarrow> pheap option" where
  "pbuf_chain hp t h = do { h \<leftarrow> pbuf_cat hp t h; pbuf_ref t h }"

definition pbuf_dechain :: "nat \<Rightarrow> pheap \<Rightarrow> (nat option \<times> pheap) option" where
  "pbuf_dechain p h = do {
     b \<leftarrow> h p;
     case pb_next b of
       None \<Rightarrow> Some (None, h)
     | Some q \<Rightarrow> do {
         c \<leftarrow> h q;
         let h = h(q \<mapsto> c\<lparr>tot_len := tot_len b - pb_len b\<rparr>);
         b \<leftarrow> h p;
         let h = h(p \<mapsto> b\<lparr>pb_next := None, tot_len := pb_len b\<rparr>);
         (tail_gone, h) \<leftarrow> pbuf_free (Some q) h;
         Some (if tail_gone > 0 then None else Some q, h)
       }
   }"


section \<open>Data\<close>

text \<open>\<open>pbuf_copy_partial\<close> gives the number of bytes copied and the buffer they were copied to.\<close>

partial_function (option) copy_partial_loop ::
  "bytes \<Rightarrow> u16 \<Rightarrow> u16 \<Rightarrow> u16 \<Rightarrow> nat option \<Rightarrow> pheap \<Rightarrow> (u16 \<times> bytes) option" where
  "copy_partial_loop dataptr left len offset p h =
     (case p of
        None \<Rightarrow> Some (left, dataptr)
      | Some a \<Rightarrow>
          if len = 0 then Some (left, dataptr)
          else do {
            b \<leftarrow> h a;
            if offset \<noteq> 0 \<and> offset \<ge> pb_len b
            then copy_partial_loop dataptr left len (offset - pb_len b) (pb_next b) h
            else
              (let n = pb_len b - offset;
                   n = (if n > len then len else n)
               in do {
                 bs \<leftarrow> pb_read b (unat offset) (unat n);
                 dataptr \<leftarrow> (if unat left + unat n \<le> length dataptr
                   then Some (take (unat left) dataptr @ bs @ drop (unat left + unat n) dataptr) else None);
                 copy_partial_loop dataptr (left + n) (len - n) 0 (pb_next b) h
               })
          })"

definition pbuf_copy_partial :: "nat option \<Rightarrow> bytes \<Rightarrow> u16 \<Rightarrow> u16 \<Rightarrow> pheap \<Rightarrow> (u16 \<times> bytes) option" where
  "pbuf_copy_partial p dataptr len offset h =
     (if p = None then Some (0, dataptr) else copy_partial_loop dataptr 0 len offset p h)"

partial_function (option) take_loop :: "bytes \<Rightarrow> u16 \<Rightarrow> u16 \<Rightarrow> nat option \<Rightarrow> pheap \<Rightarrow> pheap option" where
  "take_loop dataptr copied_total total_copy_len p h =
     (if total_copy_len = 0 then Some h
      else do {
        a \<leftarrow> p;
        b \<leftarrow> h a;
        let n = (if total_copy_len > pb_len b then pb_len b else total_copy_len);
        b \<leftarrow> pb_write b 0 (take (unat n) (drop (unat copied_total) dataptr));
        take_loop dataptr (copied_total + n) (total_copy_len - n) (pb_next b) (h(a \<mapsto> b))
      })"

text \<open>The length argument is the length of the data.\<close>

definition pbuf_take :: "nat option \<Rightarrow> bytes \<Rightarrow> pheap \<Rightarrow> (err \<times> pheap) option" where
  "pbuf_take p dataptr h = (case p of
       None \<Rightarrow> Some (ERR_OK, h)
     | Some a \<Rightarrow> do {
         b \<leftarrow> h a;
         if tot_len b < of_nat (length dataptr) then Some (ERR_ARG, h)
         else do { h \<leftarrow> take_loop dataptr 0 (of_nat (length dataptr)) p h; Some (ERR_OK, h) }
       })"

partial_function (option) find_at :: "u16 \<Rightarrow> nat option \<Rightarrow> pheap \<Rightarrow> (nat option \<times> u16) option" where
  "find_at copy_from q h = (case q of
       None \<Rightarrow> Some (None, copy_from)
     | Some a \<Rightarrow> do {
         b \<leftarrow> h a;
         if pb_len b \<le> copy_from then find_at (copy_from - pb_len b) (pb_next b) h
         else Some (Some a, copy_from)
       })"

definition pbuf_get_at :: "nat option \<Rightarrow> u16 \<Rightarrow> pheap \<Rightarrow> u8 option" where
  "pbuf_get_at p offset h = do {
     (q, copy_from) \<leftarrow> find_at offset p h;
     case q of
       None \<Rightarrow> Some 0
     | Some a \<Rightarrow> do {
         b \<leftarrow> h a;
         bs \<leftarrow> pb_read b (unat copy_from) 1;
         Some (bs ! 0)
       }
   }"

fun memcmp_loop :: "nat \<Rightarrow> u16 \<Rightarrow> bytes \<Rightarrow> u16 \<Rightarrow> pheap \<Rightarrow> u16 option" where
  "memcmp_loop q start [] i h = Some 0"
| "memcmp_loop q start (y # ys) i h = do {
     x \<leftarrow> pbuf_get_at (Some q) (start + i) h;
     if x \<noteq> y then Some (i + 1) else memcmp_loop q start ys (i + 1) h
   }"

definition pbuf_memcmp :: "nat option \<Rightarrow> u16 \<Rightarrow> bytes \<Rightarrow> pheap \<Rightarrow> u16 option" where
  "pbuf_memcmp p offset s2 h = do {
     (q, start) \<leftarrow> find_at offset p h;
     case q of None \<Rightarrow> Some 0xffff | Some a \<Rightarrow> memcmp_loop a start s2 0 h
   }"

partial_function (option) memfind_loop :: "nat \<Rightarrow> bytes \<Rightarrow> u16 \<Rightarrow> u16 \<Rightarrow> pheap \<Rightarrow> u16 option" where
  "memfind_loop p mem lst i h =
     (if i \<le> lst then do {
        plus \<leftarrow> pbuf_memcmp (Some p) i mem h;
        if plus = 0 then Some i else memfind_loop p mem lst (i + plus) h
      }
      else Some 0xFFFF)"

definition pbuf_memfind :: "nat \<Rightarrow> bytes \<Rightarrow> u16 \<Rightarrow> pheap \<Rightarrow> u16 option" where
  "pbuf_memfind p mem start_offset h = do {
     b \<leftarrow> h p;
     if unat (tot_len b) \<ge> length mem + unat start_offset
     then memfind_loop p mem (tot_len b - of_nat (length mem)) start_offset h
     else Some 0xFFFF
   }"

text \<open>\<open>substr\<close> is the string without its terminator.\<close>

definition pbuf_strstr :: "nat \<Rightarrow> bytes \<Rightarrow> pheap \<Rightarrow> u16 option" where
  "pbuf_strstr p substr h = do {
     b \<leftarrow> h p;
     if substr = [] \<or> tot_len b = 0xFFFF then Some 0xFFFF
     else if length substr \<ge> 0xFFFF then Some 0xFFFF
     else pbuf_memfind p substr 0 h
   }"

text \<open>\<open>pbuf_copy\<close>: one turn copies the largest piece that lies in one pbuf on both sides.\<close>

definition queue_follows :: "nat option \<Rightarrow> pheap \<Rightarrow> bool option" where
  "queue_follows p h = (case p of
       None \<Rightarrow> Some False
     | Some a \<Rightarrow> do { b \<leftarrow> h a; Some (pb_len b = tot_len b \<and> pb_next b \<noteq> None) })"

partial_function (option) copy_loop ::
  "nat option \<Rightarrow> u16 \<Rightarrow> nat option \<Rightarrow> u16 \<Rightarrow> pheap \<Rightarrow> (err \<times> pheap) option" where
  "copy_loop p_to offset_to p_from offset_from h = do {
     t \<leftarrow> p_to; tb \<leftarrow> h t;
     f \<leftarrow> p_from; fb \<leftarrow> h f;
     let n = (if int (unat (pb_len tb)) - int (unat offset_to) \<ge> int (unat (pb_len fb)) - int (unat offset_from)
              then pb_len fb - offset_from else pb_len tb - offset_to);
     bs \<leftarrow> pb_read fb (unat offset_from) (unat n);
     tb \<leftarrow> pb_write tb (unat offset_to) bs;
     let h = h(t \<mapsto> tb);
     let offset_to = offset_to + n;
     let offset_from = offset_from + n;
     let (p_to, offset_to) = (if offset_to = pb_len tb then (pb_next tb, 0) else (p_to, offset_to));
     let (p_from, offset_from) = (if offset_from \<ge> pb_len fb then (pb_next fb, 0) else (p_from, offset_from));
     qf \<leftarrow> queue_follows p_from h;
     if qf then Some (ERR_VAL, h)
     else do {
       qt \<leftarrow> queue_follows p_to h;
       if qt then Some (ERR_VAL, h)
       else if p_from = None then Some (ERR_OK, h)
       else copy_loop p_to offset_to p_from offset_from h
     }
   }"

definition pbuf_copy :: "nat option \<Rightarrow> nat option \<Rightarrow> pheap \<Rightarrow> (err \<times> pheap) option" where
  "pbuf_copy p_to p_from h = (case (p_to, p_from) of
       (Some t, Some f) \<Rightarrow> do {
         tb \<leftarrow> h t; fb \<leftarrow> h f;
         if tot_len tb \<ge> tot_len fb then copy_loop p_to 0 p_from 0 h else Some (ERR_ARG, h)
       }
     | _ \<Rightarrow> Some (ERR_ARG, h))"

definition pbuf_coalesce :: "malloc \<Rightarrow> nat \<Rightarrow> pbuf_layer \<Rightarrow> pheap \<Rightarrow> (nat \<times> pheap) option" where
  "pbuf_coalesce mal p layer h = do {
     b \<leftarrow> h p;
     if pb_next b = None then Some (p, h)
     else do {
       (q, h) \<leftarrow> pbuf_alloc mal layer (tot_len b) PBUF_RAM h;
       case q of
         None \<Rightarrow> Some (p, h)
       | Some q' \<Rightarrow> do {
           (_, h) \<leftarrow> pbuf_copy q (Some p) h;
           (_, h) \<leftarrow> pbuf_free (Some p) h;
           Some (q', h)
         }
     }
   }"

end
