(* ===== verification/Net.thy ===== *)
theory Net
  imports Pbuf
begin

text \<open>
  The global state of the network stack: \<open>struct netif\<close> (\<open>src/include/lwip/netif.h\<close>), \<open>struct raw_pcb\<close>
  (\<open>src/include/lwip/raw.h\<close>) and the variables of \<open>netif.c\<close>, \<open>etharp.c\<close>, \<open>ip.c\<close>,
  \<open>raw.c\<close> and \<open>dns.c\<close>.

  The globals of the whole firmware are one record that is built up theory by theory: \<open>net\<close> here, \<open>comm\<close> for the
  serial link above it, the main program's on top.  An operation of a lower layer works on any extension, so
  that it can be run on the state of the whole firmware.  A function pointer is an address, 0 the null
  pointer; what is called through it is a parameter of the operation that calls.
\<close>

definition NETIF_FLAG_UP :: u8 where "NETIF_FLAG_UP = 0x01"
definition NETIF_FLAG_BROADCAST :: u8 where "NETIF_FLAG_BROADCAST = 0x02"
definition NETIF_FLAG_LINK_UP :: u8 where "NETIF_FLAG_LINK_UP = 0x10"
definition NETIF_FLAG_ETHARP :: u8 where "NETIF_FLAG_ETHARP = 0x20"
definition NETIF_FLAG_IGMP :: u8 where "NETIF_FLAG_IGMP = 0x80"

text \<open>The members the modelled code reads or writes; \<open>next\<close> is the order of \<open>netif_list\<close>.\<close>

record netif =
  ni_ip_addr :: u32
  ni_netmask :: u32
  ni_gw :: u32
  ni_input :: nat
  ni_output :: nat
  ni_linkoutput :: nat
  ni_mtu :: u16
  ni_hwaddr :: bytes
  ni_flags :: u8
  ni_name :: "u8 \<times> u8"
  ni_num :: u8
  ni_state :: nat
  ni_dhcp :: "nat option"
  ni_igmp_mac_filter :: nat

record raw_pcb =
  local_ip :: u32
  remote_ip :: u32
  so_options :: u8
  pcb_tos :: u8
  pcb_ttl :: u8
  protocol :: u8
  recv :: nat
  recv_arg :: nat

text \<open>The ARP cache of \<open>etharp.c\<close>.  The queue of an entry is the list of the packets its nodes hold, \<open>[]\<close> the null
  pointer.\<close>

datatype etharp_state = ETHARP_STATE_EMPTY | ETHARP_STATE_PENDING | ETHARP_STATE_STABLE

record etharp_entry =
  arp_q :: "nat list"
  arp_ipaddr :: u32
  arp_ethaddr :: bytes
  arp_netif :: "nat option"
  arp_state :: etharp_state
  arp_ctime :: u8

definition ARP_TABLE_SIZE :: nat where "ARP_TABLE_SIZE = 10"

definition arp_empty :: etharp_entry where
  "arp_empty = \<lparr>arp_q = [], arp_ipaddr = 0, arp_ethaddr = replicate 6 0, arp_netif = None, arp_state = ETHARP_STATE_EMPTY,
     arp_ctime = 0\<rparr>"

text \<open>The multicast groups of \<open>igmp.c\<close>; the names of the three states stand for the numbers 0, 1 and 2.\<close>

datatype igmp_state = IGMP_GROUP_NON_MEMBER | IGMP_GROUP_DELAYING_MEMBER | IGMP_GROUP_IDLE_MEMBER

record igmp_group =
  grp_netif :: nat
  group_address :: u32
  last_reporter_flag :: u8
  group_state :: igmp_state
  grp_timer :: u16
  grp_use :: u8

text \<open>The control blocks of \<open>udp.c\<close>.\<close>

record udp_pcb =
  upcb_local_ip :: u32
  upcb_remote_ip :: u32
  upcb_so_options :: u8
  upcb_tos :: u8
  upcb_ttl :: u8
  upcb_flags :: u8
  upcb_local_port :: u16
  upcb_remote_port :: u16
  upcb_multicast_ip :: u32
  upcb_recv :: nat
  upcb_recv_arg :: nat

text \<open>The lists that C links through \<open>next\<close> members are lists of addresses; the structures are in the memory
  maps.  \<open>current_header\<close> points into the payload of a pbuf, which is named here.
  \<open>dhcp_pcb\<close> is the member \<open>pcb\<close> of the structures \<open>dhcp\<close> that the interfaces point to.\<close>

record net =
  pbufs :: pheap
  netif_mem :: "nat \<Rightarrow> netif option"
  netif_list :: "nat list"
  netif_default :: "nat option"
  netifnum :: u8
  raw_mem :: "nat \<Rightarrow> raw_pcb option"
  raw_pcbs :: "nat list"
  ip_id :: u16
  current_iphdr_src :: u32
  current_iphdr_dest :: u32
  current_netif :: "nat option"
  current_header :: "nat option"
  dns_servers :: "u32 list"
  arp_table :: "etharp_entry list"
  etharp_cached_entry :: u8
  igmp_mem :: "nat \<Rightarrow> igmp_group option"
  igmp_group_list :: "nat list"
  udp_mem :: "nat \<Rightarrow> udp_pcb option"
  udp_pcbs :: "nat list"
  dhcp_pcb :: "nat \<Rightarrow> nat option option"

definition netif_is_up :: "netif \<Rightarrow> bool" where
  "netif_is_up ni \<longleftrightarrow> ni_flags ni AND NETIF_FLAG_UP \<noteq> 0"

definition net_zero :: net where
  "net_zero = \<lparr>pbufs = Map.empty, netif_mem = Map.empty, netif_list = [], netif_default = None, netifnum = 0, raw_mem = Map.empty,
     raw_pcbs = [], ip_id = 0, current_iphdr_src = 0, current_iphdr_dest = 0,
     current_netif = None, current_header = None, dns_servers = [0, 0],
     arp_table = replicate ARP_TABLE_SIZE arp_empty, etharp_cached_entry = 0, igmp_mem = Map.empty,
     igmp_group_list = [], udp_mem = Map.empty, udp_pcbs = [], dhcp_pcb = Map.empty\<rparr>"

end
