(* ===== verification/Comm.thy ===== *)
theory Comm
  imports Crc16 Cobs Uart Net
begin

text \<open>
  The serial link to the host, \<open>src/user_main/comm.c\<close> and \<open>comm.h\<close>: message framing, the transmit ring
  with its task and interrupt handler, the receive path and the logging macro.

  The globals of the file are the record \<open>comm\<close>, which extends those of the network stack and which the main
  program extends with its own.  A slot
  of the ring owns the block \<open>os_malloc\<close> returned for it: \<open>Some\<close> bytes while it is allocated, \<open>None\<close> when
  it was never filled or its block was given to \<open>os_free\<close>, so that reading it then is a fault.  What the
  SDK answers is the parameter \<open>comm_api\<close>, functions on an SDK state that the firmware only threads
  through.
\<close>

section \<open>Globals\<close>

definition TX_RING_BUFFER_SIZE :: nat where "TX_RING_BUFFER_SIZE = 32"
definition TX_RING_BUFFER_MASK :: u16 where "TX_RING_BUFFER_MASK = 32 - 1"
definition DO_RX :: nat where "DO_RX = 80"
definition DO_TX :: nat where "DO_TX = 81"
definition MAX_MESSAGE_SIZE :: nat where "MAX_MESSAGE_SIZE = 2040"
definition PRINT_BUF_SIZE :: nat where "PRINT_BUF_SIZE = 128"

datatype tx_prio = COMM_TX_PRIO_LOW | COMM_TX_PRIO_MEDIUM | COMM_TX_PRIO_HIGH | Tx_Prio_Other

definition MSG_STATUS :: u8 where "MSG_STATUS = 0x80"
definition MSG_LOG :: u8 where "MSG_LOG = 0x83"

record transmitter =
  bufs :: "bytes option list"
  buf_lens :: "nat list"
  buf_read_i :: u16
  buf_write_i :: u16
  task_pending :: bool
  dropped_packets :: u32
  idx_in_buf :: nat

text \<open>The COBS decoder inside \<open>struct decoder\<close>, with the array it writes to, is touched by the receive path
  only; it travels beside the globals, so that the callback gets the globals alone.  \<open>decoder\<close> has the
  other members.  \<open>cb_set\<close> tells whether the callback pointer is non-null; the function itself is the
  parameter \<open>cb\<close> of the operations that may call it.\<close>

record decoder =
  proto_errors :: u32
  crc_errors :: u32
  cb_set :: bool

record 's comm = net +
  sdk :: 's
  periph :: hw
  uart_dev :: UartDevice
  os_posts :: "nat list"
  comm_queue_len :: nat
  transmitter_uart0 :: transmitter
  dec_uart0 :: decoder
  comm_loglevel :: u8

text \<open>The SDK functions the link uses: the free heap, the allocation of a block (with whatever bytes are
  in it, or null), the release of a block, and the text a formatting call writes.\<close>

record 's comm_api =
  system_get_free_heap_size :: "'s \<Rightarrow> u32"
  os_malloc :: "nat \<Rightarrow> 's \<Rightarrow> bytes option \<times> 's"
  os_free :: "bytes \<Rightarrow> 's \<Rightarrow> 's"
  os_sprintf :: "string \<Rightarrow> int list \<Rightarrow> bytes"
  UART_CLK_FREQ :: u32

abbreviation upd_tx :: "(transmitter \<Rightarrow> transmitter) \<Rightarrow> ('s, 'a) comm_scheme \<Rightarrow> ('s, 'a) comm_scheme" where
  "upd_tx f g \<equiv> g\<lparr>transmitter_uart0 := f (transmitter_uart0 g)\<rparr>"

abbreviation upd_dec :: "(decoder \<Rightarrow> decoder) \<Rightarrow> ('s, 'a) comm_scheme \<Rightarrow> ('s, 'a) comm_scheme" where
  "upd_dec f g \<equiv> g\<lparr>dec_uart0 := f (dec_uart0 g)\<rparr>"

section \<open>Sending\<close>

definition transmitter_init :: "transmitter \<Rightarrow> transmitter" where
  "transmitter_init t =
     t\<lparr>buf_read_i := 0, buf_write_i := 0, idx_in_buf := 0, task_pending := False, dropped_packets := 0\<rparr>"

definition transmitter_wake_task :: "('s, 'a) comm_scheme \<Rightarrow> ('s, 'a) comm_scheme" where
  "transmitter_wake_task g =
     (if task_pending (transmitter_uart0 g) then g
      else upd_tx (task_pending_update (\<lambda>_. True)) (g\<lparr>os_posts := os_posts g @ [DO_TX]\<rparr>))"

text \<open>The fill level as the code computes it: the difference of two \<open>uint16_t\<close> is an \<open>int\<close>, converted
  to \<open>size_t\<close> where it is stored in a variable.\<close>

definition ring_diff :: "transmitter \<Rightarrow> int" where
  "ring_diff t = uint (buf_write_i t) - uint (buf_read_i t)"

definition buf_used :: "transmitter \<Rightarrow> u32" where
  "buf_used t = word_of_int (ring_diff t)"

definition buf_free :: "transmitter \<Rightarrow> u32" where
  "buf_free t = 32 - buf_used t"

definition push_precheck :: "u32 \<Rightarrow> tx_prio \<Rightarrow> transmitter \<Rightarrow> bool" where
  "push_precheck heap_free prio t =
     (if buf_used t = 32 then False
      else (case prio of
              COMM_TX_PRIO_LOW \<Rightarrow> \<not> (heap_free < 20000 \<or> buf_free t < 15)
            | COMM_TX_PRIO_MEDIUM \<Rightarrow> \<not> (heap_free < 10000 \<or> buf_free t < 10)
            | COMM_TX_PRIO_HIGH \<Rightarrow> \<not> (heap_free < 2000 \<or> buf_free t < 1)
            | Tx_Prio_Other \<Rightarrow> True))"

definition drop_packet :: "transmitter \<Rightarrow> transmitter" where
  "drop_packet t = t\<lparr>dropped_packets := dropped_packets t + 1\<rparr>"

text \<open>The critical section, with interrupts off: a ring found full a second time rejects the frame.\<close>

definition ring_slot :: "u16 \<Rightarrow> nat" where
  "ring_slot i = unat (i AND TX_RING_BUFFER_MASK)"

definition push_commit :: "bytes \<Rightarrow> nat \<Rightarrow> transmitter \<Rightarrow> transmitter option" where
  "push_commit encoded encoded_size t =
     (if ring_diff t = 32 then None
      else let i = ring_slot (buf_write_i t) in
        Some (t\<lparr>bufs := (bufs t)[i := Some encoded], buf_lens := (buf_lens t)[i := encoded_size],
                buf_write_i := buf_write_i t + 1\<rparr>))"

text \<open>A message body: type, data, checksum with the low byte first.\<close>

definition comm_msg :: "u8 \<Rightarrow> bytes \<Rightarrow> bytes" where
  "comm_msg type data =
     (let crc = crc16_block (type # data)
      in (type # data) @ [ucast (crc AND 0xff), ucast (drop_bit 8 crc AND 0xff)])"

text \<open>\<open>COMM_LOG\<close> formats into a buffer of \<open>PRINT_BUF_SIZE\<close> bytes after the level byte.\<close>

definition log_text :: "'s comm_api \<Rightarrow> string \<Rightarrow> int list \<Rightarrow> bytes option" where
  "log_text api fmt args =
     (let txt = os_sprintf api fmt args
      in if length txt + 2 \<le> PRINT_BUF_SIZE then Some txt else None)"

text \<open>\<open>transmitter_push\<close>: reject early, encode into a fresh block with a sentinel behind it, complain
  through the log (which is another push) if the sentinel is gone, then commit and wake the task.\<close>

partial_function (option) transmitter_push ::
  "'s comm_api \<Rightarrow> bytes \<Rightarrow> tx_prio \<Rightarrow> ('s, 'a) comm_scheme \<Rightarrow> ('s, 'a) comm_scheme option" where
  "transmitter_push api data prio g =
     (if \<not> push_precheck (system_get_free_heap_size api (sdk g)) prio (transmitter_uart0 g)
      then Some (upd_tx drop_packet g)
      else
        (let encoded_max_size = COBS_ENCODED_MAX_SIZE (length data) + 1;
             (mem, s) = os_malloc api encoded_max_size (sdk g);
             g = g\<lparr>sdk := s\<rparr>
         in if mem = None then Some g
         else do {
           encoded \<leftarrow> poke (the mem) (encoded_max_size - 1) 0x55;
           (encoded_size, encoded) \<leftarrow> cobs_encode encoded data;
           sentinel \<leftarrow> peek encoded (encoded_max_size - 1);
           g \<leftarrow> (if sentinel \<noteq> 0x55 \<and> 40 \<ge> comm_loglevel g
                 then do {
                   txt \<leftarrow> log_text api ''buffer overflow'' [];
                   transmitter_push api (comm_msg MSG_LOG (40 # txt)) COMM_TX_PRIO_HIGH g
                 }
                 else Some g);
           case push_commit encoded (unat encoded_size) (transmitter_uart0 g) of
             None \<Rightarrow> Some (upd_tx drop_packet (g\<lparr>sdk := os_free api encoded (sdk g)\<rparr>))
           | Some t \<Rightarrow> Some (transmitter_wake_task (g\<lparr>transmitter_uart0 := t\<rparr>))
         }))"

text \<open>\<open>for (; (idx < len) && fifo_free_n; idx++)\<close>: the bytes that go to the FIFO.  A read past the block
  is a fault.\<close>

function send_bytes ::
  "bytes \<Rightarrow> nat \<Rightarrow> nat \<Rightarrow> u32 \<Rightarrow> hw \<Rightarrow> (nat \<times> u32 \<times> hw) option" where
  "send_bytes blk len idx fifo_free_n h =
     (if idx < len \<and> fifo_free_n \<noteq> 0 then do {
        b \<leftarrow> peek blk idx;
        send_bytes blk len (idx + 1) (fifo_free_n - 1) (WRITE_PERI_REG (UART_FIFO 0) (ucast b) h)
      }
      else Some (idx, fifo_free_n, h))"
  by pat_completeness auto
termination
  by (relation "measure (\<lambda>(blk, len, idx, n, h). len - idx)") auto

declare send_bytes.simps [simp del]

text \<open>A block that is out completely leaves the ring and is released.\<close>

definition ring_retire :: "transmitter \<Rightarrow> transmitter" where
  "ring_retire t =
     t\<lparr>buf_read_i := buf_read_i t + 1, idx_in_buf := 0,
       bufs := (bufs t)[ring_slot (buf_read_i t) := None]\<rparr>"

text \<open>The outer loop; every turn that does not leave it advances \<open>buf_read_i\<close> towards \<open>buf_write_i\<close>.\<close>

function send_loop ::
  "'s comm_api \<Rightarrow> u32 \<Rightarrow> transmitter \<Rightarrow> hw \<Rightarrow> 's \<Rightarrow> (u32 \<times> transmitter \<times> hw \<times> 's) option" where
  "send_loop api fifo_free_n t h s =
     (if fifo_free_n \<noteq> 0 \<and> buf_read_i t \<noteq> buf_write_i t then
        (let buf_idx = ring_slot (buf_read_i t)
         in do {
           slot \<leftarrow> peek (bufs t) buf_idx;
           blk \<leftarrow> slot;
           len \<leftarrow> peek (buf_lens t) buf_idx;
           (idx, fifo_free_n, h) \<leftarrow> send_bytes blk len (idx_in_buf t) fifo_free_n h;
           if idx \<noteq> len then Some (fifo_free_n, t\<lparr>idx_in_buf := idx\<rparr>, h, s)
           else send_loop api fifo_free_n (ring_retire t) h (os_free api blk s)
         })
      else Some (fifo_free_n, t, h, s))"
  by pat_completeness auto
termination
proof (relation "measure (\<lambda>(api, n, t, h, s). unat (buf_write_i t - buf_read_i t))", goal_cases)
  case 1
  show ?case by simp
next
  case (2 api n t h s)
  then have "unat (buf_write_i t - (buf_read_i t + 1)) < unat (buf_write_i t - buf_read_i t)"
    by (metis diff_diff_eq measure_unat right_minus_eq)
  then show ?case by (simp add: ring_retire_def)
qed

declare send_loop.simps [simp del]

definition transmitter_send :: "'s comm_api \<Rightarrow> ('s, 'a) comm_scheme \<Rightarrow> ('s, 'a) comm_scheme option" where
  "transmitter_send api g =
     (let g = upd_tx (task_pending_update (\<lambda>_. False)) g;
          (st, h) = READ_PERI_REG (UART_STATUS 0) (periph g);
          fifo_cnt = drop_bit UART_TXFIFO_CNT_S st AND UART_TXFIFO_CNT;
          fifo_free_n = 126 - fifo_cnt
      in if fifo_free_n = 0 then Some (g\<lparr>periph := uart0_tx_intr_enable h\<rparr>)
      else do {
        (fifo_free_n, t, h, s) \<leftarrow> send_loop api fifo_free_n (transmitter_uart0 g) h (sdk g);
        let h = (if fifo_free_n = 0 \<and> buf_read_i t \<noteq> buf_write_i t then uart0_tx_intr_enable h else h);
        Some (g\<lparr>transmitter_uart0 := t, periph := h, sdk := s\<rparr>)
      })"

section \<open>Interface for senders\<close>

definition comm_send ::
  "'s comm_api \<Rightarrow> u8 \<Rightarrow> bytes \<Rightarrow> tx_prio \<Rightarrow> ('s, 'a) comm_scheme \<Rightarrow> ('s, 'a) comm_scheme option" where
  "comm_send api type data prio g = transmitter_push api (comm_msg type data) prio g"

definition comm_send_ctl ::
  "'s comm_api \<Rightarrow> u8 \<Rightarrow> bytes \<Rightarrow> ('s, 'a) comm_scheme \<Rightarrow> ('s, 'a) comm_scheme option" where
  "comm_send_ctl api type data g = comm_send api type data COMM_TX_PRIO_HIGH g"

definition comm_send_status ::
  "'s comm_api \<Rightarrow> u8 \<Rightarrow> ('s, 'a) comm_scheme \<Rightarrow> ('s, 'a) comm_scheme option" where
  "comm_send_status api st g = comm_send_ctl api MSG_STATUS [st] g"

definition COMM_LOG ::
  "'s comm_api \<Rightarrow> u8 \<Rightarrow> string \<Rightarrow> int list \<Rightarrow> ('s, 'a) comm_scheme \<Rightarrow> ('s, 'a) comm_scheme option" where
  "COMM_LOG api level fmt args g =
     (if level \<ge> comm_loglevel g then do {
        txt \<leftarrow> log_text api fmt args;
        comm_send_ctl api MSG_LOG (level # txt) g
      }
      else Some g)"

abbreviation "COMM_DBG api \<equiv> COMM_LOG api 10"
abbreviation "COMM_INFO api \<equiv> COMM_LOG api 20"
abbreviation "COMM_WARN api \<equiv> COMM_LOG api 30"
abbreviation "COMM_ERR api \<equiv> COMM_LOG api 40"

definition comm_set_loglevel :: "u8 \<Rightarrow> ('s, 'a) comm_scheme \<Rightarrow> ('s, 'a) comm_scheme" where
  "comm_set_loglevel level g = g\<lparr>comm_loglevel := level\<rparr>"

definition comm_get_stats :: "('s, 'a) comm_scheme \<Rightarrow> u32 \<times> u32 \<times> u32" where
  "comm_get_stats g =
     (proto_errors (dec_uart0 g) + crc_errors (dec_uart0 g),
      crc_errors (dec_uart0 g),
      dropped_packets (transmitter_uart0 g))"

section \<open>Receiving\<close>

type_synonym ('s, 'a) comm_callback =
  "u8 \<Rightarrow> bytes \<Rightarrow> ('s, 'a) comm_scheme \<Rightarrow> ('s, 'a) comm_scheme option"

definition decoder_check_and_dispatch_cb ::
  "('s, 'a) comm_callback \<Rightarrow> bytes \<Rightarrow> ('s, 'a) comm_scheme \<Rightarrow> ('s, 'a) comm_scheme option" where
  "decoder_check_and_dispatch_cb cb data g =
     (let len = length data in
      if len < 3 then Some (upd_dec (\<lambda>d. d\<lparr>proto_errors := proto_errors d + 1\<rparr>) g)
      else
       (let crc_calc = crc16_block (take (len - 2) data);
            crc_msg = le16 (data ! (len - 2)) (data ! (len - 1))
        in if crc_calc \<noteq> crc_msg then Some (upd_dec (\<lambda>d. d\<lparr>crc_errors := crc_errors d + 1\<rparr>) g)
        else if cb_set (dec_uart0 g) then cb (data ! 0) (take (len - 3) (drop 1 data)) g
        else Some g))"

text \<open>\<open>buf c\<close> is the array of the structure behind its alignment offset.\<close>

definition decoder_init :: "bool \<Rightarrow> cobs_decoder \<times> decoder \<Rightarrow> cobs_decoder \<times> decoder" where
  "decoder_init cb = (\<lambda>(c, d).
     (cobs_decoder_init c (buf c) (COBS_ENCODED_MAX_SIZE MAX_MESSAGE_SIZE),
      d\<lparr>proto_errors := 0, crc_errors := 0, cb_set := cb\<rparr>))"

type_synonym ('s, 'a) link = "cobs_decoder \<times> ('s, 'a) comm_scheme"

definition decoder_put_data :: "('s, 'a) comm_callback \<Rightarrow> bytes \<Rightarrow> ('s, 'a) link \<Rightarrow> ('s, 'a) link option" where
  "decoder_put_data cb data l = cobs_decoder_put (decoder_check_and_dispatch_cb cb) data l"

fun read_rx_fifo :: "nat \<Rightarrow> hw \<Rightarrow> bytes \<times> hw" where
  "read_rx_fifo 0 h = ([], h)"
| "read_rx_fifo (Suc n) h =
     (let (v, h) = READ_PERI_REG (UART_FIFO 0) h;
          (bs, h) = read_rx_fifo n h
      in (ucast (v AND 0xFF) # bs, h))"

text \<open>\<open>while (1)\<close>: drain the receive FIFO in chunks of at most 64 bytes.  The callback may do anything to
  the globals, so that the loop ends is a theorem and not part of the definition.\<close>

partial_function (option) do_rx_loop :: "('s, 'a) comm_callback \<Rightarrow> ('s, 'a) link \<Rightarrow> ('s, 'a) link option" where
  "do_rx_loop cb l =
     (let (c, g) = l;
          (st, h) = READ_PERI_REG (UART_STATUS 0) (periph g);
          n = drop_bit UART_RXFIFO_CNT_S st AND UART_RXFIFO_CNT
      in if n = 0 then Some (c, g\<lparr>periph := h\<rparr>)
      else
        (let n = min n 64;
             (chunk, h) = read_rx_fifo (unat n) h
         in do {
           l \<leftarrow> decoder_put_data cb chunk (c, g\<lparr>periph := h\<rparr>);
           do_rx_loop cb l
         }))"

definition do_rx :: "('s, 'a) comm_callback \<Rightarrow> ('s, 'a) link \<Rightarrow> ('s, 'a) link option" where
  "do_rx cb l = do {
     (c, g) \<leftarrow> do_rx_loop cb l;
     Some (c, g\<lparr>periph := uart0_rx_intr_enable (periph g)\<rparr>)
   }"

section \<open>Task, interrupt handler, initialisation\<close>

definition comm_task ::
  "'s comm_api \<Rightarrow> ('s, 'a) comm_callback \<Rightarrow> nat \<Rightarrow> ('s, 'a) link \<Rightarrow> ('s, 'a) link option" where
  "comm_task api cb sig = (\<lambda>(c, g).
     if sig = DO_RX then do_rx cb (c, g)
     else do {
       g \<leftarrow> (if sig = DO_TX then transmitter_send api g
             else COMM_ERR api ''unknown task variant'' [] g);
       Some (c, g)
     })"

definition uart0_rx_intr_handler :: "('s, 'a) comm_scheme \<Rightarrow> ('s, 'a) comm_scheme" where
  "uart0_rx_intr_handler g =
     (let (stat, h) = READ_PERI_REG (UART_INT_ST 0) (periph g);
          g = g\<lparr>periph := h\<rparr>;
          g = (if stat AND (UART_RXFIFO_FULL_INT OR UART_RXFIFO_TOUT_INT) \<noteq> 0 then
                 (let h = uart0_rx_intr_disable (periph g);
                      h = WRITE_PERI_REG (UART_INT_CLR 0) (UART_RXFIFO_FULL_INT OR UART_RXFIFO_TOUT_INT) h
                  in g\<lparr>periph := h, os_posts := os_posts g @ [DO_RX]\<rparr>)
               else g)
      in if stat AND UART_TXFIFO_EMPTY_INT \<noteq> 0 then
           (let h = uart0_tx_intr_disable (periph g);
                h = WRITE_PERI_REG (UART_INT_CLR 0) UART_TXFIFO_EMPTY_INT h
            in transmitter_wake_task (g\<lparr>periph := h\<rparr>))
         else g)"

definition comm_init ::
  "'s comm_api \<Rightarrow> bool \<Rightarrow> nat list \<Rightarrow> ('s, 'a) link \<Rightarrow> ('s, 'a) link option" where
  "comm_init api cb drained = (\<lambda>(c, g). do {
     let (c, d) = decoder_init cb (c, dec_uart0 g);
     let g = g\<lparr>dec_uart0 := d\<rparr>;
     let g = upd_tx transmitter_init g;
     let g = g\<lparr>comm_queue_len := 3\<rparr>;
     (dev, h) \<leftarrow> uart_init (UART_CLK_FREQ api) 115200 115200 (uart_dev g, periph g);
     (_, h) \<leftarrow> uart_tx_one_char UART0 COBS_BYTE_EOF drained h;
     Some (c, g\<lparr>uart_dev := dev, periph := uart0_rx_intr_enable h\<rparr>)
   })"

end
