(* ===== verification/Message.thy ===== *)
theory Message
  imports Comm
begin

text \<open>
  The message protocol of \<open>src/user_main/message.h\<close>: message types, modes and the packed structures, each with its
  layout in the data of a message.  Multibyte members are little endian; those that hold IP addresses are in
  network order and are passed on as they are.
\<close>

section \<open>Message types\<close>

definition MSG_IP_PACKET :: u8 where "MSG_IP_PACKET = 0x00"
definition MSG_ETHER_PACKET :: u8 where "MSG_ETHER_PACKET = 0x01"
definition MSG_FORWARD_IP_BROADCASTS :: u8 where "MSG_FORWARD_IP_BROADCASTS = 0x10"
definition MSG_SET_FORWARDING_MODE :: u8 where "MSG_SET_FORWARDING_MODE = 0x11"
definition MSG_WIFI_MODE_SET :: u8 where "MSG_WIFI_MODE_SET = 0x20"
definition MSG_WIFI_SLEEP_MODE_SET :: u8 where "MSG_WIFI_SLEEP_MODE_SET = 0x21"
definition MSG_WIFI_SCAN_REQUEST :: u8 where "MSG_WIFI_SCAN_REQUEST = 0x22"
definition MSG_WIFI_SCAN_REPLY :: u8 where "MSG_WIFI_SCAN_REPLY = 0x23"
definition MSG_WIFI_SCAN_ENTRY :: u8 where "MSG_WIFI_SCAN_ENTRY = 0x24"
definition MSG_WIFI_GET_MACADDR_REQUEST :: u8 where "MSG_WIFI_GET_MACADDR_REQUEST = 0x25"
definition MSG_WIFI_GET_MACADDR_REPLY :: u8 where "MSG_WIFI_GET_MACADDR_REPLY = 0x26"
definition MSG_STATION_CONF_SET :: u8 where "MSG_STATION_CONF_SET = 0x40"
definition MSG_STATION_STATIC_IP_CONF_SET :: u8 where "MSG_STATION_STATIC_IP_CONF_SET = 0x41"
definition MSG_STATION_DHCPC_STATE_SET :: u8 where "MSG_STATION_DHCPC_STATE_SET = 0x42"
definition MSG_STATION_IP_CONF_REQUEST :: u8 where "MSG_STATION_IP_CONF_REQUEST = 0x43"
definition MSG_STATION_IP_CONF_REPLY :: u8 where "MSG_STATION_IP_CONF_REPLY = 0x44"
definition MSG_STATION_CONN_STATUS_REQUEST :: u8 where "MSG_STATION_CONN_STATUS_REQUEST = 0x45"
definition MSG_STATION_CONN_STATUS_REPLY :: u8 where "MSG_STATION_CONN_STATUS_REPLY = 0x46"
definition MSG_STATION_RSSI_REQUEST :: u8 where "MSG_STATION_RSSI_REQUEST = 0x47"
definition MSG_STATION_RSSI_REPLY :: u8 where "MSG_STATION_RSSI_REPLY = 0x48"
definition MSG_SOFTAP_CONF_SET :: u8 where "MSG_SOFTAP_CONF_SET = 0x60"
definition MSG_SOFTAP_NET_CONF_SET :: u8 where "MSG_SOFTAP_NET_CONF_SET = 0x61"
definition MSG_BOOT :: u8 where "MSG_BOOT = 0x81"
definition MSG_LOG_LEVEL_SET :: u8 where "MSG_LOG_LEVEL_SET = 0x82"
definition MSG_ECHO_REQUEST :: u8 where "MSG_ECHO_REQUEST = 0x84"
definition MSG_ECHO_REPLY :: u8 where "MSG_ECHO_REPLY = 0x85"
definition MSG_SET_BAUD :: u8 where "MSG_SET_BAUD = 0x86"
definition MSG_PRINT_STATS :: u8 where "MSG_PRINT_STATS = 0x90"

lemmas msg_codes = MSG_IP_PACKET_def MSG_ETHER_PACKET_def MSG_FORWARD_IP_BROADCASTS_def MSG_SET_FORWARDING_MODE_def
  MSG_WIFI_MODE_SET_def MSG_WIFI_SLEEP_MODE_SET_def MSG_WIFI_SCAN_REQUEST_def MSG_WIFI_SCAN_REPLY_def
  MSG_WIFI_SCAN_ENTRY_def MSG_WIFI_GET_MACADDR_REQUEST_def MSG_WIFI_GET_MACADDR_REPLY_def MSG_STATION_CONF_SET_def
  MSG_STATION_STATIC_IP_CONF_SET_def MSG_STATION_DHCPC_STATE_SET_def MSG_STATION_IP_CONF_REQUEST_def
  MSG_STATION_IP_CONF_REPLY_def MSG_STATION_CONN_STATUS_REQUEST_def MSG_STATION_CONN_STATUS_REPLY_def
  MSG_STATION_RSSI_REQUEST_def MSG_STATION_RSSI_REPLY_def MSG_SOFTAP_CONF_SET_def MSG_SOFTAP_NET_CONF_SET_def
  MSG_STATUS_def MSG_BOOT_def MSG_LOG_LEVEL_SET_def MSG_LOG_def MSG_ECHO_REQUEST_def MSG_ECHO_REPLY_def
  MSG_SET_BAUD_def MSG_PRINT_STATS_def

definition MODE_STA :: u8 where "MODE_STA = 1"
definition MODE_SOFTAP :: u8 where "MODE_SOFTAP = 2"

text \<open>\<open>enum forwarding_mode\<close> is packed into a byte and assigned from one without a check.\<close>

definition FORWARDING_MODE_NONE :: u8 where "FORWARDING_MODE_NONE = 0"
definition FORWARDING_MODE_IP :: u8 where "FORWARDING_MODE_IP = 1"
definition FORWARDING_MODE_ETHER :: u8 where "FORWARDING_MODE_ETHER = 2"

section \<open>Structures\<close>

definition le32_at :: "bytes \<Rightarrow> nat \<Rightarrow> u32" where
  "le32_at d i = le32 (d ! i) (d ! (i + 1)) (d ! (i + 2)) (d ! (i + 3))"

definition le16_at :: "bytes \<Rightarrow> nat \<Rightarrow> u16" where
  "le16_at d i = le16 (d ! i) (d ! (i + 1))"

definition slice :: "bytes \<Rightarrow> nat \<Rightarrow> nat \<Rightarrow> bytes" where
  "slice d i n = take n (drop i d)"

definition bytes_le16 :: "u16 \<Rightarrow> bytes" where
  "bytes_le16 w = [lo8 w, hi8 w]"

record msg_station_conf =
  st_ssid_len :: u8
  st_ssid :: bytes
  st_password_len :: u8
  st_password :: bytes

definition SIZEOF_STATION_CONF :: nat where "SIZEOF_STATION_CONF = 98"

definition station_conf_of :: "bytes \<Rightarrow> msg_station_conf" where
  "station_conf_of d = \<lparr>st_ssid_len = d ! 0, st_ssid = slice d 1 32, st_password_len = d ! 33, st_password = slice d 34 64\<rparr>"

record msg_ip_conf =
  ipc_address :: u32
  ipc_netmask :: u32
  ipc_gateway :: u32
  ipc_dns :: "u32 list"

definition SIZEOF_IP_CONF :: nat where "SIZEOF_IP_CONF = 24"

definition ip_conf_of :: "bytes \<Rightarrow> msg_ip_conf" where
  "ip_conf_of d = \<lparr>ipc_address = le32_at d 0, ipc_netmask = le32_at d 4, ipc_gateway = le32_at d 8,
     ipc_dns = [le32_at d 12, le32_at d 16, le32_at d 20]\<rparr>"

definition ip_conf_bytes :: "msg_ip_conf \<Rightarrow> bytes" where
  "ip_conf_bytes c = bytes_le32 (ipc_address c) @ bytes_le32 (ipc_netmask c) @ bytes_le32 (ipc_gateway c)
     @ concat (map bytes_le32 (ipc_dns c))"

record msg_wifi_scan_request =
  rq_ssid_len :: u8
  rq_ssid :: bytes
  rq_use_bssid :: u8
  rq_bssid :: bytes
  rq_channel :: u8
  rq_show_hidden :: u8

definition SIZEOF_SCAN_REQUEST :: nat where "SIZEOF_SCAN_REQUEST = 42"

definition scan_request_of :: "bytes \<Rightarrow> msg_wifi_scan_request" where
  "scan_request_of d = \<lparr>rq_ssid_len = d ! 0, rq_ssid = slice d 1 32, rq_use_bssid = d ! 33, rq_bssid = slice d 34 6,
     rq_channel = d ! 40, rq_show_hidden = d ! 41\<rparr>"

record msg_wifi_scan_reply =
  rp_status :: u8
  rp_entries_n :: u16

definition scan_reply_bytes :: "msg_wifi_scan_reply \<Rightarrow> bytes" where
  "scan_reply_bytes r = rp_status r # bytes_le16 (rp_entries_n r)"

record msg_wifi_scan_entry =
  en_index :: u16
  en_ssid_len :: u8
  en_ssid :: bytes
  en_bssid :: bytes
  en_channel :: u8
  en_auth_mode :: u8
  en_rssi :: u16
  en_is_hidden :: u8

definition scan_entry_bytes :: "msg_wifi_scan_entry \<Rightarrow> bytes" where
  "scan_entry_bytes e = bytes_le16 (en_index e) @ [en_ssid_len e] @ en_ssid e @ en_bssid e
     @ [en_channel e, en_auth_mode e] @ bytes_le16 (en_rssi e) @ [en_is_hidden e]"

record msg_softap_conf =
  ap_ssid_len :: u8
  ap_ssid :: bytes
  ap_password_len :: u8
  ap_password :: bytes
  ap_channel :: u8
  ap_auth_mode :: u8
  ap_beacon_interval :: u16

definition SIZEOF_SOFTAP_CONF :: nat where "SIZEOF_SOFTAP_CONF = 102"

definition softap_conf_of :: "bytes \<Rightarrow> msg_softap_conf" where
  "softap_conf_of d = \<lparr>ap_ssid_len = d ! 0, ap_ssid = slice d 1 32, ap_password_len = d ! 33, ap_password = slice d 34 64,
     ap_channel = d ! 98, ap_auth_mode = d ! 99, ap_beacon_interval = le16_at d 100\<rparr>"

record msg_softap_net_conf =
  nc_address :: u32
  nc_netmask :: u32
  nc_gateway :: u32
  nc_enable_dhcpd :: u8
  nc_dhcpd_offer_gateway :: u8
  nc_dhcpd_first_ip :: u32
  nc_dhcpd_last_ip :: u32

definition SIZEOF_SOFTAP_NET_CONF :: nat where "SIZEOF_SOFTAP_NET_CONF = 22"

definition softap_net_conf_of :: "bytes \<Rightarrow> msg_softap_net_conf" where
  "softap_net_conf_of d = \<lparr>nc_address = le32_at d 0, nc_netmask = le32_at d 4, nc_gateway = le32_at d 8,
     nc_enable_dhcpd = d ! 12, nc_dhcpd_offer_gateway = d ! 13, nc_dhcpd_first_ip = le32_at d 14,
     nc_dhcpd_last_ip = le32_at d 18\<rparr>"

end
