(* ===== verification/Pbuf_Chain.thy ===== *)
theory Pbuf_Chain
  imports Pbuf
begin

text \<open>
  Chains of pbufs as byte strings.  \<open>chain\<close> relates a pointer to the addresses reached along \<open>next\<close>,
  \<open>chain_data\<close> is the payload of all of them, and a \<open>packet\<close> is a chain whose payload pointers lie inside
  their memory and whose \<open>tot_len\<close> fields add up.  The lemmas give what the operations of \<open>pbuf.c\<close> do to
  the byte string, to the reference counts and to the rest of the heap.
\<close>

section \<open>Chains\<close>

fun chain :: "pheap \<Rightarrow> nat option \<Rightarrow> nat list \<Rightarrow> bool" where
  "chain h p [] \<longleftrightarrow> p = None"
| "chain h p (a # as) \<longleftrightarrow> p = Some a \<and> (\<exists>b. h a = Some b \<and> chain h (pb_next b) as)"

definition pb_ok :: "pbuf \<Rightarrow> bool" where
  "pb_ok b \<longleftrightarrow> (case pb_payload b of None \<Rightarrow> False
     | Some pos \<Rightarrow> 0 \<le> pos \<and> nat pos + unat (pb_len b) \<le> length (pb_mem b))"

definition pb_bytes :: "pbuf \<Rightarrow> bytes" where
  "pb_bytes b = take (unat (pb_len b)) (drop (nat (the (pb_payload b))) (pb_mem b))"

definition chain_data :: "pheap \<Rightarrow> nat list \<Rightarrow> bytes" where
  "chain_data h as = concat (map (\<lambda>a. pb_bytes (the (h a))) as)"

fun tot_ok :: "pheap \<Rightarrow> nat list \<Rightarrow> bool" where
  "tot_ok h [] \<longleftrightarrow> True"
| "tot_ok h (a # as) \<longleftrightarrow> unat (tot_len (the (h a))) = length (chain_data h (a # as)) \<and> tot_ok h as"

definition packet :: "pheap \<Rightarrow> nat option \<Rightarrow> nat list \<Rightarrow> bool" where
  "packet h p as \<longleftrightarrow> chain h p as \<and> (\<forall>a \<in> set as. pb_ok (the (h a))) \<and> tot_ok h as"

lemma length_pb_bytes [simp]: "pb_ok b \<Longrightarrow> length (pb_bytes b) = unat (pb_len b)"
  by (auto simp: pb_ok_def pb_bytes_def split: option.splits)

lemma chain_data_simps [simp]:
  "chain_data h [] = []" "chain_data h (a # as) = pb_bytes (the (h a)) @ chain_data h as"
  "chain_data h (as @ bs) = chain_data h as @ chain_data h bs"
  by (simp_all add: chain_data_def)

lemma chain_unique: "chain h p as \<Longrightarrow> chain h p bs \<Longrightarrow> as = bs"
proof (induction as arbitrary: p bs)
  case Nil
  then show ?case by (cases bs) auto
next
  case (Cons a as)
  then show ?case by (cases bs) auto
qed

lemma chain_suffix: "chain h p (xs @ a # ys) \<Longrightarrow> chain h (Some a) (a # ys)"
  by (induction xs arbitrary: p) auto

lemma chain_distinct: "chain h p as \<Longrightarrow> distinct as"
proof (induction as arbitrary: p)
  case Nil
  show ?case by simp
next
  case (Cons a as)
  have "a \<notin> set as"
  proof
    assume "a \<in> set as"
    then obtain xs ys where as: "as = xs @ a # ys" by (auto simp: in_set_conv_decomp)
    with Cons.prems have "chain h (Some a) (a # ys)" using chain_suffix [of h p "a # xs" a ys] by simp
    moreover have "chain h (Some a) (a # as)" using Cons.prems by auto
    ultimately have "a # as = a # ys" by (rule chain_unique [rotated])
    with as show False by simp
  qed
  with Cons show ?case by auto
qed

lemma chain_frame: "(\<And>a. a \<in> set as \<Longrightarrow> h' a = h a) \<Longrightarrow> chain h' p as = chain h p as"
  by (induction as arbitrary: p) auto

lemma chain_upd: "a \<notin> set as \<Longrightarrow> chain (h(a := v)) p as = chain h p as"
  by (intro chain_frame) auto

lemma chain_data_frame: "(\<And>a. a \<in> set as \<Longrightarrow> h' a = h a) \<Longrightarrow> chain_data h' as = chain_data h as"
  by (simp add: chain_data_def cong: map_cong)

lemma tot_ok_frame: "(\<And>a. a \<in> set as \<Longrightarrow> h' a = h a) \<Longrightarrow> tot_ok h' as = tot_ok h as"
  by (induction as) (simp_all add: chain_data_frame [of _ h' h])

lemma packet_frame: "(\<And>a. a \<in> set as \<Longrightarrow> h' a = h a) \<Longrightarrow> packet h' p as = packet h p as"
  using chain_frame [of as h' h] tot_ok_frame [of as h' h] by (simp add: packet_def)

lemma chain_alloc: "chain h p as \<Longrightarrow> a \<in> set as \<Longrightarrow> \<exists>b. h a = Some b"
  by (induction as arbitrary: p) auto

lemma chain_data_nth_bound: "packet h (Some a) (a # as) \<Longrightarrow> length (chain_data h (a # as)) < 65536"
  unfolding packet_def using unat_word_less(2) [of "tot_len (the (h a))"] by simp

section \<open>Reading\<close>

lemma pb_read_ok: "pb_ok b \<Longrightarrow> i + n \<le> unat (pb_len b) \<Longrightarrow> pb_read b i n = Some (take n (drop i (pb_bytes b)))"
  by (auto simp: pb_ok_def pb_read_def pb_bytes_def nat_add_distrib drop_take min_def add.commute
      split: option.splits)

lemma copy_partial_loop_spec:
  assumes "chain h p as" "\<forall>a \<in> set as. pb_ok (the (h a))"
    and "unat left + unat len \<le> length d" "unat left + unat len < 65536"
  shows "copy_partial_loop d left len off p h =
    (let bs = take (unat len) (drop (unat off) (chain_data h as))
     in Some (left + of_nat (length bs), take (unat left) d @ bs @ drop (unat left + length bs) d))"
  using assms
proof (induction as arbitrary: p d left len off)
  case Nil
  then show ?case by (subst copy_partial_loop.simps) simp
next
  case (Cons a as)
  then obtain b where b: "p = Some a" "h a = Some b" "chain h (pb_next b) as" "pb_ok b" by auto
  show ?case
  proof (cases "len = 0")
    case True
    with b show ?thesis by (subst copy_partial_loop.simps) simp
  next
    case False
    show ?thesis
    proof (cases "off \<noteq> 0 \<and> off \<ge> pb_len b")
      case True
      then have u: "unat (off - pb_len b) = unat off - unat (pb_len b)" "unat (pb_len b) \<le> unat off"
        by (simp_all add: unat_sub word_le_nat_alt)
      with True False b Cons.IH [OF b(3), of left len d "off - pb_len b"] Cons.prems show ?thesis
        by (subst copy_partial_loop.simps) (simp add: Let_def)
    next
      case off: False
      then have lt: "unat off < unat (pb_len b) \<or> off = 0" by (auto simp: not_le word_less_nat_alt)
      define n where "n = (if pb_len b - off > len then len else pb_len b - off)"
      have "unat (pb_len b - off) = unat (pb_len b) - unat off"
        using lt by (auto simp: unat_sub word_le_nat_alt)
      then have un: "unat n = min (unat len) (unat (pb_len b) - unat off)"
        by (auto simp: n_def word_less_nat_alt min_def)
      have rd: "pb_read b (unat off) (unat n) = Some (take (unat n) (drop (unat off) (pb_bytes b)))"
        using b(4) lt un by (intro pb_read_ok) auto
      define bs where "bs = take (unat n) (drop (unat off) (pb_bytes b))"
      have lbs: "length bs = unat n" using b(4) lt un by (auto simp: bs_def)
      have room: "unat left + unat n \<le> length d" using Cons.prems(3) un by simp
      define d' where "d' = take (unat left) d @ bs @ drop (unat left + unat n) d"
      have ul: "unat (left + n) = unat left + unat n" "unat (len - n) = unat len - unat n"
        using Cons.prems(4) un by (auto simp: unat_add_lt unat_sub word_le_nat_alt)
      have nl: "unat n \<le> unat len" using un by simp
      have ld: "length d' = length d" using room lbs by (simp add: d'_def)
      have l1: "unat (left + n) + unat (len - n) \<le> length d'" and l2: "unat (left + n) + unat (len - n) < 65536"
        using Cons.prems(3,4) nl by (simp_all add: ul ld)
      have "copy_partial_loop d left len off p h = copy_partial_loop d' (left + n) (len - n) 0 (pb_next b) h"
        using False off b room rd
        by (subst copy_partial_loop.simps) (auto simp: n_def [symmetric] Let_def bs_def [symmetric] d'_def)
      also have "\<dots> = (let rest = take (unat len - unat n) (chain_data h as)
          in Some (left + n + of_nat (length rest), take (unat left + unat n) d' @ rest @ drop (unat left + unat n + length rest) d'))"
        using Cons.IH [OF b(3) _ l1 l2, of 0] Cons.prems(2) by (simp add: ul)
      finally have step: "copy_partial_loop d left len off p h =
          (let rest = take (unat len - unat n) (chain_data h as)
           in Some (left + n + of_nat (length rest), take (unat left + unat n) d' @ rest @ drop (unat left + unat n + length rest) d'))" .
      have split: "take (unat len) (drop (unat off) (chain_data h (a # as))) = bs @ take (unat len - unat n) (chain_data h as)"
        using b(2,4) lt un by (auto simp: bs_def min_def)
      have "take (unat left + unat n) d' = take (unat left) d @ bs" "drop (unat left + unat n + k) d' = drop (unat left + unat n + k) d" for k
        using room lbs by (auto simp: d'_def add.commute)
      then show ?thesis
        unfolding step split Let_def by (simp add: lbs add.assoc)
    qed
  qed
qed

lemma find_at_spec:
  assumes "chain h p as" "\<forall>a \<in> set as. pb_ok (the (h a))"
  shows "(if unat i < length (chain_data h as)
     then \<exists>xs a ys k. as = xs @ a # ys \<and> find_at i p h = Some (Some a, k) \<and>
       unat i = length (chain_data h xs) + unat k \<and> unat k < unat (pb_len (the (h a)))
     else \<exists>k. find_at i p h = Some (None, k))"
  using assms
proof (induction as arbitrary: p i)
  case Nil
  then show ?case by (subst find_at.simps) simp
next
  case (Cons a as)
  then obtain b where b: "p = Some a" "h a = Some b" "chain h (pb_next b) as" "pb_ok b" by auto
  show ?case
  proof (cases "pb_len b \<le> i")
    case False
    then have "unat i < unat (pb_len b)" by (simp add: not_le word_less_nat_alt)
    moreover have "find_at i p h = Some (Some a, i)" using b False by (subst find_at.simps) simp
    moreover have "a # as = [] @ a # as" by simp
    ultimately show ?thesis using b
      by (simp only: if_True chain_data_simps option.sel length_append length_pb_bytes trans_less_add1)
        (metis add_0 chain_data_simps(1) list.size(3) option.sel)
  next
    case True
    then have u: "unat (i - pb_len b) = unat i - unat (pb_len b)" "unat (pb_len b) \<le> unat i"
      by (simp_all add: unat_sub word_le_nat_alt)
    have f: "find_at i p h = find_at (i - pb_len b) (pb_next b) h"
      using b True by (subst find_at.simps) simp
    note IH = Cons.IH [OF b(3), of "i - pb_len b"]
    show ?thesis
    proof (cases "unat i - unat (pb_len b) < length (chain_data h as)")
      case True
      with IH Cons.prems(2) u obtain xs a' ys k where "as = xs @ a' # ys"
        "find_at (i - pb_len b) (pb_next b) h = Some (Some a', k)"
        "unat i - unat (pb_len b) = length (chain_data h xs) + unat k" "unat k < unat (pb_len (the (h a')))"
        by auto
      then have "a # as = (a # xs) @ a' # ys" "find_at i p h = Some (Some a', k)"
        "unat i = length (chain_data h (a # xs)) + unat k" "unat k < unat (pb_len (the (h a')))"
        "unat i < length (chain_data h (a # as))"
        using f u b True by auto
      then show ?thesis by (simp only: if_True) blast
    next
      case False
      with IH Cons.prems(2) u b show ?thesis by (auto simp: f [unfolded b(1)])
    qed
  qed
qed

lemma pbuf_get_at_spec:
  assumes "chain h p as" "\<forall>a \<in> set as. pb_ok (the (h a))"
  shows "pbuf_get_at p i h =
    Some (if unat i < length (chain_data h as) then chain_data h as ! unat i else 0)"
proof (cases "unat i < length (chain_data h as)")
  case False
  with find_at_spec [OF assms, of i] show ?thesis by (auto simp: pbuf_get_at_def)
next
  case True
  with find_at_spec [OF assms, of i] obtain xs a ys k where
    as: "as = xs @ a # ys" and f: "find_at i p h = Some (Some a, k)"
      "unat i = length (chain_data h xs) + unat k" "unat k < unat (pb_len (the (h a)))" by auto
  obtain b where b: "h a = Some b" using chain_alloc [OF assms(1), of a] as by auto
  have ok: "pb_ok b" using assms(2) as b by auto
  have "pb_read b (unat k) 1 = Some (take 1 (drop (unat k) (pb_bytes b)))"
    using ok f(3) b by (intro pb_read_ok) auto
  with True f b ok show ?thesis
    by (simp add: pbuf_get_at_def as nth_append hd_drop_conv_nth take_Suc_conv_app_nth)
qed

text \<open>Comparison reads zero behind the end of the chain.\<close>

definition data_at :: "bytes \<Rightarrow> nat \<Rightarrow> u8" where
  "data_at d i = (if i < length d then d ! i else 0)"

fun first_diff :: "bytes \<Rightarrow> nat \<Rightarrow> bytes \<Rightarrow> nat \<Rightarrow> nat" where
  "first_diff d start [] i = 0"
| "first_diff d start (y # ys) i = (if data_at d (start + i) \<noteq> y then i + 1 else first_diff d start ys (i + 1))"

lemma first_diff_0_iff: "first_diff d start ys i = 0 \<longleftrightarrow> (\<forall>k < length ys. data_at d (start + i + k) = ys ! k)"
proof (induction ys arbitrary: i)
  case Nil
  show ?case by simp
next
  case (Cons y ys)
  have "(\<forall>k < length (y # ys). data_at d (start + i + k) = (y # ys) ! k) \<longleftrightarrow>
      data_at d (start + i) = y \<and> (\<forall>k < length ys. data_at d (start + Suc i + k) = ys ! k)"
    by (auto simp: All_less_Suc2)
  with Cons [of "i + 1"] show ?case by auto
qed

lemma first_diff_bound: "first_diff d start ys i \<le> i + length ys"
  by (induction ys arbitrary: i) (auto, metis add_Suc_right add_Suc)

lemma memcmp_loop_spec:
  assumes "chain h (Some q) qs" "\<forall>a \<in> set qs. pb_ok (the (h a))"
    and "unat start + unat i + length ys < 65536"
  shows "memcmp_loop q start ys i h = Some (of_nat (first_diff (chain_data h qs) (unat start) ys (unat i)))"
  using assms(3)
proof (induction ys arbitrary: i)
  case Nil
  show ?case by simp
next
  case (Cons y ys)
  then have u: "unat (start + i) = unat start + unat i" "unat (i + 1) = unat i + 1"
    by (simp_all add: unat_add_lt)
  with Cons.IH [of "i + 1"] Cons.prems show ?case
    by (simp add: pbuf_get_at_spec [OF assms(1,2)] data_at_def add.commute)
qed

lemma tot_ok_suffix: "tot_ok h (xs @ ys) \<Longrightarrow> tot_ok h ys"
  by (induction xs) simp_all

lemma packet_suffix:
  assumes "packet h p (xs @ a # ys)"
  shows "packet h (Some a) (a # ys)"
  using assms chain_suffix [of h p xs a ys] tot_ok_suffix [of h xs "a # ys"]
  unfolding packet_def by (metis Un_iff set_append)

lemma packet_length: "packet h (Some a) (a # as) \<Longrightarrow> unat (tot_len (the (h a))) = length (chain_data h (a # as))"
  by (simp add: packet_def)

lemma data_at_append: "data_at (xs @ ys) (length xs + i) = data_at ys i"
  by (simp add: data_at_def nth_append)

lemma first_diff_shift: "first_diff (xs @ d) (length xs + s) ys i = first_diff d s ys i"
  by (induction ys arbitrary: i) (simp_all add: add.assoc data_at_append)

lemma pbuf_memcmp_spec:
  assumes "packet h p as" "unat offset < length (chain_data h as)" "unat offset + length s2 < 65536"
  shows "pbuf_memcmp p offset s2 h = Some (of_nat (first_diff (chain_data h as) (unat offset) s2 0))"
proof -
  have c: "chain h p as" "\<forall>a \<in> set as. pb_ok (the (h a))" using assms(1) by (simp_all add: packet_def)
  with find_at_spec [OF c, of offset] assms(2) obtain xs a ys k where
    as: "as = xs @ a # ys" and f: "find_at offset p h = Some (Some a, k)"
      "unat offset = length (chain_data h xs) + unat k" by auto
  have "chain h (Some a) (a # ys)" "\<forall>x \<in> set (a # ys). pb_ok (the (h x))"
    using packet_suffix [of h p xs a ys] assms(1) as by (simp_all add: packet_def)
  then have "memcmp_loop a k s2 0 h = Some (of_nat (first_diff (chain_data h (a # ys)) (unat k) s2 0))"
    using memcmp_loop_spec [of h a "a # ys" k 0 s2] assms(3) f(2) by simp
  then show ?thesis
    using f first_diff_shift [of "chain_data h xs" "chain_data h (a # ys)" "unat k" s2 0]
    by (simp add: pbuf_memcmp_def as)
qed

definition found_at :: "bytes \<Rightarrow> bytes \<Rightarrow> nat \<Rightarrow> bool" where
  "found_at d mem i \<longleftrightarrow> i + length mem \<le> length d \<and> take (length mem) (drop i d) = mem"

lemma found_at_diff:
  assumes "i + length mem \<le> length d"
  shows "first_diff d i mem 0 = 0 \<longleftrightarrow> found_at d mem i"
  using assms by (auto simp: first_diff_0_iff found_at_def data_at_def list_eq_iff_nth_eq)

lemma memfind_loop_spec:
  assumes pk: "packet h (Some p) (p # as)" and mem: "mem \<noteq> []"
    and fits: "length mem \<le> length (chain_data h (p # as))"
    and last: "unat lst = length (chain_data h (p # as)) - length mem"
  shows "unat i \<le> unat lst + length mem \<Longrightarrow>
    \<exists>r. memfind_loop p mem lst i h = Some r \<and> (r = 0xFFFF \<or> found_at (chain_data h (p # as)) mem (unat r))"
proof (induction "65536 - unat i" arbitrary: i rule: less_induct)
  case less
  let ?d = "chain_data h (p # as)"
  have total: "length ?d < 65536" using pk by (rule chain_data_nth_bound)
  show ?case
  proof (cases "i \<le> lst")
    case False
    then show ?thesis by (subst memfind_loop.simps) simp
  next
    case True
    then have i: "unat i \<le> length ?d - length mem" using last by (simp add: word_le_nat_alt)
    have m: "0 < length mem" using mem by simp
    define k where "k = first_diff ?d (unat i) mem 0"
    have cmp: "pbuf_memcmp (Some p) i mem h = Some (of_nat k)"
      unfolding k_def using i m fits total by (intro pbuf_memcmp_spec [OF pk]) linarith+
    have kb: "k \<le> length mem" using first_diff_bound [of ?d "unat i" mem 0] by (simp add: k_def)
    have uk: "unat (of_nat k :: u16) = k"
      using kb fits total by (simp add: unat_of_nat take_bit_eq_mod)
    show ?thesis
    proof (cases "k = 0")
      case True
      then have "found_at ?d mem (unat i)" using found_at_diff [of "unat i" mem ?d] i fits by (simp add: k_def)
      then show ?thesis using \<open>i \<le> lst\<close> cmp True by (subst memfind_loop.simps) simp
    next
      case False
      then have nz: "(of_nat k :: u16) \<noteq> 0" using uk by (metis unat_0)
      have ui: "unat (i + of_nat k) = unat i + k"
        using uk kb i fits total by (subst unat_add_lt) simp_all
      have "65536 - unat (i + of_nat k) < 65536 - unat i" using False ui unat_word_less(2) [of i] by simp
      moreover have "unat (i + of_nat k) \<le> unat lst + length mem" using ui kb i last by simp
      ultimately have "\<exists>r. memfind_loop p mem lst (i + of_nat k) h = Some r \<and> (r = 0xFFFF \<or> found_at ?d mem (unat r))"
        by (rule less.hyps)
      then show ?thesis using \<open>i \<le> lst\<close> cmp nz by (subst memfind_loop.simps) simp
    qed
  qed
qed

section \<open>Releasing\<close>

text \<open>The pbufs at the head of a chain that nothing else refers to.\<close>

definition owned_prefix :: "pheap \<Rightarrow> nat list \<Rightarrow> nat list" where
  "owned_prefix h as = takeWhile (\<lambda>a. pb_ref (the (h a)) = 1) as"

definition free_heap :: "pheap \<Rightarrow> nat list \<Rightarrow> pheap" where
  "free_heap h as = (\<lambda>x.
     if x \<in> set (owned_prefix h as) then None
     else if length (owned_prefix h as) < length as \<and> x = as ! length (owned_prefix h as)
     then map_option (\<lambda>b. b\<lparr>pb_ref := pb_ref b - 1\<rparr>) (h x)
     else h x)"

lemma owned_prefix_frame: "(\<And>a. a \<in> set as \<Longrightarrow> h' a = h a) \<Longrightarrow> owned_prefix h' as = owned_prefix h as"
  unfolding owned_prefix_def by (rule takeWhile_cong) simp_all

lemma free_heap_Cons:
  assumes "h a = Some b" "pb_ref b = 1" "a \<notin> set as"
  shows "free_heap h (a # as) = free_heap (h(a := None)) as"
proof -
  have "owned_prefix h (a # as) = a # owned_prefix h as" using assms(1,2) by (simp add: owned_prefix_def)
  moreover have "owned_prefix (h(a := None)) as = owned_prefix h as"
    using assms(3) by (intro owned_prefix_frame) auto
  moreover have "length (owned_prefix h as) < length as \<Longrightarrow> as ! length (owned_prefix h as) \<noteq> a"
    using assms(3) by (metis nth_mem)
  ultimately show ?thesis by (auto simp: free_heap_def fun_eq_iff)
qed

lemma pbuf_free_loop_spec:
  "chain h p as \<Longrightarrow> pbuf_free_loop n p h = Some (n + of_nat (length (owned_prefix h as)), free_heap h as)"
proof (induction as arbitrary: h p n)
  case Nil
  have "free_heap h [] = h" by (simp add: free_heap_def owned_prefix_def)
  with Nil show ?case by (subst pbuf_free_loop.simps) (simp add: owned_prefix_def)
next
  case (Cons a as)
  then obtain b where b: "p = Some a" "h a = Some b" "chain h (pb_next b) as" by auto
  have a: "a \<notin> set as" using chain_distinct [OF Cons.prems] by simp
  show ?case
  proof (cases "pb_ref b = 1")
    case True
    have "chain (h(a := None)) (pb_next b) as" using b(3) a by (simp add: chain_upd)
    note IH = Cons.IH [OF this, of "n + 1"]
    have "owned_prefix (h(a := None)) as = owned_prefix h as" using a by (intro owned_prefix_frame) auto
    moreover have "owned_prefix h (a # as) = a # owned_prefix h as" using b True by (simp add: owned_prefix_def)
    moreover have "free_heap h (a # as) = free_heap (h(a := None)) as" using b(2) True a by (rule free_heap_Cons)
    moreover have "pbuf_free_loop n p h = pbuf_free_loop (n + 1) (pb_next b) (h(a := None))"
      using b True by (subst pbuf_free_loop.simps) simp
    ultimately show ?thesis unfolding IH by simp
  next
    case False
    then have "pb_ref b - 1 \<noteq> 0" by simp
    moreover have "owned_prefix h (a # as) = []" using b(2) False by (simp add: owned_prefix_def)
    moreover have "free_heap h (a # as) = h(a \<mapsto> b\<lparr>pb_ref := pb_ref b - 1\<rparr>)"
      using calculation(2) b(2) by (auto simp: free_heap_def fun_eq_iff)
    ultimately show ?thesis using b by (subst pbuf_free_loop.simps) (simp add: Let_def)
  qed
qed

lemma pbuf_free_spec:
  "chain h (Some a) as \<Longrightarrow> pbuf_free (Some a) h = Some (of_nat (length (owned_prefix h as)), free_heap h as)"
  by (simp add: pbuf_free_def pbuf_free_loop_spec)

lemma pbuf_free_sole:
  assumes "chain h (Some a) as" "\<forall>x \<in> set as. pb_ref (the (h x)) = 1"
  shows "pbuf_free (Some a) h = Some (of_nat (length as), \<lambda>x. if x \<in> set as then None else h x)"
proof -
  have "owned_prefix h as = as" using assms(2) by (simp add: owned_prefix_def)
  then have "free_heap h as = (\<lambda>x. if x \<in> set as then None else h x)" by (auto simp: free_heap_def fun_eq_iff)
  with \<open>owned_prefix h as = as\<close> show ?thesis using pbuf_free_spec [OF assms(1)] by simp
qed

lemma pbuf_clen_spec: "chain h p as \<Longrightarrow> pbuf_clen p h = Some (of_nat (length as))"
proof -
  have "chain h p as \<Longrightarrow> pbuf_clen_loop n p h = Some (n + of_nat (length as))" for n
    by (induction as arbitrary: p n) (subst pbuf_clen_loop.simps, force)+
  then show "chain h p as \<Longrightarrow> pbuf_clen p h = Some (of_nat (length as))" by (simp add: pbuf_clen_def)
qed

section \<open>Joining\<close>

text \<open>Pbufs that differ in their total only have the same bytes and the same links.\<close>

lemma cat_loop_spec:
  assumes "chain h (Some x) (xs @ [l])"
  shows "cat_loop t x h = Some (l, \<lambda>a. if a \<in> set xs then map_option (\<lambda>b. b\<lparr>tot_len := tot_len b + t\<rparr>) (h a) else h a)"
  using assms
proof (induction xs arbitrary: x h)
  case Nil
  then obtain b where "x = l" "h l = Some b" "pb_next b = None" by auto
  then show ?case by (subst cat_loop.simps) simp
next
  case (Cons a xs)
  then obtain b where b: "x = a" "h a = Some b" "chain h (pb_next b) (xs @ [l])" by auto
  have a: "a \<notin> set (xs @ [l])" using chain_distinct [OF Cons.prems] by simp
  obtain q where q: "pb_next b = Some q" using b(3) by (cases xs) auto
  let ?h = "h(a \<mapsto> b\<lparr>tot_len := tot_len b + t\<rparr>)"
  have "chain ?h (Some q) (xs @ [l])" using b(3) a q by (simp add: chain_upd)
  from Cons.IH [OF this] have "cat_loop t q ?h = Some (l, \<lambda>a'. if a' \<in> set xs
      then map_option (\<lambda>b. b\<lparr>tot_len := tot_len b + t\<rparr>) (?h a') else ?h a')" .
  also have "(\<lambda>a'. if a' \<in> set xs then map_option (\<lambda>b. b\<lparr>tot_len := tot_len b + t\<rparr>) (?h a') else ?h a')
      = (\<lambda>a'. if a' \<in> set (a # xs) then map_option (\<lambda>b. b\<lparr>tot_len := tot_len b + t\<rparr>) (h a') else h a')"
    using a b(2) by (auto simp: fun_eq_iff)
  finally have "cat_loop t q ?h = Some (l, \<lambda>a'. if a' \<in> set (a # xs)
      then map_option (\<lambda>b. b\<lparr>tot_len := tot_len b + t\<rparr>) (h a') else h a')" .
  moreover have "cat_loop t x h = cat_loop t q ?h" using b q by (subst cat_loop.simps) simp
  ultimately show ?case by (rule trans [rotated])
qed

lemma pb_bytes_upd [simp]:
  "pb_bytes (b\<lparr>tot_len := t\<rparr>) = pb_bytes b" "pb_bytes (b\<lparr>pb_next := n\<rparr>) = pb_bytes b" "pb_bytes (b\<lparr>pb_ref := r\<rparr>) = pb_bytes b"
  "pb_ok (b\<lparr>tot_len := t\<rparr>) = pb_ok b" "pb_ok (b\<lparr>pb_next := n\<rparr>) = pb_ok b" "pb_ok (b\<lparr>pb_ref := r\<rparr>) = pb_ok b"
  by (simp_all add: pb_bytes_def pb_ok_def split: option.split)

lemma packet_Cons:
  "packet h p (a # as) \<longleftrightarrow> p = Some a \<and> (\<exists>b. h a = Some b \<and> pb_ok b \<and>
     unat (tot_len b) = length (pb_bytes b @ chain_data h as) \<and> packet h (pb_next b) as)"
  by (auto simp: packet_def)

lemma packet_Nil [simp]: "packet h p [] \<longleftrightarrow> p = None"
  by (simp add: packet_def)

lemma packet_Some:
  assumes "packet h (Some a) as"
  obtains b bs where "as = a # bs" "h a = Some b" "pb_ok b"
    "unat (tot_len b) = length (pb_bytes b @ chain_data h bs)" "packet h (pb_next b) bs"
proof (cases as)
  case Nil
  with assms show thesis by simp
next
  case (Cons a' bs)
  with assms [unfolded Cons packet_Cons] that show thesis by blast
qed

lemma packet_alloc: "packet h p as \<Longrightarrow> a \<in> set as \<Longrightarrow> \<exists>b. h a = Some b \<and> pb_ok b"
  unfolding packet_def by (metis chain_alloc option.sel)

lemma packet_join:
  assumes "packet h p (xs @ [l])" "packet h (Some y) ys"
    and tail: "\<And>a. a \<in> set ys \<Longrightarrow> h' a = h a"
    and head: "\<And>a. a \<in> set xs \<Longrightarrow> h' a = map_option (\<lambda>b. b\<lparr>tot_len := tot_len b + t\<rparr>) (h a)"
    and link: "h' l = map_option (\<lambda>b. b\<lparr>tot_len := tot_len b + t, pb_next := Some y\<rparr>) (h l)"
    and t: "unat t = length (chain_data h ys)"
    and total: "length (chain_data h (xs @ [l])) + length (chain_data h ys) < 65536"
  shows "packet h' p (xs @ l # ys) \<and> chain_data h' (xs @ l # ys) = chain_data h (xs @ [l]) @ chain_data h ys"
  using assms(1) head total
proof (induction xs arbitrary: p)
  case Nil
  have "packet h' (Some y) ys" using assms(2) tail packet_frame by blast
  moreover have "chain_data h' ys = chain_data h ys" using tail by (rule chain_data_frame)
  ultimately show ?case
    using Nil link t by (auto simp: packet_Cons unat_add_lt)
next
  case (Cons a xs)
  then obtain b where b: "p = Some a" "h a = Some b" "pb_ok b"
    "unat (tot_len b) = length (pb_bytes b @ chain_data h (xs @ [l]))" "packet h (pb_next b) (xs @ [l])"
    by (auto simp: packet_Cons)
  have IH: "packet h' (pb_next b) (xs @ l # ys)" "chain_data h' (xs @ l # ys) = chain_data h (xs @ [l]) @ chain_data h ys"
    using Cons.IH [OF b(5)] Cons.prems(2,3) by auto
  have "unat (tot_len b + t) = unat (tot_len b) + unat t"
    using b(2,4) t Cons.prems(3) by (intro unat_add_lt) simp
  with IH b Cons.prems(2) [of a] t show ?case by (simp add: packet_Cons)
qed

lemma pbuf_cat_spec:
  assumes "packet h (Some x) xs" "packet h (Some y) ys" "set xs \<inter> set ys = {}"
    and "length (chain_data h xs) + length (chain_data h ys) < 65536"
  shows "\<exists>h'. pbuf_cat (Some x) (Some y) h = Some h' \<and> packet h' (Some x) (xs @ ys) \<and>
    chain_data h' (xs @ ys) = chain_data h xs @ chain_data h ys \<and>
    (\<forall>a. a \<notin> set xs \<longrightarrow> h' a = h a) \<and> (\<forall>a. map_option pb_ref (h' a) = map_option pb_ref (h a))"
proof -
  have "xs \<noteq> []" using assms(1) by auto
  then obtain zs l where xs: "xs = zs @ [l]" by (metis append_butlast_last_id)
  have dist: "distinct (zs @ [l])" using assms(1) chain_distinct [of h "Some x" xs] by (simp add: packet_def xs)
  obtain tb where tb: "h y = Some tb" and t: "unat (tot_len tb) = length (chain_data h ys)"
    using assms(2) by (elim packet_Some) simp
  define h1 where "h1 = (\<lambda>a. if a \<in> set zs then map_option (\<lambda>b. b\<lparr>tot_len := tot_len b + tot_len tb\<rparr>) (h a) else h a)"
  have loop: "cat_loop (tot_len tb) x h = Some (l, h1)"
    using assms(1) by (simp add: packet_def xs cat_loop_spec h1_def)
  obtain bl where bl: "h l = Some bl" "h1 l = Some bl"
    using packet_alloc [OF assms(1), of l] dist by (auto simp: xs h1_def)
  define h' where "h' = h1(l \<mapsto> bl\<lparr>tot_len := tot_len bl + tot_len tb, pb_next := Some y\<rparr>)"
  have "pbuf_cat (Some x) (Some y) h = Some h'" using tb loop bl by (simp add: pbuf_cat_def h'_def)
  moreover have "packet h' (Some x) (zs @ l # ys) \<and> chain_data h' (zs @ l # ys) = chain_data h (zs @ [l]) @ chain_data h ys"
    using assms dist t bl by (intro packet_join [where t = "tot_len tb"]) (auto simp: xs h'_def h1_def)
  moreover have "h' a = h a" if "a \<notin> set xs" for a using that by (simp add: h'_def h1_def xs)
  moreover have "map_option pb_ref (h' a) = map_option pb_ref (h a)" for a
    using bl by (auto simp: h'_def h1_def option.map_comp comp_def)
  ultimately show ?thesis by (auto simp: xs)
qed

section \<open>Filling\<close>

lemma pb_write_ok:
  assumes "pb_ok b" "length bs \<le> unat (pb_len b)"
  shows "\<exists>m. pb_write b 0 bs = Some (b\<lparr>pb_mem := m\<rparr>) \<and> pb_ok (b\<lparr>pb_mem := m\<rparr>) \<and>
    pb_bytes (b\<lparr>pb_mem := m\<rparr>) = bs @ drop (length bs) (pb_bytes b)"
proof -
  obtain pos where pos: "pb_payload b = Some pos" "0 \<le> pos" "nat pos + unat (pb_len b) \<le> length (pb_mem b)"
    using assms(1) by (auto simp: pb_ok_def split: option.splits)
  let ?m = "take (nat pos) (pb_mem b) @ bs @ drop (nat pos + length bs) (pb_mem b)"
  have "pb_write b 0 bs = Some (b\<lparr>pb_mem := ?m\<rparr>)" using pos assms(2) by (simp add: pb_write_def Let_def)
  moreover have "pb_ok (b\<lparr>pb_mem := ?m\<rparr>)" using pos assms(2) by (simp add: pb_ok_def)
  moreover have "pb_bytes (b\<lparr>pb_mem := ?m\<rparr>) = bs @ drop (length bs) (pb_bytes b)"
    using pos assms(2) by (simp add: pb_bytes_def drop_take add.commute)
  ultimately show ?thesis by blast
qed

lemma packet_upd [simp]:
  "a \<notin> set as \<Longrightarrow> packet (h(a := v)) p as = packet h p as"
  "a \<notin> set as \<Longrightarrow> chain_data (h(a := v)) as = chain_data h as"
  by (rule packet_frame chain_data_frame, auto)+

lemma take_loop_spec:
  assumes "packet h p as" "unat n \<le> length (chain_data h as)" "unat c + unat n \<le> length d" "length d < 65536"
  shows "\<exists>h'. take_loop d c n p h = Some h' \<and> packet h' p as \<and>
    chain_data h' as = take (unat n) (drop (unat c) d) @ drop (unat n) (chain_data h as) \<and>
    (\<forall>a. a \<notin> set as \<longrightarrow> h' a = h a)"
  using assms
proof (induction as arbitrary: h p n c)
  case Nil
  then have "n = 0" by (simp add: unat_eq_0)
  with Nil show ?case by (subst take_loop.simps) simp
next
  case (Cons a as)
  show ?case
  proof (cases "n = 0")
    case True
    then show ?thesis using Cons.prems by (subst take_loop.simps) simp
  next
    case False
    from Cons.prems(1) obtain b where b: "p = Some a" "h a = Some b" "pb_ok b"
      "unat (tot_len b) = length (pb_bytes b @ chain_data h as)" "packet h (pb_next b) as"
      by (auto simp: packet_Cons)
    have a: "a \<notin> set as" using Cons.prems(1) chain_distinct [of h p "a # as"] by (simp add: packet_def)
    define k where "k = (if n > pb_len b then pb_len b else n)"
    have uk: "unat k = min (unat n) (unat (pb_len b))" by (auto simp: k_def word_less_nat_alt min_def)
    have u: "unat (n - k) = unat n - unat k" "unat (c + k) = unat c + unat k"
      using uk Cons.prems(3,4) by (simp_all add: unat_sub word_le_nat_alt unat_add_lt)
    let ?bs = "take (unat k) (drop (unat c) d)"
    have lb: "length ?bs = unat k" using Cons.prems(3) uk by simp
    obtain m where m: "pb_write b 0 ?bs = Some (b\<lparr>pb_mem := m\<rparr>)" "pb_ok (b\<lparr>pb_mem := m\<rparr>)"
      "pb_bytes (b\<lparr>pb_mem := m\<rparr>) = ?bs @ drop (unat k) (pb_bytes b)"
      using pb_write_ok [OF b(3), of ?bs] lb uk by auto
    let ?h = "h(a \<mapsto> b\<lparr>pb_mem := m\<rparr>)"
    have fr: "packet ?h (pb_next b) as" "chain_data ?h as = chain_data h as"
      using a b(5) by simp_all
    have "unat (n - k) \<le> length (chain_data ?h as)" "unat (c + k) + unat (n - k) \<le> length d"
      using Cons.prems(2,3) u uk b(2,3) fr(2) by auto
    from Cons.IH [OF fr(1) this Cons.prems(4)] obtain h' where h':
      "take_loop d (c + k) (n - k) (pb_next b) ?h = Some h'" "packet h' (pb_next b) as"
      "chain_data h' as = take (unat n - unat k) (drop (unat c + unat k) d) @ drop (unat n - unat k) (chain_data h as)"
      "\<forall>x. x \<notin> set as \<longrightarrow> h' x = ?h x"
      unfolding u fr(2) by blast
    have ha: "h' a = Some (b\<lparr>pb_mem := m\<rparr>)" using h'(4) a by simp
    have "take_loop d c n p h = Some h'"
      using b False m h'(1) by (subst take_loop.simps) (simp add: k_def [symmetric] Let_def)
    moreover have "length (chain_data h' as) = length (chain_data h as)"
      using h'(3) Cons.prems(2,3) uk b(2,3) by auto
    then have "packet h' p (a # as)"
      using b h'(2) ha m(2) by (simp add: packet_Cons)
    moreover have "chain_data h' (a # as) = take (unat n) (drop (unat c) d) @ drop (unat n) (chain_data h (a # as))"
    proof (cases "unat n \<le> unat (pb_len b)")
      case True
      then show ?thesis using uk ha m(3) h'(3) b(2,3) by simp
    next
      case False
      then have k': "unat k = unat (pb_len b)" using uk by simp
      then have "take (unat n) (drop (unat c) d) = ?bs @ take (unat n - unat k) (drop (unat c + unat k) d)"
        using False take_add [of "unat k" "unat n - unat k" "drop (unat c) d"] by (simp add: add.commute)
      then show ?thesis using k' False ha m(3) h'(3) b(2,3) by simp
    qed
    moreover have "\<forall>x. x \<notin> set (a # as) \<longrightarrow> h' x = h x" using h'(4) by simp
    ultimately show ?thesis by blast
  qed
qed

lemma copy_partial_all:
  assumes "packet h p as" "length (chain_data h as) \<le> length d" "length d < 65536"
  shows "pbuf_copy_partial p d (of_nat (length d)) 0 h =
    Some (of_nat (length (chain_data h as)), chain_data h as @ drop (length (chain_data h as)) d)"
proof (cases p)
  case None
  then have "as = []" using assms(1) by (cases as) (auto simp: packet_Cons)
  with None show ?thesis by (simp add: pbuf_copy_partial_def)
next
  case (Some a)
  have "unat (of_nat (length d) :: u16) = length d" using assms(3) by (simp add: unat_of_nat take_bit_eq_mod)
  with Some assms show ?thesis
    using copy_partial_loop_spec [of h p as 0 "of_nat (length d)" d 0]
    by (simp add: pbuf_copy_partial_def packet_def Let_def)
qed

section \<open>Headers\<close>

text \<open>Moving the payload pointer of the first pbuf of a packet.\<close>

lemma pbuf_header_hide:
  assumes "packet h (Some a) (a # as)" "0 < n" "n \<le> length (pb_bytes (the (h a)))"
  shows "\<exists>h'. pbuf_header (Some a) (- int n) h = Some (0, h') \<and> packet h' (Some a) (a # as) \<and>
    chain_data h' (a # as) = drop n (chain_data h (a # as)) \<and> (\<forall>x. x \<noteq> a \<longrightarrow> h' x = h x)"
proof -
  obtain b where b: "h a = Some b" "pb_ok b" "unat (tot_len b) = length (pb_bytes b @ chain_data h as)"
    "packet h (pb_next b) as" using assms(1) by (auto simp: packet_Cons)
  obtain pos where pos: "pb_payload b = Some pos" "0 \<le> pos" "nat pos + unat (pb_len b) \<le> length (pb_mem b)"
    using b(2) by (auto simp: pb_ok_def split: option.splits)
  have n: "n \<le> unat (pb_len b)" using assms(3) b by simp
  have a: "a \<notin> set as" using assms(1) chain_distinct [of h "Some a" "a # as"] by (simp add: packet_def)
  define b' where "b' = b\<lparr>pb_payload := Some (pos + int n), pb_len := pb_len b - of_nat n, tot_len := tot_len b - of_nat n\<rparr>"
  have "n < 65536" using n unat_word_less(2) [of "pb_len b"] by simp
  then have un: "unat (of_nat n :: u16) = n" by (simp add: unat_of_nat take_bit_eq_mod)
  have u: "unat (pb_len b') = unat (pb_len b) - n" "unat (tot_len b') = unat (tot_len b) - n"
    using n un b(2,3) by (simp_all add: b'_def unat_sub word_le_nat_alt)
  have "pbuf_header (Some a) (- int n) h = Some (0, h(a \<mapsto> b'))"
    using assms(2) b(1) pos n by (cases "pb_type b") (simp_all add: pbuf_header_def b'_def Let_def)
  moreover have ok: "pb_ok b'" "pb_bytes b' = drop n (pb_bytes b)"
    using pos u(1) n by (auto simp: pb_ok_def pb_bytes_def b'_def nat_add_distrib drop_take add.commute)
  moreover have "packet (h(a \<mapsto> b')) (pb_next b) as" "chain_data (h(a \<mapsto> b')) as = chain_data h as"
    using a b(4) by simp_all
  ultimately show ?thesis
    using b u n by (intro exI [of _ "h(a \<mapsto> b')"]) (simp add: packet_Cons b'_def)
qed

lemma pbuf_header_reveal:
  assumes "packet h (Some a) (a # as)" "h a = Some b" "pb_type b = PBUF_RAM \<or> pb_type b = PBUF_POOL"
    and "pb_payload b = Some pos" "0 < n" "int n \<le> pos" "length (chain_data h (a # as)) + n < 65536"
  shows "\<exists>h'. pbuf_header (Some a) (int n) h = Some (0, h') \<and> packet h' (Some a) (a # as) \<and>
    chain_data h' (a # as) = take n (drop (nat pos - n) (pb_mem b)) @ chain_data h (a # as) \<and> (\<forall>x. x \<noteq> a \<longrightarrow> h' x = h x)"
proof -
  have b: "pb_ok b" "unat (tot_len b) = length (pb_bytes b @ chain_data h as)" "packet h (pb_next b) as"
    using assms(1,2) by (auto simp: packet_Cons)
  have pos: "0 \<le> pos" "nat pos + unat (pb_len b) \<le> length (pb_mem b)"
    using b(1) assms(4) by (auto simp: pb_ok_def)
  have a: "a \<notin> set as" using assms(1) chain_distinct [of h "Some a" "a # as"] by (simp add: packet_def)
  define b' where "b' = b\<lparr>pb_payload := Some (pos - int n), pb_len := pb_len b + of_nat n, tot_len := tot_len b + of_nat n\<rparr>"
  have un: "unat (of_nat n :: u16) = n" using assms(7) by (simp add: unat_of_nat take_bit_eq_mod)
  have u: "unat (pb_len b') = unat (pb_len b) + n" "unat (tot_len b') = unat (tot_len b) + n"
    using un b(1,2) assms(2,7) by (simp_all add: b'_def unat_add_lt)
  have hdr: "pbuf_header (Some a) (int n) h = Some (0, h(a \<mapsto> b'))"
    using assms(2-6) by (auto simp: pbuf_header_def b'_def Let_def)
  have np: "nat (pos - int n) = nat pos - n" "n \<le> nat pos" using assms(6) by auto
  have "take (unat (pb_len b) + n) (drop (nat pos - n) (pb_mem b))
      = take n (drop (nat pos - n) (pb_mem b)) @ take (unat (pb_len b)) (drop (nat pos) (pb_mem b))"
    using take_add [of n "unat (pb_len b)" "drop (nat pos - n) (pb_mem b)"] np by (simp add: add.commute)
  then have bytes: "pb_bytes b' = take n (drop (nat pos - n) (pb_mem b)) @ pb_bytes b"
    using u(1) np(1) assms(4) by (simp add: pb_bytes_def) (simp add: b'_def)
  have ok: "pb_ok b'" using pos np assms(6) u(1) by (simp add: pb_ok_def b'_def)
  have fr: "packet (h(a \<mapsto> b')) (pb_next b) as" "chain_data (h(a \<mapsto> b')) as = chain_data h as"
    using a b(3) by simp_all
  have "pb_next b' = pb_next b" by (simp add: b'_def)
  with fr ok bytes hdr u b assms(2) pos np show ?thesis
    by (intro exI [of _ "h(a \<mapsto> b')"]) (simp add: packet_Cons)
qed

section \<open>Shrinking\<close>

lemma packet_cut:
  assumes "packet h p (xs @ l # ys)" "r \<le> length (pb_bytes (the (h l)))"
    and head: "\<And>a. a \<in> set xs \<Longrightarrow> h' a = map_option (\<lambda>b. b\<lparr>tot_len := tot_len b - of_nat k\<rparr>) (h a)"
    and last: "h' l = map_option (\<lambda>b. b\<lparr>pb_len := of_nat r, tot_len := of_nat r, pb_next := None\<rparr>) (h l)"
    and k: "k = length (pb_bytes (the (h l))) + length (chain_data h ys) - r"
  shows "packet h' p (xs @ [l]) \<and>
    chain_data h' (xs @ [l]) = take (length (chain_data h xs) + r) (chain_data h (xs @ l # ys))"
  using assms(1) head
proof (induction xs arbitrary: p)
  case Nil
  then obtain b where b: "p = Some l" "h l = Some b" "pb_ok b" by (auto simp: packet_Cons)
  have r: "r \<le> unat (pb_len b)" using assms(2) b by simp
  then have "unat (of_nat r :: u16) = r"
    using unat_word_less(2) [of "pb_len b"] by (simp add: unat_of_nat take_bit_eq_mod)
  moreover from this r b(3) have "pb_ok (b\<lparr>pb_len := of_nat r, tot_len := of_nat r, pb_next := None\<rparr>)"
    by (auto simp: pb_ok_def split: option.splits)
  moreover from calculation(1) r have
    "pb_bytes (b\<lparr>pb_len := of_nat r, tot_len := of_nat r, pb_next := None\<rparr>) = take r (pb_bytes b)"
    by (simp add: pb_bytes_def min_def)
  ultimately show ?case using last b r by (simp add: packet_Cons)
next
  case (Cons a xs)
  then obtain b where b: "p = Some a" "h a = Some b" "pb_ok b"
    "unat (tot_len b) = length (pb_bytes b @ chain_data h (xs @ l # ys))" "packet h (pb_next b) (xs @ l # ys)"
    by (auto simp: packet_Cons)
  have IH: "packet h' (pb_next b) (xs @ [l])"
    "chain_data h' (xs @ [l]) = take (length (chain_data h xs) + r) (chain_data h (xs @ l # ys))"
    using Cons.IH [OF b(5)] Cons.prems(2) by auto
  have kb: "k \<le> unat (tot_len b)" using b(4) k by simp
  then have "unat (of_nat k :: u16) = k"
    using unat_word_less(2) [of "tot_len b"] by (simp add: unat_of_nat take_bit_eq_mod)
  with kb have "unat (tot_len b - of_nat k) = unat (tot_len b) - k" by (simp add: unat_sub word_le_nat_alt)
  moreover have "length (chain_data h (xs @ l # ys)) - k = length (chain_data h xs) + r"
    "length (chain_data h xs) + r \<le> length (chain_data h (xs @ l # ys))"
    using k assms(2) by simp_all
  ultimately show ?case
    using IH b Cons.prems(2) [of a] assms(2) k by (simp add: packet_Cons min_def)
qed

lemma realloc_loop_spec:
  assumes "packet h (Some q) as" "unat rem \<le> length (chain_data h as)"
  shows "\<exists>xs l ys r. as = xs @ l # ys \<and> unat rem = length (chain_data h xs) + unat r \<and>
    unat r \<le> length (pb_bytes (the (h l))) \<and>
    realloc_loop g rem q h = Some (r, l, \<lambda>a. if a \<in> set xs then map_option (\<lambda>b. b\<lparr>tot_len := tot_len b + g\<rparr>) (h a) else h a)"
  using assms
proof (induction as arbitrary: q rem h)
  case Nil
  then show ?case by simp
next
  case (Cons a as)
  from Cons.prems(1) obtain b where b: "q = a" "h a = Some b" "pb_ok b" "packet h (pb_next b) as"
    by (auto simp: packet_Cons)
  have a: "a \<notin> set as" using Cons.prems(1) chain_distinct [of h "Some q" "a # as"] by (simp add: packet_def)
  show ?case
  proof (cases "rem > pb_len b")
    case False
    then have "unat rem \<le> unat (pb_len b)" by (simp add: not_less word_le_nat_alt)
    moreover have "realloc_loop g rem q h = Some (rem, a, h)" using b False by (subst realloc_loop.simps) simp
    ultimately show ?thesis using b by (intro exI [of _ "[]"] exI [of _ a] exI [of _ as] exI [of _ rem]) simp
  next
    case True
    then have lt: "unat (pb_len b) < unat rem" by (simp add: word_less_nat_alt)
    then have u: "unat (rem - pb_len b) = unat rem - unat (pb_len b)" by (simp add: unat_sub word_le_nat_alt)
    let ?h = "h(a \<mapsto> b\<lparr>tot_len := tot_len b + g\<rparr>)"
    have "as \<noteq> []" using Cons.prems(2) lt b by auto
    then obtain q' as' where q': "pb_next b = Some q'" "as = q' # as'"
      using b(4) by (cases as) (auto simp: packet_Cons)
    have "packet ?h (Some q') as" "unat (rem - pb_len b) \<le> length (chain_data ?h as)"
      using a b q'(1) Cons.prems(2) u by simp_all
    from Cons.IH [OF this] obtain xs l ys r where r: "as = xs @ l # ys"
      "unat (rem - pb_len b) = length (chain_data ?h xs) + unat r" "unat r \<le> length (pb_bytes (the (?h l)))"
      "realloc_loop g (rem - pb_len b) q' ?h
        = Some (r, l, \<lambda>x. if x \<in> set xs then map_option (\<lambda>b. b\<lparr>tot_len := tot_len b + g\<rparr>) (?h x) else ?h x)"
      by blast
    have "(\<lambda>x. if x \<in> set xs then map_option (\<lambda>b. b\<lparr>tot_len := tot_len b + g\<rparr>) (?h x) else ?h x)
        = (\<lambda>x. if x \<in> set (a # xs) then map_option (\<lambda>b. b\<lparr>tot_len := tot_len b + g\<rparr>) (h x) else h x)"
      using a r(1) b(2) by (auto simp: fun_eq_iff)
    moreover have "realloc_loop g rem q h = realloc_loop g (rem - pb_len b) q' ?h"
      using b q' True by (subst realloc_loop.simps) simp
    ultimately have "realloc_loop g rem q h
        = Some (r, l, \<lambda>x. if x \<in> set (a # xs) then map_option (\<lambda>b. b\<lparr>tot_len := tot_len b + g\<rparr>) (h x) else h x)"
      using r(4) by simp
    moreover have "a \<noteq> l" "a \<notin> set xs" using a r(1) by auto
    then have "unat rem = length (chain_data h (a # xs)) + unat r" "unat r \<le> length (pb_bytes (the (h l)))"
      using r(2,3) u lt b by simp_all
    moreover have "a # as = (a # xs) @ l # ys" using r(1) by simp
    ultimately show ?thesis by blast
  qed
qed

lemma pbuf_realloc_spec:
  assumes "packet h (Some p) as" "\<forall>a \<in> set as. pb_ref (the (h a)) = 1" "unat n \<le> length (chain_data h as)"
  shows "\<exists>h' xs ys. pbuf_realloc p n h = Some h' \<and> as = xs @ ys \<and> packet h' (Some p) xs \<and>
    chain_data h' xs = take (unat n) (chain_data h as) \<and>
    (\<forall>a. h' a = None \<longleftrightarrow> a \<in> set ys \<or> h a = None) \<and> (\<forall>a. a \<notin> set as \<longrightarrow> h' a = h a)"
proof -
  obtain b0 bs0 where b0: "h p = Some b0" "unat (tot_len b0) = length (chain_data h as)"
    using assms(1) by (elim packet_Some) simp
  show ?thesis
  proof (cases "n \<ge> tot_len b0")
    case True
    then have "length (chain_data h as) \<le> unat n" using b0 by (simp add: word_le_nat_alt)
    then have "take (unat n) (chain_data h as) = chain_data h as" by simp
    moreover have "pbuf_realloc p n h = Some h" using True b0 by (simp add: pbuf_realloc_def)
    ultimately show ?thesis using assms(1) by (intro exI [of _ h] exI [of _ as] exI [of _ "[]"]) simp
  next
    case False
    let ?g = "n - tot_len b0"
    obtain xs l ys r where r: "as = xs @ l # ys" "unat n = length (chain_data h xs) + unat r"
      "unat r \<le> length (pb_bytes (the (h l)))"
      and loop: "realloc_loop ?g n p h = Some (r, l, \<lambda>a. if a \<in> set xs then map_option (\<lambda>b. b\<lparr>tot_len := tot_len b + ?g\<rparr>) (h a) else h a)"
      using realloc_loop_spec [OF assms(1,3)] by blast
    define h1 where "h1 = (\<lambda>a. if a \<in> set xs then map_option (\<lambda>b. b\<lparr>tot_len := tot_len b + ?g\<rparr>) (h a) else h a)"
    have dist: "distinct as" using assms(1) chain_distinct by (auto simp: packet_def)
    obtain b where b: "h l = Some b" "packet h (pb_next b) ys" "h1 l = Some b"
      using packet_suffix [of h "Some p" xs l ys] assms(1) r(1) dist by (auto simp: packet_Cons h1_def)
    define h2 where "h2 = h1(l \<mapsto> b\<lparr>pb_len := r, tot_len := r\<rparr>)"
    have ys: "chain h2 (pb_next b) ys" "\<forall>a \<in> set ys. pb_ref (the (h2 a)) = 1"
    proof -
      have "h2 a = h a" if "a \<in> set ys" for a using that dist r(1) by (auto simp: h2_def h1_def)
      then show "chain h2 (pb_next b) ys" "\<forall>a \<in> set ys. pb_ref (the (h2 a)) = 1"
        using b(2) chain_frame [of ys h2 h] assms(2) r(1) by (auto simp: packet_def)
    qed
    define h3 where "h3 = (\<lambda>x. if x \<in> set ys then None else h2 x)"
    have free: "(if pb_next b \<noteq> None then do { (_, h) \<leftarrow> pbuf_free (pb_next b) h2; Some h } else Some h2) = Some h3"
    proof (cases "pb_next b")
      case None
      then have "ys = []" using b(2) by (cases ys) (auto simp: packet_Cons)
      then show ?thesis using None by (simp add: h3_def)
    next
      case (Some q)
      then show ?thesis using pbuf_free_sole [of h2 q ys] ys by (simp add: h3_def)
    qed
    have l3: "h3 l = Some (b\<lparr>pb_len := r, tot_len := r\<rparr>)" using dist r(1) by (simp add: h3_def h2_def)
    define h' where "h' = h3(l \<mapsto> b\<lparr>pb_len := r, tot_len := r, pb_next := None\<rparr>)"
    have run: "pbuf_realloc p n h = Some h'"
      using b0(1) False loop b(3) free l3
      by (cases "pb_next b")
        (auto simp: pbuf_realloc_def h1_def [symmetric] h2_def [symmetric] h'_def Let_def bind_eq_Some_conv)
    define k where "k = length (pb_bytes (the (h l))) + length (chain_data h ys) - unat r"
    have k: "unat n + k = unat (tot_len b0)" using b0(2) r by (simp add: k_def)
    have "of_nat (unat n + k) = (of_nat (unat (tot_len b0)) :: u16)" by (simp only: k)
    then have g: "?g = - of_nat k" by (simp add: algebra_simps)
    have "packet h' (Some p) (xs @ [l]) \<and>
        chain_data h' (xs @ [l]) = take (length (chain_data h xs) + unat r) (chain_data h (xs @ l # ys))"
    proof (rule packet_cut [where k = k])
      show "packet h (Some p) (xs @ l # ys)" using assms(1) r(1) by simp
      show "h' a = map_option (\<lambda>b. b\<lparr>tot_len := tot_len b - of_nat k\<rparr>) (h a)" if "a \<in> set xs" for a
        using that dist r(1) g by (auto simp: h'_def h3_def h2_def h1_def)
      show "h' l = map_option (\<lambda>b. b\<lparr>pb_len := of_nat (unat r), tot_len := of_nat (unat r), pb_next := None\<rparr>) (h l)"
        using b(1) by (simp add: h'_def)
    qed (use r(3) in \<open>simp_all add: k_def\<close>)
    moreover have "h' a = None \<longleftrightarrow> a \<in> set ys \<or> h a = None" for a
      using b(1) dist r(1) by (auto simp: h'_def h3_def h2_def h1_def)
    moreover have "h' a = h a" if "a \<notin> set as" for a
      using that r(1) by (auto simp: h'_def h3_def h2_def h1_def)
    ultimately show ?thesis
      using run r(1,2) by (intro exI [of _ h'] exI [of _ "xs @ [l]"] exI [of _ ys]) simp
  qed
qed

section \<open>Allocating\<close>

text \<open>What the module relies on from \<open>malloc\<close>: a block that is not null is new and has the size asked for.\<close>

definition malloc_fresh :: "malloc \<Rightarrow> bool" where
  "malloc_fresh mal \<longleftrightarrow> (\<forall>n h p blk. mal n h = Some (p, blk) \<longrightarrow> h p = None \<and> length blk = n)"

lemma pool_sizes [simp]: "PBUF_POOL_BUFSIZE = 1516" "SIZEOF_STRUCT_PBUF = 20"
  by (simp_all add: PBUF_POOL_BUFSIZE_def SIZEOF_STRUCT_PBUF_def LWIP_MEM_ALIGN_SIZE_def MEM_ALIGNMENT_def PBUF_LINK_HLEN_def)

lemma chain_snoc:
  assumes "chain h p (xs @ [r])" "h r = Some b" "q \<notin> set (xs @ [r])" "h' q = Some b'" "pb_next b' = None"
    and "h' r = Some (b\<lparr>pb_next := Some q\<rparr>)" "\<And>a. a \<in> set xs \<Longrightarrow> h' a = h a"
  shows "chain h' p (xs @ [r, q])"
  using assms(1,7)
proof (induction xs arbitrary: p)
  case Nil
  then show ?case using assms(2-6) by simp
next
  case (Cons a xs)
  then show ?case by auto
qed


lemma pool_tail_spec:
  assumes "malloc_fresh mal"
  shows "h r = Some b \<Longrightarrow> pb_next b = None \<Longrightarrow> chain h (Some p) (xs @ [r]) \<Longrightarrow>
    \<forall>a \<in> set (xs @ [r]). pb_ref (the (h a)) = 1 \<Longrightarrow> n < 65536 \<Longrightarrow>
    (\<exists>h' qs. pool_tail mal p r n h = Some (True, h') \<and>
       h' r = Some (b\<lparr>pb_next := case qs of [] \<Rightarrow> None | q # _ \<Rightarrow> Some q\<rparr>) \<and>
       packet h' (case qs of [] \<Rightarrow> None | q # _ \<Rightarrow> Some q) qs \<and> length (chain_data h' qs) = n \<and>
       (\<forall>a \<in> set qs. h a = None \<and> pb_ref (the (h' a)) = 1) \<and> (\<forall>a. a \<notin> set qs \<and> a \<noteq> r \<longrightarrow> h' a = h a))
    \<or> pool_tail mal p r n h = Some (False, \<lambda>x. if x \<in> set (xs @ [r]) then None else h x)"
proof (induction n arbitrary: h r b xs rule: less_induct)
  case (less n)
  show ?case
  proof (cases "n = 0")
    case True
    then show ?thesis
      using less.prems by (subst (1 2) pool_tail.simps) (intro disjI1 exI [of _ h] exI [of _ "[]"], simp)
  next
    case False
    show ?thesis
    proof (cases "mal (SIZEOF_STRUCT_PBUF + PBUF_POOL_BUFSIZE) h")
      case None
      have "pbuf_free (Some p) h = Some (of_nat (length (xs @ [r])), \<lambda>x. if x \<in> set (xs @ [r]) then None else h x)"
        using less.prems(3,4) by (rule pbuf_free_sole)
      then have "pool_tail mal p r n h = Some (False, \<lambda>x. if x \<in> set (xs @ [r]) then None else h x)"
        using False None by (subst pool_tail.simps) simp
      then show ?thesis by (rule disjI2)
    next
      case (Some q')
      obtain q blk where q: "mal (SIZEOF_STRUCT_PBUF + PBUF_POOL_BUFSIZE) h = Some (q, blk)" using Some by (cases q') auto
      then have fresh: "h q = None" "length blk = 1536" using assms by (auto simp: malloc_fresh_def)
      define m where "m = min n PBUF_POOL_BUFSIZE"
      define bq where "bq = \<lparr>pb_next = None, pb_payload = Some 0, tot_len = of_nat n, pb_len = of_nat m,
        pb_type = PBUF_POOL, pb_flags = 0, pb_ref = 1, pb_mem = drop SIZEOF_STRUCT_PBUF blk\<rparr>"
      define h1 where "h1 = h(r \<mapsto> b\<lparr>pb_next := Some q\<rparr>, q \<mapsto> bq)"
      have step: "pool_tail mal p r n h = pool_tail mal p q (n - m) h1"
        using False q less.prems(1) by (subst pool_tail.simps) (simp add: m_def h1_def bq_def Let_def)
      have qn: "q \<noteq> r" "q \<notin> set xs"
        using fresh(1) less.prems(1) chain_alloc [OF less.prems(3), of q] by auto
      have rx: "r \<notin> set xs" using chain_distinct [OF less.prems(3)] by simp
      have c1: "chain h1 (Some p) ((xs @ [r]) @ [q])"
      proof -
        have "chain h1 (Some p) (xs @ [r, q])"
        proof (rule chain_snoc [OF less.prems(3,1)])
          show "q \<notin> set (xs @ [r])" using qn by simp
          show "h1 q = Some bq" "pb_next bq = None" by (simp_all add: h1_def bq_def)
          show "h1 r = Some (b\<lparr>pb_next := Some q\<rparr>)" using qn by (simp add: h1_def)
          show "h1 a = h a" if "a \<in> set xs" for a using that qn rx by (auto simp: h1_def)
        qed
        then show ?thesis by simp
      qed
      have r1: "\<forall>a \<in> set ((xs @ [r]) @ [q]). pb_ref (the (h1 a)) = 1"
        using less.prems(1,4) by (auto simp: h1_def bq_def)
      have mn: "0 < m" "m \<le> n" "m \<le> 1516" using False by (auto simp: m_def)
      have um: "unat (of_nat m :: u16) = m" "unat (of_nat n :: u16) = n"
        using mn less.prems(5) by (simp_all add: unat_of_nat take_bit_eq_mod)
      have hq: "h1 q = Some bq" "pb_next bq = None" by (simp_all add: h1_def bq_def)
      from less.IH [OF _ hq c1 r1] mn less.prems(5) have
        "(\<exists>h' qs. pool_tail mal p q (n - m) h1 = Some (True, h') \<and>
           h' q = Some (bq\<lparr>pb_next := case qs of [] \<Rightarrow> None | q # _ \<Rightarrow> Some q\<rparr>) \<and>
           packet h' (case qs of [] \<Rightarrow> None | q # _ \<Rightarrow> Some q) qs \<and> length (chain_data h' qs) = n - m \<and>
           (\<forall>a \<in> set qs. h1 a = None \<and> pb_ref (the (h' a)) = 1) \<and> (\<forall>a. a \<notin> set qs \<and> a \<noteq> q \<longrightarrow> h' a = h1 a))
        \<or> pool_tail mal p q (n - m) h1 = Some (False, \<lambda>x. if x \<in> set ((xs @ [r]) @ [q]) then None else h1 x)"
        by simp
      then show ?thesis
      proof (elim disjE exE conjE)
        fix h' qs
        assume ok: "pool_tail mal p q (n - m) h1 = Some (True, h')"
          and q': "h' q = Some (bq\<lparr>pb_next := case qs of [] \<Rightarrow> None | q # _ \<Rightarrow> Some q\<rparr>)"
          and pk: "packet h' (case qs of [] \<Rightarrow> None | q # _ \<Rightarrow> Some q) qs"
          and len: "length (chain_data h' qs) = n - m"
          and ref: "\<forall>a \<in> set qs. h1 a = None \<and> pb_ref (the (h' a)) = 1"
          and fr: "\<forall>a. a \<notin> set qs \<and> a \<noteq> q \<longrightarrow> h' a = h1 a"
        have bok: "pb_ok (bq\<lparr>pb_next := v\<rparr>)" "pb_len bq = of_nat m" "tot_len bq = of_nat n" for v
          using um mn fresh(2) by (simp_all add: pb_ok_def bq_def)
        have rq: "r \<notin> set qs" "q \<notin> set qs" using ref hq(1) qn(1) by (force simp: h1_def)+
        have "packet h' (Some q) (q # qs)"
          using q' pk len bok um mn by (auto simp: packet_Cons simp del: pb_bytes_upd)
        moreover have "length (chain_data h' (q # qs)) = n" using q' bok um mn len by (simp del: pb_bytes_upd)
        moreover have "\<forall>a \<in> set (q # qs). h a = None \<and> pb_ref (the (h' a)) = 1"
          using ref fresh(1) q' qn by (auto simp: h1_def bq_def split: if_splits)
        moreover have "h' r = Some (b\<lparr>pb_next := Some q\<rparr>)" using fr rq qn by (simp add: h1_def)
        moreover have "\<forall>a. a \<notin> set (q # qs) \<and> a \<noteq> r \<longrightarrow> h' a = h a" using fr by (simp add: h1_def)
        ultimately show ?thesis using step ok by (intro disjI1 exI [of _ h'] exI [of _ "q # qs"]) simp
      next
        assume "pool_tail mal p q (n - m) h1 = Some (False, \<lambda>x. if x \<in> set ((xs @ [r]) @ [q]) then None else h1 x)"
        moreover have "(\<lambda>x. if x \<in> set ((xs @ [r]) @ [q]) then None else h1 x) = (\<lambda>x. if x \<in> set (xs @ [r]) then None else h x)"
          using fresh(1) by (auto simp: h1_def fun_eq_iff)
        ultimately show ?thesis using step by (intro disjI2) simp
      qed
    qed
  qed
qed


lemma layer_offset_le: "layer_offset layer \<le> 54"
  by (simp add: layer_offset_def PBUF_TRANSPORT_HLEN_def PBUF_IP_HLEN_def PBUF_LINK_HLEN_def split: pbuf_layer.split)

lemma align_size: "n \<le> LWIP_MEM_ALIGN_SIZE n" "LWIP_MEM_ALIGN_SIZE n \<le> n + 3"
proof -
  have "LWIP_MEM_ALIGN_SIZE n = (n + 3) - (n + 3) mod 4"
    by (simp add: LWIP_MEM_ALIGN_SIZE_def MEM_ALIGNMENT_def minus_mod_eq_div_mult)
  moreover have "(n + 3) mod 4 < 4" by simp
  ultimately show "n \<le> LWIP_MEM_ALIGN_SIZE n" "LWIP_MEM_ALIGN_SIZE n \<le> n + 3" by linarith+
qed

lemma pbuf_alloc_ram:
  assumes "malloc_fresh mal"
  shows "pbuf_alloc mal layer n PBUF_RAM h = Some (None, h) \<or>
    (\<exists>p h'. pbuf_alloc mal layer n PBUF_RAM h = Some (Some p, h') \<and> h p = None \<and> packet h' (Some p) [p] \<and>
       length (chain_data h' [p]) = unat n \<and> pb_ref (the (h' p)) = 1 \<and> (\<forall>a. a \<noteq> p \<longrightarrow> h' a = h a))"
proof (cases "mal (LWIP_MEM_ALIGN_SIZE (SIZEOF_STRUCT_PBUF + layer_offset layer) + LWIP_MEM_ALIGN_SIZE (unat n)) h")
  case None
  then show ?thesis by (simp add: pbuf_alloc_def)
next
  case (Some pb)
  obtain p blk where p: "pb = (p, blk)" by force
  let ?o = "LWIP_MEM_ALIGN_SIZE (SIZEOF_STRUCT_PBUF + layer_offset layer)"
  have fresh: "h p = None" "length blk = ?o + LWIP_MEM_ALIGN_SIZE (unat n)"
    using assms Some p by (auto simp: malloc_fresh_def)
  define b where "b = \<lparr>pb_next = None, pb_payload = Some (int ?o - int SIZEOF_STRUCT_PBUF),
    tot_len = n, pb_len = n, pb_type = PBUF_RAM, pb_flags = 0, pb_ref = 1, pb_mem = drop SIZEOF_STRUCT_PBUF blk\<rparr>"
  have o: "20 \<le> ?o" using align_size(1) [of "20 + layer_offset layer"] by simp
  then have "pb_ok b" using fresh(2) align_size(1) [of "unat n"] by (simp add: pb_ok_def b_def)
  moreover have "pbuf_alloc mal layer n PBUF_RAM h = Some (Some p, h(p \<mapsto> b))"
    using Some p by (simp add: pbuf_alloc_def b_def)
  ultimately show ?thesis
    using fresh(1) by (intro disjI2 exI [of _ p] exI [of _ "h(p \<mapsto> b)"]) (simp add: packet_Cons, simp add: b_def)
qed

lemma pbuf_alloc_pool:
  assumes "malloc_fresh mal"
  shows "pbuf_alloc mal layer n PBUF_POOL h = Some (None, h) \<or>
    (\<exists>p ps h'. pbuf_alloc mal layer n PBUF_POOL h = Some (Some p, h') \<and> (\<forall>a \<in> set (p # ps). h a = None \<and> pb_ref (the (h' a)) = 1) \<and>
       packet h' (Some p) (p # ps) \<and> length (chain_data h' (p # ps)) = unat n \<and> (\<forall>a. a \<notin> set (p # ps) \<longrightarrow> h' a = h a))"
proof (cases "mal (SIZEOF_STRUCT_PBUF + PBUF_POOL_BUFSIZE) h")
  case None
  then show ?thesis by (simp add: pbuf_alloc_def)
next
  case (Some pb)
  obtain p blk where p: "pb = (p, blk)" by force
  have fresh: "h p = None" "length blk = 1536" using assms Some p by (auto simp: malloc_fresh_def)
  let ?o = "LWIP_MEM_ALIGN_SIZE (layer_offset layer)"
  have o: "?o \<le> 57" using align_size(2) [of "layer_offset layer"] layer_offset_le [of layer] by simp
  define m where "m = min (unat n) (1516 - ?o)"
  define b where "b = \<lparr>pb_next = None, pb_payload = Some (int ?o), tot_len = n, pb_len = of_nat m,
    pb_type = PBUF_POOL, pb_flags = 0, pb_ref = 1, pb_mem = drop SIZEOF_STRUCT_PBUF blk\<rparr>"
  have mn: "m \<le> unat n" "m + ?o \<le> 1516" using o by (simp_all add: m_def)
  have um: "unat (of_nat m :: u16) = m"
    using mn unat_word_less(2) [of n] by (simp add: unat_of_nat take_bit_eq_mod)
  have bok: "pb_ok (b\<lparr>pb_next := v\<rparr>)" for v using um mn(2) fresh(2) by (simp add: pb_ok_def b_def)
  let ?h = "h(p \<mapsto> b)"
  have run: "pbuf_alloc mal layer n PBUF_POOL h =
      do { (ok, h) \<leftarrow> pool_tail mal p p (unat n - m) ?h; Some (if ok then Some p else None, h) }"
    using Some p by (simp add: pbuf_alloc_def b_def m_def Let_def)
  have "unat n - m < 65536" using unat_word_less(2) [of n] by simp
  then have "(\<exists>h' qs. pool_tail mal p p (unat n - m) ?h = Some (True, h') \<and>
       h' p = Some (b\<lparr>pb_next := case qs of [] \<Rightarrow> None | q # _ \<Rightarrow> Some q\<rparr>) \<and>
       packet h' (case qs of [] \<Rightarrow> None | q # _ \<Rightarrow> Some q) qs \<and> length (chain_data h' qs) = unat n - m \<and>
       (\<forall>a \<in> set qs. ?h a = None \<and> pb_ref (the (h' a)) = 1) \<and> (\<forall>a. a \<notin> set qs \<and> a \<noteq> p \<longrightarrow> h' a = ?h a))
    \<or> pool_tail mal p p (unat n - m) ?h = Some (False, \<lambda>x. if x \<in> set ([] @ [p]) then None else ?h x)"
    by (intro pool_tail_spec [OF assms]) (simp_all add: b_def)
  then show ?thesis
  proof (elim disjE exE conjE)
    fix h' qs
    assume ok: "pool_tail mal p p (unat n - m) ?h = Some (True, h')"
      and p': "h' p = Some (b\<lparr>pb_next := case qs of [] \<Rightarrow> None | q # _ \<Rightarrow> Some q\<rparr>)"
      and pk: "packet h' (case qs of [] \<Rightarrow> None | q # _ \<Rightarrow> Some q) qs"
      and len: "length (chain_data h' qs) = unat n - m"
      and ref: "\<forall>a \<in> set qs. ?h a = None \<and> pb_ref (the (h' a)) = 1"
      and fr: "\<forall>a. a \<notin> set qs \<and> a \<noteq> p \<longrightarrow> h' a = ?h a"
    have f: "pb_len b = of_nat m" "tot_len b = n" "pb_ref b = 1" by (simp_all add: b_def)
    have "packet h' (Some p) (p # qs)" using p' pk len bok um mn f by (auto simp: packet_Cons simp del: pb_bytes_upd)
    moreover have "length (chain_data h' (p # qs)) = unat n" using p' bok um mn len f by (simp del: pb_bytes_upd)
    moreover have "\<forall>a \<in> set (p # qs). h a = None \<and> pb_ref (the (h' a)) = 1"
      using ref fresh(1) p' f by (auto split: if_splits)
    moreover have "\<forall>a. a \<notin> set (p # qs) \<longrightarrow> h' a = h a" using fr by simp
    ultimately show ?thesis using run ok by (intro disjI2 exI [of _ p] exI [of _ qs] exI [of _ h']) simp
  next
    assume "pool_tail mal p p (unat n - m) ?h = Some (False, \<lambda>x. if x \<in> set ([] @ [p]) then None else ?h x)"
    moreover have "(\<lambda>x. if x \<in> set ([] @ [p]) then None else ?h x) = h" using fresh(1) by (auto simp: fun_eq_iff)
    ultimately show ?thesis using run by simp
  qed
qed

end
