(* ===== verification/Pbuf_Spec.thy ===== *)
theory Pbuf_Spec
  imports Pbuf_Chain
begin

text \<open>
  What the packet buffers promise their users, over the abstraction of \<open>Pbuf_Chain\<close>: a packet is a chain whose
  data is the concatenation of its buffers and whose length fields agree with it.
\<close>

section \<open>Example heap\<close>

text \<open>A packet of two buffers, the first with four bytes of header room, and a third buffer of its own.\<close>

definition demo_heap :: pheap where
  "demo_heap = [10 \<mapsto> \<lparr>pb_next = Some 20, pb_payload = Some 4, tot_len = 5, pb_len = 3, pb_type = PBUF_RAM,
                     pb_flags = 0, pb_ref = 1, pb_mem = [0, 0, 0, 0, 97, 98, 99, 0]\<rparr>,
                20 \<mapsto> \<lparr>pb_next = None, pb_payload = Some 0, tot_len = 2, pb_len = 2, pb_type = PBUF_POOL,
                     pb_flags = 0, pb_ref = 1, pb_mem = [100, 101, 0, 0]\<rparr>,
                30 \<mapsto> \<lparr>pb_next = None, pb_payload = Some 0, tot_len = 4, pb_len = 4, pb_type = PBUF_RAM,
                     pb_flags = 0, pb_ref = 1, pb_mem = [97, 97, 97, 98]\<rparr>]"

lemma demo_chain: "chain demo_heap (Some 10) [10, 20]"
  by (simp add: demo_heap_def)

lemma demo_packet: "packet demo_heap (Some 10) [10, 20]" "packet demo_heap (Some 30) [30]"
  by (simp_all add: demo_heap_def packet_Cons pb_ok_def pb_bytes_def)

lemma demo_bytes [simp]:
  "pb_bytes (the (demo_heap 10)) = [97, 98, 99]" "pb_bytes (the (demo_heap 20)) = [100, 101]"
  "pb_bytes (the (demo_heap 30)) = [97, 97, 97, 98]"
  by (simp_all add: demo_heap_def pb_bytes_def)

lemma demo_data: "chain_data demo_heap [10, 20] = [97, 98, 99, 100, 101]" "chain_data demo_heap [30] = [97, 97, 97, 98]"
  by simp_all

text \<open>An allocator that hands out a block as long as addresses below a bound are free.\<close>

definition demo_malloc :: malloc where
  "demo_malloc n h = (if h 7 = None then Some (7, replicate n 0) else None)"

lemma demo_malloc_fresh: "malloc_fresh demo_malloc"
  by (simp add: malloc_fresh_def demo_malloc_def split: if_splits)

section \<open>Allocation\<close>

text \<open>C28: \<open>pbuf_alloc\<close> for the two types that carry their own memory never faults.  It returns null and leaves the
  heap as it was (the partly built chain of a pool packet is released again), or a well-formed packet of the
  length asked for, in fresh buffers with one reference each, and nothing else is changed.\<close>

theorem pbuf_alloc_correct:
  assumes "malloc_fresh mal" "type = PBUF_RAM \<or> type = PBUF_POOL"
  shows "pbuf_alloc mal layer n type h = Some (None, h) \<or>
    (\<exists>p ps h'. pbuf_alloc mal layer n type h = Some (Some p, h') \<and> packet h' (Some p) (p # ps) \<and>
       length (chain_data h' (p # ps)) = unat n \<and> (\<forall>a \<in> set (p # ps). h a = None \<and> pb_ref (the (h' a)) = 1) \<and>
       (\<forall>a. a \<notin> set (p # ps) \<longrightarrow> h' a = h a))"
  using assms(2)
proof
  assume t: "type = PBUF_RAM"
  from pbuf_alloc_ram [OF assms(1), of layer n h] show ?thesis
  proof (elim disjE exE conjE)
    fix p h'
    assume "pbuf_alloc mal layer n PBUF_RAM h = Some (Some p, h')" "h p = None" "packet h' (Some p) [p]"
      "length (chain_data h' [p]) = unat n" "pb_ref (the (h' p)) = 1" "\<forall>a. a \<noteq> p \<longrightarrow> h' a = h a"
    then show ?thesis using t by (intro disjI2 exI [of _ p] exI [of _ "[]"] exI [of _ h']) simp
  qed (simp add: t)
next
  assume t: "type = PBUF_POOL"
  from pbuf_alloc_pool [OF assms(1), of layer n h] show ?thesis
    by (elim disjE exE conjE) (use t in blast)+
qed

theorem pbuf_alloc_correct_witness:
  "pbuf_alloc demo_malloc PBUF_RAW 9 PBUF_RAM demo_heap \<noteq> None"
  using pbuf_alloc_correct [OF demo_malloc_fresh, of PBUF_RAM PBUF_RAW 9 demo_heap] by auto

section \<open>Data in and out\<close>

lemma pbuf_copy_partial_spec:
  assumes "packet h p as" "unat len \<le> length d"
  shows "pbuf_copy_partial p d len offset h =
    (let bs = take (unat len) (drop (unat offset) (chain_data h as))
     in Some (of_nat (length bs), bs @ drop (length bs) d))"
proof (cases p)
  case None
  then have "as = []" using assms(1) by (cases as) (auto simp: packet_Cons)
  with None show ?thesis by (simp add: pbuf_copy_partial_def)
next
  case (Some a)
  then show ?thesis
    using assms copy_partial_loop_spec [of h p as 0 len d offset] unat_word_less(2) [of len]
    by (simp add: pbuf_copy_partial_def packet_def Let_def)
qed

text \<open>\<open>pbuf_copy_partial\<close> returns on every proper packet, wherever the boundaries of its buffers lie: it copies
  the bytes from the offset on, at most the number asked for and at most what the packet has, to the start of
  the destination and returns how many there were.\<close>

theorem pbuf_copy_partial_correct:
  assumes "packet h p as" "unat len \<le> length d"
  shows "pbuf_copy_partial p d len offset h =
    (let bs = take (unat len) (drop (unat offset) (chain_data h as))
     in Some (of_nat (length bs), bs @ drop (length bs) d))"
  by (rule pbuf_copy_partial_spec [OF assms])

theorem pbuf_copy_partial_correct_witness:
  "pbuf_copy_partial (Some 10) [0, 0, 0, 0] 3 2 demo_heap = Some (3, [99, 100, 101, 0])"
  using pbuf_copy_partial_correct [OF demo_packet(1), of 3 "[0, 0, 0, 0]" 2] by (simp add: demo_data Let_def)



section \<open>Joining, splitting, releasing\<close>

text \<open>C30: \<open>pbuf_cat\<close> keeps the length invariant: two disjoint packets whose lengths add up within 16 bits become one
  well-formed packet with the data of both in order; no reference count and no buffer outside the head chain
  is changed.\<close>

theorem pbuf_cat_packet:
  assumes "packet h (Some x) xs" "packet h (Some y) ys" "set xs \<inter> set ys = {}"
    and "length (chain_data h xs) + length (chain_data h ys) < 65536"
  shows "\<exists>h'. pbuf_cat (Some x) (Some y) h = Some h' \<and> packet h' (Some x) (xs @ ys) \<and>
    chain_data h' (xs @ ys) = chain_data h xs @ chain_data h ys \<and>
    (\<forall>a. a \<notin> set xs \<longrightarrow> h' a = h a) \<and> (\<forall>a. map_option pb_ref (h' a) = map_option pb_ref (h a))"
  by (rule pbuf_cat_spec [OF assms])

theorem pbuf_cat_packet_witness:
  "\<exists>h'. pbuf_cat (Some 10) (Some 30) demo_heap = Some h' \<and>
     chain_data h' [10, 20, 30] = [97, 98, 99, 100, 101, 97, 97, 97, 98]"
  using pbuf_cat_packet [OF demo_packet] by (auto simp: demo_data)

text \<open>C12: \<open>pbuf_free\<close> returns on every chain: it releases exactly the buffers before the first one that has another
  reference, takes one reference from that one, leaves every other buffer alone, and returns the number
  released.\<close>

theorem pbuf_free_correct:
  assumes "chain h (Some p) (xs @ ys)" "\<forall>a \<in> set xs. pb_ref (the (h a)) = 1"
    and "ys = [] \<or> pb_ref (the (h (hd ys))) \<noteq> 1"
  shows "\<exists>h'. pbuf_free (Some p) h = Some (of_nat (length xs), h') \<and> (\<forall>a \<in> set xs. h' a = None) \<and>
    (\<forall>a. a \<notin> set xs \<and> (ys = [] \<or> a \<noteq> hd ys) \<longrightarrow> h' a = h a) \<and>
    (ys \<noteq> [] \<longrightarrow> h' (hd ys) = map_option (\<lambda>b. b\<lparr>pb_ref := pb_ref b - 1\<rparr>) (h (hd ys)))"
proof -
  have o: "owned_prefix h (xs @ ys) = xs"
    using assms(2,3) by (cases ys) (auto simp: owned_prefix_def takeWhile_append)
  have "distinct (xs @ ys)" using assms(1) by (rule chain_distinct)
  then show ?thesis
    using pbuf_free_spec [OF assms(1)] o
    by (cases ys) (auto simp: free_heap_def nth_append)
qed

theorem pbuf_free_correct_witness:
  "\<exists>h'. pbuf_free (Some 10) (demo_heap(20 := map_option (\<lambda>b. b\<lparr>pb_ref := 2\<rparr>) (demo_heap 20))) = Some (1, h') \<and>
     h' 10 = None \<and> h' 20 = demo_heap 20"
  using pbuf_free_correct [of "demo_heap(20 := map_option (\<lambda>b. b\<lparr>pb_ref := 2\<rparr>) (demo_heap 20))" 10 "[10]" "[20]"]
  by (auto simp: demo_heap_def)

text \<open>C31: \<open>pbuf_realloc\<close> to at most the present length cuts the packet: the loop that looks for the last buffer ends
  within the chain, the packet keeps its first bytes and stays well formed, the buffers after the cut are
  released, and nothing outside the packet changes.\<close>

theorem pbuf_realloc_correct:
  assumes "packet h (Some p) as" "\<forall>a \<in> set as. pb_ref (the (h a)) = 1" "unat n \<le> length (chain_data h as)"
  shows "\<exists>h' xs ys. pbuf_realloc p n h = Some h' \<and> as = xs @ ys \<and> packet h' (Some p) xs \<and>
    chain_data h' xs = take (unat n) (chain_data h as) \<and>
    (\<forall>a. h' a = None \<longleftrightarrow> a \<in> set ys \<or> h a = None) \<and> (\<forall>a. a \<notin> set as \<longrightarrow> h' a = h a)"
  by (rule pbuf_realloc_spec [OF assms])

theorem pbuf_realloc_correct_witness:
  "\<exists>h' xs. pbuf_realloc 10 2 demo_heap = Some h' \<and> chain_data h' xs = [97, 98]"
proof -
  have "\<forall>a \<in> set [10, 20]. pb_ref (the (demo_heap a)) = 1" by (simp add: demo_heap_def)
  from pbuf_realloc_correct [OF demo_packet(1) this, of 2] show ?thesis by (auto simp: demo_data)
qed

text \<open>A header that was hidden with \<open>pbuf_header\<close> is revealed again by the opposite increment, which restores the
  heap exactly; in between the packet is well formed and has lost just those bytes.  Hiding more than the first
  buffer holds fails and changes nothing.\<close>

theorem pbuf_header_roundtrip:
  assumes "packet h (Some p) (p # as)" "pb_type (the (h p)) = PBUF_RAM \<or> pb_type (the (h p)) = PBUF_POOL" "0 < n"
  shows "if n \<le> unat (pb_len (the (h p)))
    then \<exists>h'. pbuf_header (Some p) (- int n) h = Some (0, h') \<and> packet h' (Some p) (p # as) \<and>
      chain_data h' (p # as) = drop n (chain_data h (p # as)) \<and> pbuf_header (Some p) (int n) h' = Some (0, h)
    else pbuf_header (Some p) (- int n) h = Some (1, h)"
proof -
  obtain b where b: "h p = Some b" "pb_ok b" using assms(1) by (auto simp: packet_Cons)
  obtain pos where pos: "pb_payload b = Some pos" "0 \<le> pos" using b(2) by (auto simp: pb_ok_def split: option.splits)
  define b' where "b' = b\<lparr>pb_payload := Some (pos + int n), pb_len := pb_len b - of_nat n, tot_len := tot_len b - of_nat n\<rparr>"
  show ?thesis
  proof (cases "n \<le> unat (pb_len b)")
    case True
    then obtain h' where h': "pbuf_header (Some p) (- int n) h = Some (0, h')" "packet h' (Some p) (p # as)"
      "chain_data h' (p # as) = drop n (chain_data h (p # as))"
      using pbuf_header_hide [OF assms(1,3)] b by auto
    have "h' = h(p \<mapsto> b')"
      using h'(1) True assms(3) b(1) pos by (cases "pb_type b") (simp_all add: pbuf_header_def b'_def Let_def)
    have "pbuf_header (Some p) (int n) h' = Some (0, h)"
    proof -
      have "b\<lparr>pb_payload := Some pos\<rparr> = b" using pos(1) by (cases b) simp
      then have "h(p \<mapsto> b\<lparr>pb_payload := Some pos\<rparr>) = h" using b(1) by (simp add: fun_upd_idem)
      then show ?thesis using \<open>h' = h(p \<mapsto> b')\<close> assms(2,3) pos b(1) by (auto simp: pbuf_header_def b'_def Let_def)
    qed
    then show ?thesis using True b h' by simp
  next
    case False
    then show ?thesis using b(1) assms(3) by (simp add: pbuf_header_def)
  qed
qed

theorem pbuf_header_roundtrip_witness:
  "\<exists>h'. pbuf_header (Some 10) (- int 2) demo_heap = Some (0, h') \<and> chain_data h' [10, 20] = [99, 100, 101]"
proof -
  have "pb_type (the (demo_heap 10)) = PBUF_RAM" "pb_len (the (demo_heap 10)) = 3" by (simp_all add: demo_heap_def)
  then show ?thesis using pbuf_header_roundtrip [OF demo_packet(1), of 2] by auto
qed

section \<open>Searching\<close>

text \<open>C32: \<open>pbuf_memfind\<close> ends for every packet, pattern and start, and an offset it reports is an occurrence of the
  pattern (\<open>0xFFFF\<close> is the code for not found).\<close>

theorem pbuf_memfind_sound:
  assumes "packet h (Some p) (p # as)" "mem \<noteq> []"
  shows "\<exists>r. pbuf_memfind p mem start h = Some r \<and> (r = 0xFFFF \<or> found_at (chain_data h (p # as)) mem (unat r))"
proof -
  obtain b where b: "h p = Some b" "unat (tot_len b) = length (chain_data h (p # as))"
    using assms(1) by (auto simp: packet_Cons)
  show ?thesis
  proof (cases "length mem + unat start \<le> unat (tot_len b)")
    case True
    then have "length mem < 65536" using unat_word_less(2) [of "tot_len b"] by simp
    then have um: "unat (of_nat (length mem) :: u16) = length mem" by (simp add: unat_of_nat take_bit_eq_mod)
    then have l: "unat (tot_len b - of_nat (length mem)) = length (chain_data h (p # as)) - length mem"
      using True b(2) by (subst unat_sub) (simp_all add: word_le_nat_alt)
    show ?thesis
      using memfind_loop_spec [OF assms _ l, of start] l True b by (simp add: pbuf_memfind_def)
  next
    case False
    then show ?thesis using b(1) by (simp add: pbuf_memfind_def)
  qed
qed

theorem pbuf_memfind_sound_witness:
  "\<exists>r. pbuf_memfind 30 [97, 98] 0 demo_heap = Some r \<and> (r = 0xFFFF \<or> found_at [97, 97, 97, 98] [97, 98] (unat r))"
  using pbuf_memfind_sound [OF demo_packet(2), of "[97, 98]" 0] by (simp only: demo_data) simp


end
