(* ===== verification/Inet_Chksum.thy ===== *)
theory Inet_Chksum
  imports Pbuf_Spec
begin

text \<open>
  The Internet checksum, \<open>src/lwip/core/ipv4/inet_chksum.c\<close> (algorithm 2, the one selected) and the byte order
  macros of \<open>src/include/arch/cc.h\<close>.

  Memory that is summed is the list of its bytes; \<open>misaligned\<close> (the code's \<open>odd\<close>) is the lowest bit of its address.  The reference is
  the one's complement sum of the 16-bit words of RFC 1071, with its value for bytes in memory order.
\<close>

section \<open>Byte order\<close>

definition LWIP_PLATFORM_HTONS :: "u32 \<Rightarrow> u16" where
  "LWIP_PLATFORM_HTONS n = ucast (push_bit 8 (n AND 0xff) OR (drop_bit 8 n AND 0xff))"

definition htons :: "u16 \<Rightarrow> u16" where "htons n = LWIP_PLATFORM_HTONS (ucast n)"
definition ntohs :: "u16 \<Rightarrow> u16" where "ntohs n = LWIP_PLATFORM_HTONS (ucast n)"

definition LWIP_PLATFORM_HTONL :: "u32 \<Rightarrow> u32" where
  "LWIP_PLATFORM_HTONL n = push_bit 24 (n AND 0xff) OR push_bit 8 (n AND 0xff00)
     OR (drop_bit 8 n AND 0xff00) OR (drop_bit 24 n AND 0xff)"

definition htonl :: "u32 \<Rightarrow> u32" where "htonl n = LWIP_PLATFORM_HTONL n"
definition ntohl :: "u32 \<Rightarrow> u32" where "ntohl n = LWIP_PLATFORM_HTONL n"

definition SWAP_BYTES_IN_WORD :: "u32 \<Rightarrow> u32" where
  "SWAP_BYTES_IN_WORD w = ucast (LWIP_PLATFORM_HTONS w)"

definition FOLD_U32T :: "u32 \<Rightarrow> u32" where
  "FOLD_U32T u = drop_bit 16 u + (u AND 0x0000ffff)"

section \<open>Summing\<close>

text \<open>\<open>while (len > 1) { sum += *ps++; len -= 2; }\<close>: the sum and what is left.\<close>

fun sum_words :: "u32 \<Rightarrow> bytes \<Rightarrow> u32 \<times> bytes" where
  "sum_words s (a # b # xs) = sum_words (s + ucast (le16 a b)) xs"
| "sum_words s xs = (s, xs)"

definition lwip_standard_chksum :: "bool \<Rightarrow> bytes \<Rightarrow> u16" where
  "lwip_standard_chksum misaligned dat =
     (let (t1, pb) = (if misaligned \<and> dat \<noteq> [] then (hd dat, tl dat) else (0, dat));
          (s, rest) = sum_words 0 pb;
          t0 = (if rest \<noteq> [] then hd rest else 0);
          s = s + ucast (le16 t0 t1);
          s = FOLD_U32T s;
          s = FOLD_U32T s;
          s = (if misaligned then SWAP_BYTES_IN_WORD s else s)
      in ucast s)"

definition inet_chksum :: "bool \<Rightarrow> bytes \<Rightarrow> u16" where
  "inet_chksum misaligned dat = NOT (lwip_standard_chksum misaligned dat)"

text \<open>The loops over a chain; \<open>al\<close> tells whether the payload of a pbuf lies at an odd address.\<close>

partial_function (option) chksum_loop ::
  "(pbuf \<Rightarrow> bool) \<Rightarrow> u32 \<Rightarrow> bool \<Rightarrow> nat option \<Rightarrow> pheap \<Rightarrow> (u32 \<times> bool) option" where
  "chksum_loop al acc swapped q h = (case q of
       None \<Rightarrow> Some (acc, swapped)
     | Some a \<Rightarrow> do {
         b \<leftarrow> h a;
         bs \<leftarrow> pb_read b 0 (unat (pb_len b));
         let acc = FOLD_U32T (acc + ucast (lwip_standard_chksum (al b) bs));
         let (acc, swapped) = (if pb_len b mod 2 \<noteq> 0 then (SWAP_BYTES_IN_WORD acc, \<not> swapped) else (acc, swapped));
         chksum_loop al acc swapped (pb_next b) h
       })"

definition inet_chksum_pbuf :: "(pbuf \<Rightarrow> bool) \<Rightarrow> nat option \<Rightarrow> pheap \<Rightarrow> u16 option" where
  "inet_chksum_pbuf al p h = do {
     (acc, swapped) \<leftarrow> chksum_loop al 0 False p h;
     let acc = (if swapped then SWAP_BYTES_IN_WORD acc else acc);
     Some (ucast (NOT (acc AND 0xffff)))
   }"

definition add_pseudo :: "u32 \<Rightarrow> u32 \<Rightarrow> u32 \<Rightarrow> u8 \<Rightarrow> u16 \<Rightarrow> u32" where
  "add_pseudo acc src dest proto proto_len =
     (let acc = acc + (src AND 0xffff);
          acc = acc + (drop_bit 16 src AND 0xffff);
          acc = acc + (dest AND 0xffff);
          acc = acc + (drop_bit 16 dest AND 0xffff);
          acc = acc + ucast (htons (ucast proto));
          acc = acc + ucast (htons proto_len)
      in FOLD_U32T (FOLD_U32T acc))"

definition inet_chksum_pseudo ::
  "(pbuf \<Rightarrow> bool) \<Rightarrow> nat option \<Rightarrow> u32 \<Rightarrow> u32 \<Rightarrow> u8 \<Rightarrow> u16 \<Rightarrow> pheap \<Rightarrow> u16 option" where
  "inet_chksum_pseudo al p src dest proto proto_len h = do {
     (acc, swapped) \<leftarrow> chksum_loop al 0 False p h;
     let acc = (if swapped then SWAP_BYTES_IN_WORD acc else acc);
     Some (ucast (NOT (add_pseudo acc src dest proto proto_len AND 0xffff)))
   }"

partial_function (option) chksum_partial_loop ::
  "(pbuf \<Rightarrow> bool) \<Rightarrow> u32 \<Rightarrow> bool \<Rightarrow> u16 \<Rightarrow> nat option \<Rightarrow> pheap \<Rightarrow> (u32 \<times> bool) option" where
  "chksum_partial_loop al acc swapped chksum_len q h = (case q of
       None \<Rightarrow> Some (acc, swapped)
     | Some a \<Rightarrow>
         if chksum_len = 0 then Some (acc, swapped)
         else do {
           b \<leftarrow> h a;
           let chklen = (if pb_len b > chksum_len then chksum_len else pb_len b);
           bs \<leftarrow> pb_read b 0 (unat chklen);
           let acc = FOLD_U32T (acc + ucast (lwip_standard_chksum (al b) bs));
           let (acc, swapped) = (if pb_len b mod 2 \<noteq> 0 then (SWAP_BYTES_IN_WORD acc, \<not> swapped) else (acc, swapped));
           chksum_partial_loop al acc swapped (chksum_len - chklen) (pb_next b) h
         })"

definition inet_chksum_pseudo_partial ::
  "(pbuf \<Rightarrow> bool) \<Rightarrow> nat option \<Rightarrow> u32 \<Rightarrow> u32 \<Rightarrow> u8 \<Rightarrow> u16 \<Rightarrow> u16 \<Rightarrow> pheap \<Rightarrow> u16 option" where
  "inet_chksum_pseudo_partial al p src dest proto proto_len chksum_len h = do {
     (acc, swapped) \<leftarrow> chksum_partial_loop al 0 False chksum_len p h;
     let acc = (if swapped then SWAP_BYTES_IN_WORD acc else acc);
     Some (ucast (NOT (add_pseudo acc src dest proto proto_len AND 0xffff)))
   }"

section \<open>Reference\<close>

text \<open>The sum of the 16-bit words of a byte sequence, padded with a zero byte, low byte first, and the one's
  complement value of a sum: addition with end-around carry, where only the empty sum is zero.\<close>

fun le_sum :: "bytes \<Rightarrow> nat" where
  "le_sum (a # b # xs) = unat a + 256 * unat b + le_sum xs"
| "le_sum [a] = unat a"
| "le_sum [] = 0"

definition oc :: "nat \<Rightarrow> nat" where
  "oc n = (if n = 0 then 0 else Suc ((n - 1) mod 65535))"

definition oc_sum :: "bytes \<Rightarrow> nat" where
  "oc_sum xs = oc (le_sum xs)"

lemma oc_small [simp]: "n < 65536 \<Longrightarrow> oc n = n"
  by (cases n) (auto simp: oc_def)

lemma oc_less [simp]: "oc n < 65536" "oc n \<le> 65535"
  by (auto simp: oc_def Suc_le_eq)

lemma oc_0_iff [simp]: "oc n = 0 \<longleftrightarrow> n = 0"
  by (simp add: oc_def)

lemma oc_mod: "oc n mod 65535 = n mod 65535"
  by (cases n) (auto simp: oc_def mod_Suc_eq)

lemma oc_eq_iff: "oc n = oc m \<longleftrightarrow> n mod 65535 = m mod 65535 \<and> (n = 0 \<longleftrightarrow> m = 0)"
proof
  assume "oc n = oc m"
  then show "n mod 65535 = m mod 65535 \<and> (n = 0 \<longleftrightarrow> m = 0)" using oc_mod oc_0_iff by metis
next
  assume a: "n mod 65535 = m mod 65535 \<and> (n = 0 \<longleftrightarrow> m = 0)"
  show "oc n = oc m"
  proof (cases "n = 0")
    case True
    then show ?thesis using a by simp
  next
    case False
    have u: "x = y" if "x mod 65535 = y mod 65535" "0 < x" "x < 65536" "0 < y" "y < 65536" for x y :: nat
    proof -
      have m: "z mod 65535 = (if z = 65535 then 0 else z)" if "z < 65536" for z :: nat
        using that by (cases "z = 65535") simp_all
      show ?thesis using that by (simp add: m split: if_splits)
    qed
    have "oc n mod 65535 = oc m mod 65535" using a by (simp add: oc_mod)
    moreover have "0 < oc n" "0 < oc m" using False a by (simp_all add: oc_def)
    ultimately show ?thesis using u [of "oc n" "oc m"] by simp
  qed
qed

lemma oc_add [simp]: "oc (oc a + b) = oc (a + b)" "oc (a + oc b) = oc (a + b)"
  unfolding oc_eq_iff by (auto intro: mod_add_cong simp: oc_mod)

lemma oc_idem [simp]: "oc (oc a) = oc a"
  by simp

lemma oc_mult: "0 < k \<Longrightarrow> oc (k * oc a) = oc (k * a)"
  unfolding oc_eq_iff by (auto intro: mod_mult_cong simp: oc_mod)

section \<open>Arithmetic of the folds\<close>

lemma unat_ucast_up [simp]:
  "unat (ucast (a :: u8) :: u16) = unat a" "unat (ucast (a :: u8) :: u32) = unat a" "unat (ucast (b :: u16) :: u32) = unat b"
  using unat_word_less(1) [of a] unat_word_less(2) [of b]
  by (simp_all add: unsigned_ucast_eq take_bit_nat_eq_self_iff)

lemma unat_take: "unat (take_bit n x) = unat x mod 2 ^ n" "unat (drop_bit n x) = unat x div 2 ^ n" for x :: u32
  unfolding unsigned_take_bit_eq unat_drop_bit_eq by (simp_all only: take_bit_eq_mod drop_bit_eq_div)

lemma and_ffff_take_bit: "w AND 0xffff = take_bit 16 w" for w :: "'a::len word"
  by (simp add: take_bit_eq_mask mask_numeral)

lemma unat_le16: "unat (le16 a b) = unat a + 256 * unat b"
proof -
  have ab: "unat a < 256" "unat b < 256" by (rule unat_word_less)+
  have "le16 a b = ucast a + push_bit 8 (ucast b)"
    unfolding le16_def by (subst disjunctive_add) (auto simp: bit_simps dest: bit_u8_iff)
  moreover have "unat (push_bit 8 (ucast b) :: u16) = 256 * unat b"
    using ab(2) by (simp add: push_bit_eq_mult unat_word_ariths)
  ultimately show ?thesis using ab by (simp add: unat_add_lt)
qed

lemma fold_le: "n < 4294967296 \<Longrightarrow> n div 65536 + n mod 65536 \<le> 2 * (65535 :: nat)"
proof -
  assume "n < 4294967296"
  then have "n div 65536 < 65536" by (simp add: div_less_iff_less_mult)
  moreover have "n mod 65536 < 65536" by simp
  ultimately show ?thesis by linarith
qed

lemma unat_fold: "unat (FOLD_U32T x) = unat x div 65536 + unat x mod 65536"
  using fold_le [OF unat_word_less(3) [of x]]
  unfolding FOLD_U32T_def and_ffff_take_bit by (subst unat_add_lt) (simp_all add: unat_take)

lemma oc_fold [simp]: "oc (n div 65536 + n mod 65536) = oc n"
proof -
  define q r where n: "q = n div 65536" "r = n mod 65536"
  then have q: "n = 65536 * q + r" by simp
  have "(65536 * q + r) mod 65535 = (q + r + 65535 * q) mod 65535" by (rule arg_cong [where f = "\<lambda>x. x mod _"]) simp
  also have "\<dots> = (q + r) mod 65535" by (rule mod_mult_self2)
  finally show ?thesis unfolding n [symmetric] oc_eq_iff using q by auto
qed

lemma fold_small: "n \<le> 2 * 65535 \<Longrightarrow> n div 65536 + n mod 65536 = oc n"
proof -
  assume n: "n \<le> 2 * 65535"
  have "n div 65536 + n mod 65536 < 65536"
  proof (cases "n < 65536")
    case False
    then have "n div 65536 = 1" "n mod 65536 = n - 65536"
      using n by (simp_all add: div_nat_eqI le_mod_geq)
    then show ?thesis using n by simp
  qed simp
  then have "n div 65536 + n mod 65536 = oc (n div 65536 + n mod 65536)" by (rule oc_small [symmetric])
  then show ?thesis by (simp only: oc_fold)
qed

lemma fold_once: "unat x \<le> 2 * 65535 \<Longrightarrow> unat (FOLD_U32T x) = oc (unat x)"
  unfolding unat_fold by (rule fold_small)

lemma fold_twice: "unat (FOLD_U32T (FOLD_U32T x)) = oc (unat x)"
proof -
  have "unat (FOLD_U32T x) \<le> 2 * 65535" unfolding unat_fold by (rule fold_le) (rule unat_word_less)
  then have "unat (FOLD_U32T (FOLD_U32T x)) = oc (unat (FOLD_U32T x))" by (rule fold_once)
  then show ?thesis by (simp only: unat_fold oc_fold)
qed

lemma unat_htons: "unat (LWIP_PLATFORM_HTONS w) = 256 * (unat w mod 256) + unat w div 256 mod 256"
proof -
  have "LWIP_PLATFORM_HTONS w = le16 (ucast (drop_bit 8 w)) (ucast w)"
    by (rule bit_word_eqI) (auto simp: LWIP_PLATFORM_HTONS_def le16_def and_ff_take_bit bit_simps)
  moreover have "unat (ucast (drop_bit 8 w) :: u8) = unat w div 256 mod 256"
    unfolding unsigned_ucast_eq by (simp add: take_bit_eq_mod unat_take [of 8, simplified])
  moreover have "unat (ucast w :: u8) = unat w mod 256"
    unfolding unsigned_ucast_eq by (simp add: take_bit_eq_mod)
  ultimately show ?thesis by (simp add: unat_le16)
qed


lemma oc_carry [simp]: "oc (a + 65536 * b) = oc (a + b)" "oc (65536 * b) = oc b"
proof -
  have "(a + 65536 * b) mod 65535 = (a + b + 65535 * b) mod 65535" for a
    by (rule arg_cong [where f = "\<lambda>x. x mod _"]) simp
  then have "(a + 65536 * b) mod 65535 = (a + b) mod 65535" for a by (simp only: mod_mult_self2)
  from this [of a] this [of 0] show "oc (a + 65536 * b) = oc (a + b)" "oc (65536 * b) = oc b"
    unfolding oc_eq_iff by simp_all
qed

lemma unat_swap: "unat w < 65536 \<Longrightarrow> unat (SWAP_BYTES_IN_WORD w) = oc (256 * unat w)"
proof -
  assume w: "unat w < 65536"
  define q r where qr: "q = unat w div 256" "r = unat w mod 256"
  then have "unat w = 256 * q + r" "q < 256" "r < 256" using w by (simp_all add: div_less_iff_less_mult)
  then have "oc (256 * unat w) = oc (256 * r + 65536 * q)" "256 * r + q < 65536" by (simp_all add: algebra_simps)
  moreover have "unat (SWAP_BYTES_IN_WORD w) = 256 * r + q"
    using qr \<open>q < 256\<close> by (simp add: SWAP_BYTES_IN_WORD_def unat_htons)
  ultimately show ?thesis by simp
qed

section \<open>One buffer\<close>

lemma sum_words_spec:
  "unat s + 65535 * length xs < 4294967296 \<Longrightarrow>
   \<exists>s' r. sum_words s xs = (s', r) \<and> unat s' + le_sum r = unat s + le_sum xs \<and> (r = [] \<or> (\<exists>x. r = [x]))"
proof (induction s xs rule: sum_words.induct)
  case (1 s a b xs)
  have w: "unat (le16 a b) < 65536" by (rule unat_word_less)
  then have u: "unat (s + ucast (le16 a b)) = unat s + unat (le16 a b)"
    using "1.prems" by (subst unat_add_lt) simp_all
  with "1.prems" w have "unat (s + ucast (le16 a b)) + 65535 * length xs < 4294967296" by simp
  from "1.IH" [OF this] show ?case using u by (auto simp: unat_le16)
qed auto

lemma le_sum_le: "le_sum xs \<le> 65535 * length xs"
proof (induction xs rule: le_sum.induct)
  case (1 a b xs)
  then show ?case using unat_word_less(1) [of a] unat_word_less(1) [of b] by simp
next
  case (2 a)
  then show ?case using unat_word_less(1) [of a] by simp
qed simp

lemma le_sum_Cons: "oc (le_sum (x # xs)) = oc (unat x + 256 * le_sum xs)"
proof (induction xs arbitrary: x)
  case (Cons b ys)
  have "oc (unat x + 256 * le_sum (b # ys)) = oc (unat x + oc (256 * oc (le_sum (b # ys))))"
    by (simp only: oc_add oc_mult [OF zero_less_numeral])
  also have "\<dots> = oc (unat x + 256 * (unat b + 256 * le_sum ys))"
    unfolding Cons by (simp only: oc_add oc_mult [OF zero_less_numeral])
  also have "\<dots> = oc (unat x + 256 * unat b + 65536 * le_sum ys)" by (simp add: algebra_simps)
  finally show ?case by simp
qed simp

lemma sum_tail:
  assumes "length xs < 65536"
  shows "\<exists>s r. sum_words 0 xs = (s, r) \<and>
    unat (s + ucast (le16 (if r \<noteq> [] then hd r else 0) t)) = le_sum xs + 256 * unat t"
proof -
  obtain s r where s: "sum_words 0 xs = (s, r)" "unat s + le_sum r = le_sum xs" "r = [] \<or> (\<exists>x. r = [x])"
    using sum_words_spec [of 0 xs] assms by auto
  have t: "le_sum r + 256 * unat t = unat (le16 (if r \<noteq> [] then hd r else 0) t)"
    using s(3) by (auto simp: unat_le16)
  have "unat s + unat (le16 (if r \<noteq> [] then hd r else 0) t) = le_sum xs + 256 * unat t" using s(2) t by simp
  moreover have "le_sum xs + 256 * unat t < 4294967296"
    using le_sum_le [of xs] assms unat_word_less(1) [of t] by simp
  ultimately have "unat (s + ucast (le16 (if r \<noteq> [] then hd r else 0) t)) = le_sum xs + 256 * unat t"
    by (subst unat_add_lt) simp_all
  then show ?thesis using s(1) by blast
qed

lemma lwip_standard_chksum_spec:
  assumes "length dat < 65536"
  shows "unat (lwip_standard_chksum mis dat) = oc_sum dat"
proof -
  have cast: "unat (ucast w :: u16) = unat w" if "unat w < 65536" for w :: u32
    using that by (simp add: unsigned_ucast_eq take_bit_nat_eq_self_iff)
  have o: "oc n < 65536" for n by simp
  show ?thesis
  proof (cases "mis \<and> dat \<noteq> []")
    case False
    obtain s r where s: "sum_words 0 dat = (s, r)"
      "unat (s + ucast (le16 (if r \<noteq> [] then hd r else 0) 0)) = le_sum dat"
      using sum_tail [OF assms, of 0] by auto
    show ?thesis
    proof (cases mis)
      case True
      with False show ?thesis
        by (simp add: lwip_standard_chksum_def oc_sum_def le16_def FOLD_U32T_def SWAP_BYTES_IN_WORD_def LWIP_PLATFORM_HTONS_def)
    next
      case False
      with s o show ?thesis
        by (simp add: lwip_standard_chksum_def Let_def cast fold_twice oc_sum_def)
    qed
  next
    case True
    then obtain x xs where x: "mis" "dat = x # xs" by (cases dat) auto
    obtain s r where s: "sum_words 0 xs = (s, r)"
      "unat (s + ucast (le16 (if r \<noteq> [] then hd r else 0) x)) = le_sum xs + 256 * unat x"
      using sum_tail [of xs x] assms x by auto
    have "oc (256 * oc (le_sum xs + 256 * unat x)) = oc (256 * le_sum xs + 65536 * unat x)"
      by (simp only: oc_mult [OF zero_less_numeral]) (simp add: algebra_simps)
    also have "\<dots> = oc (unat x + 256 * le_sum xs)" by (simp add: add.commute)
    finally show ?thesis
      using s x o by (simp add: lwip_standard_chksum_def Let_def cast fold_twice unat_swap oc_sum_def le_sum_Cons)
  qed
qed


section \<open>Chains\<close>

lemma le_sum_append:
  "oc (le_sum (xs @ ys)) = oc (le_sum xs + (if even (length xs) then le_sum ys else 256 * le_sum ys))"
proof (induction xs)
  case (Cons x xs)
  have c: "oc (unat x + 256 * n) = oc (unat x + 256 * m)" if "oc n = oc m" for n m
  proof -
    have "oc (256 * n) = oc (256 * m)" using that oc_mult [of 256 n] oc_mult [of 256 m] by simp
    then show ?thesis by (metis oc_add(2))
  qed
  let ?k = "if even (length xs) then le_sum ys else 256 * le_sum ys"
  have "oc (le_sum ((x # xs) @ ys)) = oc (unat x + 256 * le_sum (xs @ ys))" using le_sum_Cons by simp
  also have "\<dots> = oc (unat x + 256 * (le_sum xs + ?k))" using Cons by (rule c)
  also have "\<dots> = oc (oc (unat x + 256 * le_sum xs) + 256 * ?k)" by (simp add: algebra_simps)
  also have "\<dots> = oc (le_sum (x # xs) + 256 * ?k)" unfolding le_sum_Cons [symmetric] by simp
  also have "\<dots> = oc (le_sum (x # xs) + (if even (length (x # xs)) then le_sum ys else 256 * le_sum ys))" by simp
  finally show ?case .
qed simp

text \<open>An accumulator, kept byte-swapped while an odd number of bytes was summed.\<close>

definition acc_ok :: "u32 \<Rightarrow> bool \<Rightarrow> nat \<Rightarrow> bool" where
  "acc_ok acc swapped n \<longleftrightarrow> unat acc = oc (if swapped then 256 * n else n)"

lemma acc_ok_less: "acc_ok acc sw n \<Longrightarrow> unat acc < 65536"
  by (simp add: acc_ok_def)

lemma acc_ok_swap:
  assumes "acc_ok acc sw n"
  shows "acc_ok (SWAP_BYTES_IN_WORD acc) (\<not> sw) n"
  using assms unat_swap [OF acc_ok_less [OF assms]] oc_mult [of 256 n] oc_mult [of 256 "256 * n"]
  by (simp add: acc_ok_def)

lemma acc_ok_cong: "oc n = oc m \<Longrightarrow> acc_ok acc sw n = acc_ok acc sw m"
  using oc_mult [of 256 n] oc_mult [of 256 m] by (simp add: acc_ok_def)

lemma acc_ok_add:
  assumes "acc_ok acc (odd (length ds)) (le_sum ds)" "length bs < 65536"
  shows "acc_ok (FOLD_U32T (acc + ucast (lwip_standard_chksum mis bs))) (odd (length ds)) (le_sum (ds @ bs))"
proof -
  let ?c = "lwip_standard_chksum mis bs"
  let ?e = "if odd (length ds) then 256 * le_sum ds else le_sum ds"
  have c: "unat ?c = oc (le_sum bs)" using lwip_standard_chksum_spec [OF assms(2)] by (simp add: oc_sum_def)
  have a: "unat acc = oc ?e" using assms(1) by (simp add: acc_ok_def)
  have "unat (acc + ucast ?c) = unat acc + unat ?c"
    using a c by (subst unat_add_lt) (simp_all add: add_less_mono order.strict_trans2 [OF add_strict_mono [OF oc_less(1) oc_less(1)]])
  moreover have "unat acc + unat ?c \<le> 2 * 65535" using a c oc_less(2) [of ?e] oc_less(2) [of "le_sum bs"] by linarith
  ultimately have "unat (FOLD_U32T (acc + ucast ?c)) = oc (unat acc + unat ?c)" by (simp add: fold_once)
  also have "\<dots> = oc (?e + le_sum bs)" by (simp add: a c)
  also have "\<dots> = oc (if odd (length ds) then 256 * le_sum (ds @ bs) else le_sum (ds @ bs))"
  proof (cases "odd (length ds)")
    case True
    have "oc (256 * le_sum (ds @ bs)) = oc (256 * oc (le_sum (ds @ bs)))" by (simp add: oc_mult)
    also have "\<dots> = oc (256 * (le_sum ds + 256 * le_sum bs))" using True by (simp add: le_sum_append oc_mult)
    also have "\<dots> = oc (256 * le_sum ds + 65536 * le_sum bs)" by (simp add: algebra_simps)
    finally show ?thesis using True by simp
  next
    case False
    then show ?thesis using le_sum_append [of ds bs] by simp
  qed
  finally show ?thesis by (simp add: acc_ok_def)
qed

lemma odd_len: "pb_ok b \<Longrightarrow> (pb_len b mod 2 \<noteq> 0) = odd (length (pb_bytes b))"
proof -
  have "(pb_len b mod 2 \<noteq> 0) = odd (pb_len b)" by (simp add: even_iff_mod_2_eq_zero)
  also have "\<dots> = odd (unat (pb_len b))" by (simp flip: bit_0 add: bit_unsigned_iff)
  finally show "pb_ok b \<Longrightarrow> ?thesis" by simp
qed

lemma chksum_loop_spec:
  assumes "chain h p as" "\<forall>a \<in> set as. pb_ok (the (h a))" "acc_ok acc (odd (length ds)) (le_sum ds)"
  shows "\<exists>acc' sw. chksum_loop al acc (odd (length ds)) p h = Some (acc', sw) \<and> acc_ok acc' sw (le_sum (ds @ chain_data h as))"
  using assms
proof (induction as arbitrary: p acc ds)
  case Nil
  then show ?case by (subst chksum_loop.simps) auto
next
  case (Cons a as)
  then obtain b where b: "p = Some a" "h a = Some b" "chain h (pb_next b) as" "pb_ok b" by auto
  let ?acc = "FOLD_U32T (acc + ucast (lwip_standard_chksum (al b) (pb_bytes b)))"
  have len: "length (pb_bytes b) < 65536" using b(4) unat_word_less(2) [of "pb_len b"] by simp
  from acc_ok_add [OF Cons.prems(3) len] have ok: "acc_ok ?acc (odd (length ds)) (le_sum (ds @ pb_bytes b))" .
  have rd: "pb_read b 0 (unat (pb_len b)) = Some (pb_bytes b)" using pb_read_ok [OF b(4), of 0] b(4) by simp
  define acc1 where "acc1 = (if odd (length (pb_bytes b)) then SWAP_BYTES_IN_WORD ?acc else ?acc)"
  have ok1: "acc_ok acc1 (odd (length (ds @ pb_bytes b))) (le_sum (ds @ pb_bytes b))"
    using ok acc_ok_swap [OF ok] by (auto simp: acc1_def)
  have step: "chksum_loop al acc (odd (length ds)) p h = chksum_loop al acc1 (odd (length (ds @ pb_bytes b))) (pb_next b) h"
    using b rd odd_len [OF b(4)]
    by (subst chksum_loop.simps) (auto simp: acc1_def Let_def simp del: pb_bytes_upd)
  from Cons.IH [OF b(3) _ ok1] Cons.prems(2) b show ?case unfolding step by simp
qed

lemma acc_result:
  assumes "acc_ok acc sw n"
  shows "ucast (NOT ((if sw then SWAP_BYTES_IN_WORD acc else acc) AND 0xffff)) = (NOT (of_nat (oc n)) :: u16)"
    and "unat (if sw then SWAP_BYTES_IN_WORD acc else acc) = oc n"
proof -
  let ?a = "if sw then SWAP_BYTES_IN_WORD acc else acc"
  show u: "unat ?a = oc n" using assms acc_ok_swap [OF assms] by (cases sw) (simp_all add: acc_ok_def)
  have "ucast (NOT (?a AND 0xffff)) = (NOT (ucast ?a) :: u16)"
    by (rule bit_word_eqI) (auto simp: and_ffff_take_bit bit_simps)
  also have "(ucast ?a :: u16) = of_nat (unat ?a)" by simp
  finally show "ucast (NOT (?a AND 0xffff)) = (NOT (of_nat (oc n)) :: u16)" by (simp only: u)
qed

lemma inet_chksum_pbuf_spec:
  assumes "packet h p as"
  shows "inet_chksum_pbuf al p h = Some (NOT (of_nat (oc_sum (chain_data h as))))"
proof -
  have "acc_ok 0 (odd (length ([] :: bytes))) (le_sum [])" by (simp add: acc_ok_def)
  from chksum_loop_spec [OF _ _ this, of h p as al] assms obtain acc sw where
    "chksum_loop al 0 False p h = Some (acc, sw)" "acc_ok acc sw (le_sum (chain_data h as))"
    by (auto simp: packet_def)
  then show ?thesis using acc_result(1) [of acc sw] by (simp add: inet_chksum_pbuf_def oc_sum_def)
qed

text \<open>The pseudo header that is summed with the data, in memory order.\<close>

definition pseudo_header :: "u32 \<Rightarrow> u32 \<Rightarrow> u8 \<Rightarrow> u16 \<Rightarrow> bytes" where
  "pseudo_header src dest proto len = bytes_le32 src @ bytes_le32 dest @ [0, proto, hi8 len, lo8 len]"

lemma unat_hi_lo: "unat (lo8 w) = unat w mod 256" "unat (hi8 w) = unat w div 256"
proof -
  have "le16 (lo8 w) (hi8 w) = w" by simp
  then have "unat (lo8 w) + 256 * unat (hi8 w) = unat w" by (metis unat_le16)
  moreover have "unat (lo8 w) < 256" by (rule unat_word_less)
  moreover have "l = x mod 256 \<and> u = x div 256" if "l + 256 * u = x" "l < 256" for l u x :: nat using that by auto
  ultimately show "unat (lo8 w) = unat w mod 256" "unat (hi8 w) = unat w div 256" by blast+
qed

lemma unat_htons16: "unat (htons w) = unat (hi8 w) + 256 * unat (lo8 w)"
proof -
  have "unat w div 256 < 256" using unat_word_less(2) [of w] by (simp add: div_less_iff_less_mult)
  then show ?thesis by (simp add: htons_def unat_htons unat_hi_lo)
qed

lemma le_sum_le32: "le_sum (bytes_le32 w @ xs) = unat w mod 65536 + unat w div 65536 + le_sum xs"
proof -
  have b: "unat (ucast (drop_bit n w) :: u8) = unat w div 2 ^ n mod 256" for n
    unfolding unsigned_ucast_eq by (simp add: take_bit_eq_mod unat_take)
  have c: "unat (ucast w :: u8) = unat w mod 256" unfolding unsigned_ucast_eq by (simp add: take_bit_eq_mod)
  have "unat w mod 65536 = unat w mod 256 + 256 * (unat w div 256 mod 256)"
    using mod_mult2_eq [of "unat w" 256 256] by simp
  moreover have "unat w div 65536 < 65536" using unat_word_less(3) [of w] by (simp add: div_less_iff_less_mult)
  then have "unat w div 65536 = unat w div 65536 mod 256 + 256 * (unat w div 16777216 mod 256)"
    using mod_mult2_eq [of "unat w div 65536" 256 256] by (simp add: div_mult2_eq [symmetric])
  ultimately show ?thesis by (simp add: bytes_le32_def b [of 8] b [of 16] b [of 24] c)
qed

lemma add_pseudo_spec:
  assumes "unat acc = oc n"
  shows "unat (add_pseudo acc src dest proto len) = oc (le_sum (pseudo_header src dest proto len) + n)"
proof -
  have d: "unat w div 65536 < 65536" for w :: u32 using unat_word_less(3) [of w] by (simp add: div_less_iff_less_mult)
  have f: "unat (w AND 0xffff) = unat w mod 65536" "unat (drop_bit 16 w AND 0xffff) = unat w div 65536" for w :: u32
    using d [of w] by (simp_all add: and_ffff_take_bit unat_take)
  have hp: "unat (htons (ucast proto)) = 256 * unat proto"
    using unat_word_less(1) [of proto] by (simp add: unat_htons16 unat_hi_lo)
  let ?s = "oc n + unat src mod 65536 + unat src div 65536 + unat dest mod 65536 + unat dest div 65536
      + unat (htons (ucast proto)) + unat (htons len)"
  have m: "unat w mod 65536 < 65536" for w :: u32 by simp
  have b: "?s < 4294967296"
    using oc_less(1) [of n] m [of src] m [of dest] d [of src] d [of dest]
      unat_word_less(2) [of "htons (ucast proto)"] unat_word_less(2) [of "htons len"] by linarith
  have "unat (add_pseudo acc src dest proto len) = oc ?s"
  proof -
    let ?a1 = "acc + (src AND 0xffff)" and ?a3 = "dest AND 0xffff :: u32"
    let ?a2 = "?a1 + (drop_bit 16 src AND 0xffff)"
    let ?a4 = "?a2 + ?a3 + (drop_bit 16 dest AND 0xffff)"
    have st: "unat (a + c) = k + m" if "unat a = k" "unat c = m" "k + m < 4294967296" for a c :: u32 and k m
      using that by (simp add: unat_add_lt)
    have "unat ?a1 = oc n + unat src mod 65536" by (rule st [OF assms f(1)]) (use b in linarith)
    then have "unat ?a2 = oc n + unat src mod 65536 + unat src div 65536"
      by (rule st [OF _ f(2)]) (use b in linarith)
    then have "unat (?a2 + ?a3) = oc n + unat src mod 65536 + unat src div 65536 + unat dest mod 65536"
      by (rule st [OF _ f(1)]) (use b in linarith)
    then have "unat ?a4 = oc n + unat src mod 65536 + unat src div 65536 + unat dest mod 65536 + unat dest div 65536"
      by (rule st [OF _ f(2)]) (use b in linarith)
    then have "unat (?a4 + ucast (htons (ucast proto))) =
        oc n + unat src mod 65536 + unat src div 65536 + unat dest mod 65536 + unat dest div 65536
        + unat (htons (ucast proto))"
      by (rule st [OF _ unat_ucast_up(3)]) (use b in linarith)
    then have "unat (?a4 + ucast (htons (ucast proto)) + ucast (htons len)) = ?s"
      by (rule st [OF _ unat_ucast_up(3)]) (use b in linarith)
    then show ?thesis by (simp only: add_pseudo_def Let_def fold_twice)
  qed
  also have "?s = oc n + le_sum (pseudo_header src dest proto len)"
    by (simp add: pseudo_header_def le_sum_le32 hp [unfolded unat_htons16] unat_htons16)
  finally show ?thesis by (simp add: add.commute)
qed


lemma pseudo_result:
  assumes "acc_ok acc sw (le_sum d)"
  shows "ucast (NOT (add_pseudo (if sw then SWAP_BYTES_IN_WORD acc else acc) src dest proto len AND 0xffff))
    = (NOT (of_nat (oc_sum (pseudo_header src dest proto len @ d))) :: u16)"
proof -
  let ?a = "add_pseudo (if sw then SWAP_BYTES_IN_WORD acc else acc) src dest proto len"
  have "even (length (pseudo_header src dest proto len))" by (simp add: pseudo_header_def bytes_le32_def)
  then have "oc_sum (pseudo_header src dest proto len @ d) = oc (le_sum (pseudo_header src dest proto len) + le_sum d)"
    using le_sum_append by (simp add: oc_sum_def)
  moreover have "acc_ok ?a False (le_sum (pseudo_header src dest proto len) + le_sum d)"
    using add_pseudo_spec [OF acc_result(2) [OF assms]] by (simp add: acc_ok_def)
  from acc_result(1) [OF this] have
    "ucast (NOT (?a AND 0xffff)) = (NOT (of_nat (oc (le_sum (pseudo_header src dest proto len) + le_sum d))) :: u16)"
    by simp
  ultimately show ?thesis by simp
qed

lemma chksum_partial_loop_spec:
  assumes "chain h p as" "\<forall>a \<in> set as. pb_ok (the (h a))" "acc_ok acc sw (le_sum ds)" "n \<noteq> 0 \<longrightarrow> sw = odd (length ds)"
  shows "\<exists>acc' sw'. chksum_partial_loop al acc sw n p h = Some (acc', sw') \<and>
    acc_ok acc' sw' (le_sum (ds @ take (unat n) (chain_data h as)))"
  using assms
proof (induction as arbitrary: p acc sw n ds)
  case Nil
  then show ?case by (subst chksum_partial_loop.simps) auto
next
  case (Cons a as)
  show ?case
  proof (cases "n = 0")
    case True
    then show ?thesis using Cons.prems by (subst chksum_partial_loop.simps) auto
  next
    case False
    obtain b where b: "p = Some a" "h a = Some b" "chain h (pb_next b) as" "pb_ok b" using Cons.prems by auto
    have sw: "sw = odd (length ds)" using False Cons.prems(4) by simp
    define m where "m = (if pb_len b > n then n else pb_len b)"
    define bs where "bs = take (unat m) (pb_bytes b)"
    have m: "unat m \<le> unat (pb_len b)" "unat m \<le> unat n" "m = n \<or> m = pb_len b"
      by (auto simp: m_def word_less_nat_alt)
    let ?acc = "FOLD_U32T (acc + ucast (lwip_standard_chksum (al b) bs))"
    have rd: "pb_read b 0 (unat m) = Some bs" using pb_read_ok [OF b(4), of 0 "unat m"] m by (simp add: bs_def)
    have "length bs < 65536" using unat_word_less(2) [of m] by (simp add: bs_def)
    from acc_ok_add [OF Cons.prems(3) [unfolded sw] this, of "al b"] sw
    have ok: "acc_ok ?acc sw (le_sum (ds @ bs))" by simp
    define acc1 sw1 where "acc1 = (if odd (length (pb_bytes b)) then SWAP_BYTES_IN_WORD ?acc else ?acc)"
      and "sw1 = (if odd (length (pb_bytes b)) then \<not> sw else sw)"
    have ok1: "acc_ok acc1 sw1 (le_sum (ds @ bs))" using ok acc_ok_swap [OF ok] by (auto simp: acc1_def sw1_def)
    have par: "n - m \<noteq> 0 \<longrightarrow> sw1 = odd (length (ds @ bs))"
      using m(3) b(4) sw by (auto simp: sw1_def bs_def)
    have step: "chksum_partial_loop al acc sw n p h = chksum_partial_loop al acc1 sw1 (n - m) (pb_next b) h"
      using b rd odd_len [OF b(4)] False
      by (subst chksum_partial_loop.simps) (simp add: acc1_def sw1_def m_def Let_def)
    have "take (unat n) (chain_data h (a # as)) = bs @ take (unat (n - m)) (chain_data h as)"
      using m b(2,4) by (auto simp: bs_def unat_sub word_le_nat_alt)
    then show ?thesis
      using Cons.IH [OF b(3) _ ok1 par] Cons.prems(2) unfolding step by simp
  qed
qed

section \<open>Correctness\<close>

lemma not_oc: "unat (NOT (of_nat (oc n)) :: u16) = 65535 - oc n"
proof -
  have u: "unat (of_nat (oc n) :: u16) = oc n" using oc_less(1) [of n] by (simp add: unat_of_nat take_bit_eq_mod)
  have "(NOT (of_nat (oc n)) :: u16) = 0xFFFF - of_nat (oc n)" by (simp add: not_eq_complement)
  moreover have "unat (0xFFFF - of_nat (oc n) :: u16) = 65535 - oc n"
    using oc_less(2) [of n] by (subst unat_sub) (simp_all add: word_le_nat_alt u)
  ultimately show ?thesis by simp
qed

lemma oc_complement: "oc (n + (65535 - oc n)) = 65535"
proof -
  have "oc (n + (65535 - oc n)) = oc (oc n + (65535 - oc n))" by (rule oc_add(1) [symmetric])
  also have "oc n + (65535 - oc n) = 65535" using oc_less(2) [of n] by (rule le_add_diff_inverse)
  finally show ?thesis by simp
qed

lemma inet_chksum_eq: "length d < 65536 \<Longrightarrow> inet_chksum mis d = NOT (of_nat (oc_sum d))"
  unfolding inet_chksum_def lwip_standard_chksum_spec [of d mis, symmetric] by simp

lemma inet_chksum_0_iff: "length d < 65536 \<Longrightarrow> inet_chksum mis d = 0 \<longleftrightarrow> oc_sum d = 65535"
proof -
  assume "length d < 65536"
  then have "inet_chksum mis d = 0 \<longleftrightarrow> 65535 - oc_sum d = 0"
    using not_oc [of "le_sum d"] by (simp add: inet_chksum_eq oc_sum_def flip: unat_eq_zero)
  then show ?thesis using oc_less(2) [of "le_sum d"] unfolding oc_sum_def by linarith
qed

lemma le_sum_even: "even (length xs) \<Longrightarrow> le_sum (xs @ ys) = le_sum xs + le_sum ys"
  by (induction xs rule: le_sum.induct) auto

lemma inet_chksum_pseudo_spec:
  assumes "packet h p as"
  shows "inet_chksum_pseudo al p src dest proto len h =
    Some (NOT (of_nat (oc_sum (pseudo_header src dest proto len @ chain_data h as))))"
proof -
  have "chain h p as" "\<forall>a \<in> set as. pb_ok (the (h a))" "acc_ok 0 False (le_sum [])"
    using assms by (auto simp: packet_def acc_ok_def)
  from chksum_loop_spec [OF this(1,2), of 0 "[]" al] this(3) obtain acc sw where
    "chksum_loop al 0 False p h = Some (acc, sw)" "acc_ok acc sw (le_sum (chain_data h as))" by auto
  then show ?thesis unfolding inet_chksum_pseudo_def by (simp only: pseudo_result Option.bind.bind_lunit split Let_def)
qed

text \<open>C37: The checksum routines agree with the one's complement sum of RFC 1071 over the data of the packet: over
  memory at any alignment, over a chain of buffers of any lengths (odd ones swap the accumulator) and any
  alignments, with the pseudo header of TCP and UDP, and over the first bytes of the data only.\<close>

theorem inet_chksum_reference:
  assumes "packet h p as"
  shows "inet_chksum_pbuf al p h = Some (NOT (of_nat (oc_sum (chain_data h as)))) \<and>
    inet_chksum_pseudo al p src dest proto len h =
      Some (NOT (of_nat (oc_sum (pseudo_header src dest proto len @ chain_data h as)))) \<and>
    inet_chksum_pseudo_partial al p src dest proto len n h =
      Some (NOT (of_nat (oc_sum (pseudo_header src dest proto len @ take (unat n) (chain_data h as))))) \<and>
    (length d < 65536 \<longrightarrow> inet_chksum mis d = NOT (of_nat (oc_sum d)))"
proof -
  have c: "chain h p as" "\<forall>a \<in> set as. pb_ok (the (h a))" using assms by (auto simp: packet_def)
  have z: "acc_ok 0 False (le_sum [])" by (simp add: acc_ok_def)
  obtain acc' sw' where "chksum_partial_loop al 0 False n p h = Some (acc', sw')"
    "acc_ok acc' sw' (le_sum (take (unat n) (chain_data h as)))"
    using chksum_partial_loop_spec [OF c z, of n al] by auto
  then have "inet_chksum_pseudo_partial al p src dest proto len n h =
      Some (NOT (of_nat (oc_sum (pseudo_header src dest proto len @ take (unat n) (chain_data h as)))))"
    unfolding inet_chksum_pseudo_partial_def by (simp only: pseudo_result Option.bind.bind_lunit split Let_def)
  then show ?thesis using inet_chksum_pbuf_spec [OF assms, of al] inet_chksum_pseudo_spec [OF assms] inet_chksum_eq [of d mis] by simp
qed

theorem inet_chksum_reference_witness:
  "inet_chksum_pbuf (\<lambda>_. True) (Some 10) demo_heap = Some (NOT 0xC729)"
proof -
  have "oc_sum [97, 98, 99, 100, 101] = 0xC729" by (simp add: oc_sum_def oc_def)
  then show ?thesis using inet_chksum_reference [OF demo_packet(1), of "\<lambda>_. True" 0 0 0 0 0 "[]" False] by (simp add: demo_data del: chain_data_simps)
qed

text \<open>A message with a checksum field at an even offset verifies: when the field holds what \<open>inet_chksum\<close>
  computed with the field zero, \<open>inet_chksum\<close> over the whole is zero, which is the test of the receiver.\<close>

lemma inet_chksum_verifies:
  assumes "even (length xs)" "length (xs @ [0, 0] @ ys) < 65536" and c: "c = inet_chksum mis (xs @ [0, 0] @ ys)"
  shows "inet_chksum mis' (xs @ [lo8 c, hi8 c] @ ys) = 0"
proof -
  let ?n = "le_sum xs + le_sum ys"
  have "unat c = 65535 - oc ?n"
    using assms(1,2) by (simp add: c inet_chksum_eq not_oc oc_sum_def le_sum_even)
  moreover have "le_sum ([lo8 c, hi8 c] @ ys) = unat c + le_sum ys"
    by (simp add: unat_hi_lo)
  ultimately have "oc_sum (xs @ [lo8 c, hi8 c] @ ys) = oc (?n + (65535 - oc ?n))"
    unfolding oc_sum_def le_sum_even [OF assms(1)] by (simp only: ac_simps)
  then have "oc_sum (xs @ [lo8 c, hi8 c] @ ys) = 65535" by (simp only: oc_complement)
  then show ?thesis using assms(2) by (simp add: inet_chksum_0_iff)
qed

end
