(* ===== verification/Ip_Addr.thy ===== *)
theory Ip_Addr
  imports Net Inet_Chksum
begin

text \<open>
  IPv4 addresses, \<open>src/lwip/core/ipv4/ip_addr.c\<close> and \<open>src/include/lwip/ip_addr.h\<close>.  An \<open>ip_addr_t\<close> is its 32-bit member
  \<open>addr\<close>, in network byte order on a little-endian machine.  A C string is the list of its bytes without the
  terminator.
\<close>

definition IPADDR_NONE :: u32 where "IPADDR_NONE = 0xffffffff"
definition IPADDR_ANY :: u32 where "IPADDR_ANY = 0"
definition IPADDR_BROADCAST :: u32 where "IPADDR_BROADCAST = 0xffffffff"

definition IP4_ADDR :: "u32 \<Rightarrow> u32 \<Rightarrow> u32 \<Rightarrow> u32 \<Rightarrow> u32" where
  "IP4_ADDR a b c d = push_bit 24 (d AND 0xff) OR push_bit 16 (c AND 0xff) OR push_bit 8 (b AND 0xff) OR (a AND 0xff)"

definition ip_addr_netcmp :: "u32 \<Rightarrow> u32 \<Rightarrow> u32 \<Rightarrow> bool" where
  "ip_addr_netcmp addr1 addr2 m \<longleftrightarrow> addr1 AND m = addr2 AND m"

definition ip_addr_isany :: "u32 \<Rightarrow> bool" where
  "ip_addr_isany addr \<longleftrightarrow> addr = IPADDR_ANY"

definition ip_addr_ismulticast :: "u32 \<Rightarrow> bool" where
  "ip_addr_ismulticast addr \<longleftrightarrow> addr AND htonl 0xf0000000 = htonl 0xe0000000"

definition ip4_addr_isbroadcast :: "u32 \<Rightarrow> netif \<Rightarrow> bool" where
  "ip4_addr_isbroadcast addr netif =
     (if NOT addr = IPADDR_ANY \<or> addr = IPADDR_ANY then True
      else if ni_flags netif AND NETIF_FLAG_BROADCAST = 0 then False
      else if addr = ni_ip_addr netif then False
      else if ip_addr_netcmp addr (ni_ip_addr netif) (ni_netmask netif) \<and>
              addr AND NOT (ni_netmask netif) = IPADDR_BROADCAST AND NOT (ni_netmask netif) then True
      else False)"

section \<open>Netmasks\<close>

text \<open>The two loops shift \<open>mask\<close> (here \<open>m\<close>) right until it is zero.\<close>

lemma unat_shift_less: "m \<noteq> 0 \<Longrightarrow> unat (drop_bit 1 m) < unat m" for m :: u32
  using unat_gt_0 [of m] by (simp only: unat_take) simp

function first_zero :: "u32 \<Rightarrow> u32 \<Rightarrow> u32" where
  "first_zero nm m =
     (if m \<noteq> 0 then (if nm AND m = 0 then m else first_zero nm (drop_bit 1 m)) else m)"
  by pat_completeness auto
termination
  by (relation "measure (\<lambda>(nm, m). unat m)") (simp, simp only: in_measure split, rule unat_shift_less)

function no_ones :: "u32 \<Rightarrow> u32 \<Rightarrow> bool" where
  "no_ones nm m =
     (if m \<noteq> 0 then (if nm AND m \<noteq> 0 then False else no_ones nm (drop_bit 1 m)) else True)"
  by pat_completeness auto
termination
  by (relation "measure (\<lambda>(nm, m). unat m)") (simp, simp only: in_measure split, rule unat_shift_less)

declare first_zero.simps [simp del] no_ones.simps [simp del]

definition ip4_addr_netmask_valid :: "u32 \<Rightarrow> bool" where
  "ip4_addr_netmask_valid netmask =
     (let nm_hostorder = htonl netmask
      in no_ones nm_hostorder (first_zero nm_hostorder (push_bit 31 1)))"

section \<open>Text\<close>

definition isdigit :: "u8 \<Rightarrow> bool" where "isdigit c \<longleftrightarrow> 48 \<le> c \<and> c \<le> 57"
definition islower :: "u8 \<Rightarrow> bool" where "islower c \<longleftrightarrow> 97 \<le> c \<and> c \<le> 122"
definition isxdigit :: "u8 \<Rightarrow> bool" where "isxdigit c \<longleftrightarrow> isdigit c \<or> 97 \<le> c \<and> c \<le> 102 \<or> 65 \<le> c \<and> c \<le> 70"
definition isspace :: "u8 \<Rightarrow> bool" where "isspace c \<longleftrightarrow> c = 32 \<or> c = 12 \<or> c = 10 \<or> c = 13 \<or> c = 9 \<or> c = 11"

definition cur :: "bytes \<Rightarrow> u8" where
  "cur cp = (case cp of [] \<Rightarrow> 0 | c # _ \<Rightarrow> c)"

text \<open>The inner loop: digits of the base, value modulo \<open>2^32\<close>.\<close>

fun aton_number :: "u32 \<Rightarrow> u32 \<Rightarrow> bytes \<Rightarrow> u32 \<times> bytes" where
  "aton_number base val [] = (val, [])"
| "aton_number base val (c # cp) =
     (if isdigit c then aton_number base (val * base + (ucast c - 48)) cp
      else if base = 16 \<and> isxdigit c
      then aton_number base (push_bit 4 val OR (ucast c + 10 - (if islower c then 97 else 65))) cp
      else (val, c # cp))"

definition aton_prefix :: "bytes \<Rightarrow> u32 \<times> bytes" where
  "aton_prefix cp =
     (if cur cp = 48 then
        (let cp = tl cp in if cur cp = 120 \<or> cur cp = 88 then (16, tl cp) else (8, cp))
      else (10, cp))"

lemma aton_number_length: "length (snd (aton_number base val cp)) \<le> length cp"
  by (induction cp arbitrary: val) (auto intro: le_SucI)

lemma aton_prefix_length: "length (snd (aton_prefix cp)) \<le> length cp"
  by (auto simp: aton_prefix_def Let_def)

text \<open>The outer loop gives the parts before the last one, the last value and the rest of the string, or None for
  a return of 0.\<close>

function aton_loop :: "u32 list \<Rightarrow> bytes \<Rightarrow> (u32 list \<times> u32 \<times> bytes) option" where
  "aton_loop parts cp =
     (if \<not> isdigit (cur cp) then None
      else
        (let (base, cp1) = aton_prefix cp;
             (val, cp2) = aton_number base 0 cp1
         in if cur cp2 = 46 then
              (if length parts \<ge> 3 then None else aton_loop (parts @ [val]) (tl cp2))
            else Some (parts, val, cp2)))"
  by pat_completeness auto
termination
proof (relation "measure (\<lambda>(parts, cp). length cp)", goal_cases)
  case 1
  show ?case by simp
next
  case (2 parts cp p base cp1 v val cp2)
  have "length cp2 \<le> length cp"
    using aton_prefix_length [of cp] aton_number_length [of base 0 cp1] 2(2-5)
    by (metis order.trans snd_conv)
  moreover have "cp2 \<noteq> []" using 2(6) by (auto simp: cur_def)
  ultimately have "length (tl cp2) < length cp" by (cases cp2) simp_all
  then show ?case by simp
qed

declare aton_loop.simps [simp del]

definition ipaddr_aton :: "bytes \<Rightarrow> u32 option" where
  "ipaddr_aton cp = do {
     (parts, val, rest) \<leftarrow> aton_loop [] cp;
     if cur rest \<noteq> 0 \<and> \<not> isspace (cur rest) then None
     else (case parts of
         [] \<Rightarrow> Some (htonl val)
       | [a] \<Rightarrow> if val > 0xffffff then None else Some (htonl (val OR push_bit 24 a))
       | [a, b] \<Rightarrow> if val > 0xffff then None else Some (htonl (val OR (push_bit 24 a OR push_bit 16 b)))
       | [a, b, c] \<Rightarrow> if val > 0xff then None else Some (htonl (val OR (push_bit 24 a OR push_bit 16 b OR push_bit 8 c)))
       | _ \<Rightarrow> Some (htonl val))
   }"

definition ipaddr_addr :: "bytes \<Rightarrow> u32" where
  "ipaddr_addr cp = (case ipaddr_aton cp of Some val \<Rightarrow> val | None \<Rightarrow> IPADDR_NONE)"

text \<open>\<open>ipaddr_ntoa_r\<close>: digits of one byte, last one first, into \<open>inv[3]\<close>, then backwards to the buffer.  The outer
  option is a store outside an array, the inner one the null pointer that is returned.\<close>

function inv_digits :: "u8 \<Rightarrow> bytes \<Rightarrow> bytes option" where
  "inv_digits ap ds =
     (if length ds \<ge> 3 then None
      else
        (let ds = ds @ [48 + ap mod 10]
         in if ap div 10 \<noteq> 0 then inv_digits (ap div 10) ds else Some ds))"
  by pat_completeness auto
termination
  by (relation "measure (\<lambda>(ap, ds). 3 - length ds)") auto

declare inv_digits.simps [simp del]

fun put_chars :: "bytes \<Rightarrow> nat \<Rightarrow> nat \<Rightarrow> bytes \<Rightarrow> (nat \<times> bytes) option option" where
  "put_chars [] buflen len buf = Some (Some (len, buf))"
| "put_chars (c # cs) buflen len buf =
     (if len \<ge> buflen then Some None else do { buf \<leftarrow> poke buf len c; put_chars cs buflen (len + 1) buf })"

fun ntoa_loop :: "bytes \<Rightarrow> nat \<Rightarrow> nat \<Rightarrow> bytes \<Rightarrow> (nat \<times> bytes) option option" where
  "ntoa_loop [] buflen len buf = Some (Some (len, buf))"
| "ntoa_loop (ap # aps) buflen len buf = do {
     ds \<leftarrow> inv_digits ap [];
     r \<leftarrow> put_chars (rev ds @ [46]) buflen len buf;
     case r of None \<Rightarrow> Some None | Some (len, buf) \<Rightarrow> ntoa_loop aps buflen len buf
   }"

definition ipaddr_ntoa_r :: "u32 \<Rightarrow> bytes \<Rightarrow> nat \<Rightarrow> bytes option option" where
  "ipaddr_ntoa_r addr buf buflen = do {
     r \<leftarrow> ntoa_loop (bytes_le32 addr) buflen 0 buf;
     case r of
       None \<Rightarrow> Some None
     | Some (len, buf) \<Rightarrow> do { buf \<leftarrow> poke buf (len - 1) 0; Some (Some buf) }
   }"

definition ipaddr_ntoa :: "u32 \<Rightarrow> bytes \<Rightarrow> bytes option option" where
  "ipaddr_ntoa addr str = ipaddr_ntoa_r addr str 16"

section \<open>Printing and parsing\<close>

definition digit :: "nat \<Rightarrow> u8" where "digit k = 48 + of_nat k"

definition dec :: "nat \<Rightarrow> bytes" where
  "dec n = (if n < 10 then [digit n] else if n < 100 then [digit (n div 10), digit (n mod 10)]
     else [digit (n div 100), digit (n div 10 mod 10), digit (n mod 10)])"

lemma unat_digit: "k < 10 \<Longrightarrow> unat (digit k) = 48 + k"
  by (simp add: digit_def unat_add_lt unat_of_nat take_bit_eq_mod)

lemma isdigit_digit: "k < 10 \<Longrightarrow> isdigit (digit k)"
  using unat_digit [of k] by (simp add: isdigit_def word_le_nat_alt)

lemma digit_neq: "k < 10 \<Longrightarrow> digit k = 48 \<longleftrightarrow> k = 0" "k < 10 \<Longrightarrow> digit k \<noteq> 46"
  using unat_digit [of k] by (auto simp: word_unat_eq_iff)

lemma unat_div_mod_10: "unat (x div 10) = unat x div 10" "unat (x mod 10) = unat x mod 10" for x :: u8
  by (simp_all add: unat_div_distrib unat_mod_distrib)

lemma inv_digits_dec: "inv_digits x [] = Some (rev (dec (unat x)))"
proof -
  have n: "unat x < 256" by (rule unat_word_less)
  have z: "(y div 10 = 0) = (unat y < 10)" for y :: u8
    by (simp add: unat_eq_zero [symmetric] unat_div_mod_10 del: unat_eq_zero) arith
  have d: "48 + y mod 10 = digit (unat y mod 10)" for y :: u8
    by (simp add: digit_def flip: unat_div_mod_10)
  consider "unat x < 10" | "10 \<le> unat x" "unat x < 100" | "100 \<le> unat x" by linarith
  then show ?thesis
  proof cases
    case 1
    then show ?thesis by (subst inv_digits.simps) (simp add: z d dec_def)
  next
    case 2
    then have "unat x div 10 < 10" by simp
    then show ?thesis using 2
      by (subst inv_digits.simps, simp add: z d Let_def, subst inv_digits.simps)
        (simp add: z d dec_def unat_div_mod_10 Let_def)
  next
    case 3
    then have "unat x div 10 \<ge> 10" "unat x div 100 < 10" using n by simp_all
    then show ?thesis using 3
      by (subst inv_digits.simps, simp add: z d Let_def, subst inv_digits.simps, simp add: z d Let_def unat_div_mod_10,
          subst inv_digits.simps)
        (simp add: z d dec_def unat_div_mod_10 Let_def flip: div_mult2_eq)
  qed
qed

lemma aton_number_digit:
  "k < 10 \<Longrightarrow> aton_number 10 v (digit k # cp) = aton_number 10 (v * 10 + of_nat k) cp"
proof -
  assume k: "k < 10"
  have "(ucast (digit k) :: u32) = of_nat (unat (digit k))" by simp
  then have "(ucast (digit k) - 48 :: u32) = of_nat k" using unat_digit [OF k] by simp
  then show ?thesis using isdigit_digit [OF k] by simp
qed

lemma aton_number_stop: "\<not> isdigit (cur rest) \<Longrightarrow> aton_number 10 v rest = (v, rest)" "\<not> isdigit (cur rest) \<Longrightarrow> aton_number 8 v rest = (v, rest)"
  by (cases rest; simp add: cur_def)+

lemma aton_dec:
  assumes "n < 256" "rest = [] \<or> cur rest = 46"
  shows "isdigit (cur (dec n @ rest))" "(let (base, cp) = aton_prefix (dec n @ rest) in aton_number base 0 cp) = (of_nat n, rest)"
proof -
  have r: "\<not> isdigit (cur rest)" "cur rest \<noteq> 120" "cur rest \<noteq> 88"
    using assms(2) by (auto simp: cur_def isdigit_def word_le_nat_alt)
  have d: "n mod 10 < 10" "n div 10 mod 10 < 10" "n < 100 \<Longrightarrow> n div 10 < 10" "n div 100 < 10" using assms(1) by auto
  show "isdigit (cur (dec n @ rest))"
    using d by (auto simp: dec_def cur_def isdigit_digit)
  have split: "n = 100 * (n div 100) + 10 * (n div 10 mod 10) + n mod 10"
  proof -
    have "n = 10 * (n div 10) + n mod 10" "n div 10 = 10 * (n div 10 div 10) + n div 10 mod 10" by simp_all
    moreover have "n div 10 div 10 = n div 100" by (simp flip: div_mult2_eq)
    ultimately show ?thesis by linarith
  qed
  consider "n = 0" | "0 < n" "n < 10" | "10 \<le> n" "n < 100" | "100 \<le> n" by linarith
  then show "(let (base, cp) = aton_prefix (dec n @ rest) in aton_number base 0 cp) = (of_nat n, rest)"
  proof cases
    case 1
    have "digit 0 = 48" by (simp add: digit_def)
    then show ?thesis using 1 r by (simp add: dec_def aton_prefix_def cur_def aton_number_stop split: list.splits)
  next
    case 2
    then show ?thesis using r
      by (simp add: dec_def aton_prefix_def cur_def digit_neq aton_number_digit aton_number_stop del: aton_number.simps)
  next
    case 3
    then have "n = 10 * (n div 10) + n mod 10" "n div 10 \<noteq> 0" by simp_all
    then have "(of_nat (n div 10) * 10 + of_nat (n mod 10) :: u32) = of_nat n"
      by (metis mult.commute of_nat_add of_nat_mult of_nat_numeral)
    then show ?thesis using 3 r d \<open>n div 10 \<noteq> 0\<close>
      by (simp add: dec_def aton_prefix_def cur_def digit_neq aton_number_digit aton_number_stop del: aton_number.simps)
  next
    case 4
    then have "n div 100 \<noteq> 0" by simp
    have "((of_nat (n div 100) * 10 + of_nat (n div 10 mod 10)) * 10 + of_nat (n mod 10) :: u32)
        = of_nat (100 * (n div 100) + 10 * (n div 10 mod 10) + n mod 10)" by (simp add: algebra_simps)
    also have "\<dots> = of_nat n" using split by metis
    finally show ?thesis using 4 r d \<open>n div 100 \<noteq> 0\<close>
      by (simp add: dec_def aton_prefix_def cur_def digit_neq aton_number_digit aton_number_stop del: aton_number.simps)
  qed
qed


lemma aton_step:
  assumes "n < 256"
  shows "length parts < 3 \<Longrightarrow> aton_loop parts (dec n @ 46 # rest) = aton_loop (parts @ [of_nat n]) rest"
    and "aton_loop parts (dec n) = Some (parts, of_nat n, [])"
proof -
  have c: "cur (46 # rest) = 46" "cur [] \<noteq> 46" by (simp_all add: cur_def)
  obtain base cp where p: "aton_prefix (dec n @ 46 # rest) = (base, cp)" by force
  obtain base' cp' where p': "aton_prefix (dec n) = (base', cp')" by force
  note d = aton_dec [OF assms, of "46 # rest"] and d' = aton_dec [OF assms, of "[]"]
  show "aton_loop parts (dec n @ 46 # rest) = aton_loop (parts @ [of_nat n]) rest" if "length parts < 3"
    using that d c p by (subst aton_loop.simps) simp
  show "aton_loop parts (dec n) = Some (parts, of_nat n, [])"
    using d' c p' by (subst aton_loop.simps) simp
qed

lemma put_chars_spec:
  "len + length cs \<le> buflen \<Longrightarrow> buflen \<le> length buf \<Longrightarrow>
   put_chars cs buflen len buf = Some (Some (len + length cs, take len buf @ cs @ drop (len + length cs) buf))"
proof (induction cs arbitrary: len buf)
  case (Cons c cs)
  have "take (Suc len) (buf[len := c]) = take len buf @ [c]" "drop (Suc len + length cs) (buf[len := c]) = drop (Suc len + length cs) buf"
    using Cons.prems by (simp_all add: take_list_update_last)
  then show ?case using Cons.prems Cons.IH [of "Suc len" "buf[len := c]"] by (simp add: fault_simps)
qed simp

lemma dec_length: "n < 256 \<Longrightarrow> 1 \<le> length (dec n) \<and> length (dec n) \<le> 3"
  by (simp add: dec_def)

lemma ntoa_loop_spec:
  "len + length (concat (map (\<lambda>x. dec (unat x) @ [46]) xs)) \<le> buflen \<Longrightarrow> buflen \<le> length buf \<Longrightarrow>
   ntoa_loop xs buflen len buf =
     (let s = concat (map (\<lambda>x. dec (unat x) @ [46]) xs)
      in Some (Some (len + length s, take len buf @ s @ drop (len + length s) buf)))"
proof (induction xs arbitrary: len buf)
  case (Cons x xs)
  have put: "put_chars (dec (unat x) @ [46]) buflen len buf = Some (Some (len + (length (dec (unat x)) + 1),
      take len buf @ (dec (unat x) @ [46]) @ drop (len + (length (dec (unat x)) + 1)) buf))"
    using put_chars_spec [of len "dec (unat x) @ [46]" buflen buf] Cons.prems by simp
  have l: "len \<le> length buf" using Cons.prems by simp
  show ?case
    using put Cons.prems l Cons.IH [of "len + (length (dec (unat x)) + 1)"
        "take len buf @ (dec (unat x) @ [46]) @ drop (len + (length (dec (unat x)) + 1)) buf"]
    by (simp add: inv_digits_dec Let_def min_def ac_simps)
qed simp


lemma htonl_bytes:
  "htonl (ucast (ucast (drop_bit 24 w) :: u8) OR (push_bit 24 (ucast (ucast w :: u8)) OR
     push_bit 16 (ucast (ucast (drop_bit 8 w) :: u8)) OR push_bit 8 (ucast (ucast (drop_bit 16 w) :: u8)))) = w"
  (is "htonl ?x = w")
proof (rule bit_word_eqI)
  fix n
  assume "n < LENGTH(32)"
  then have n: "n < 32" by simp
  have ff: "(0xff00 :: u32) = push_bit 8 (mask 8)" "(0xff :: u32) = mask 8" by (simp_all add: mask_numeral)
  consider "n < 8" | "8 \<le> n" "n < 16" | "16 \<le> n" "n < 24" | "24 \<le> n" "n < 32" using n by linarith
  then show "bit (htonl ?x) n = bit w n"
    unfolding htonl_def LWIP_PLATFORM_HTONL_def ff by cases (auto simp: bit_simps)
qed

text \<open>C38: Every address is printed in dotted decimal into a buffer of 16 bytes without a store outside it or outside
  the array of digits, with a terminator, and \<open>ipaddr_aton\<close> (and \<open>ipaddr_addr\<close>) reads the text back as the same
  address.\<close>

theorem ipaddr_roundtrip:
  assumes "16 \<le> length str"
  shows "\<exists>s rest. ipaddr_ntoa addr str = Some (Some (s @ 0 # rest)) \<and> length (s @ 0 # rest) = length str \<and>
    ipaddr_aton s = Some addr \<and> ipaddr_addr s = addr"
proof -
  define a b c d :: u8 where "a = ucast addr" and "b = ucast (drop_bit 8 addr)" and "c = ucast (drop_bit 16 addr)"
    and "d = ucast (drop_bit 24 addr)"
  have bs: "bytes_le32 addr = [a, b, c, d]" by (simp add: bytes_le32_def a_def b_def c_def d_def)
  note u = unat_word_less(1) [of a] unat_word_less(1) [of b] unat_word_less(1) [of c] unat_word_less(1) [of d]
  define s where "s = dec (unat a) @ [46] @ dec (unat b) @ [46] @ dec (unat c) @ [46] @ dec (unat d)"
  have t: "concat (map (\<lambda>x. dec (unat x) @ [46]) (bytes_le32 addr)) = s @ [46]" by (simp add: bs s_def)
  have len: "length s + 1 \<le> 16"
    using dec_length [OF u(1)] dec_length [OF u(2)] dec_length [OF u(3)] dec_length [OF u(4)] by (simp add: s_def)
  then have "ntoa_loop (bytes_le32 addr) 16 0 str = Some (Some (length s + 1, s @ [46] @ drop (length s + 1) str))"
    using ntoa_loop_spec [of 0 "bytes_le32 addr" 16 str] assms unfolding t by (simp add: Let_def)
  then have "ipaddr_ntoa addr str = Some (Some (s @ 0 # drop (length s + 1) str))"
    by (simp add: ipaddr_ntoa_def ipaddr_ntoa_r_def fault_simps list_update_at_length)
  moreover have "aton_loop [] s = Some ([ucast a, ucast b, ucast c], ucast d, [])"
    using aton_step [OF u(1)] aton_step [OF u(2)] aton_step [OF u(3)] aton_step(2) [OF u(4)] by (simp add: s_def)
  moreover have "\<not> ucast d > (0xff :: u32)" using u(4) by (simp add: word_less_nat_alt not_less)
  moreover have "htonl (ucast d OR (push_bit 24 (ucast a) OR push_bit 16 (ucast b) OR push_bit 8 (ucast c))) = addr"
    unfolding a_def b_def c_def d_def by (rule htonl_bytes)
  ultimately show ?thesis
    using len assms by (intro exI [of _ s] exI [of _ "drop (length s + 1) str"])
      (simp add: ipaddr_aton_def ipaddr_addr_def cur_def)
qed

theorem ipaddr_roundtrip_witness:
  "\<exists>s rest. ipaddr_ntoa 0x0A0200C0 (replicate 16 0) = Some (Some (s @ 0 # rest)) \<and> ipaddr_aton s = Some 0x0A0200C0"
  using ipaddr_roundtrip [of "replicate 16 0" "0x0A0200C0"] by auto

text \<open>The components before the last one are not checked against 255: \<open>300.1.2.3\<close> is accepted as \<open>44.1.2.3\<close>.\<close>

lemma aton_accepts_out_of_range:
  "ipaddr_aton [51, 48, 48, 46, 49, 46, 50, 46, 51] = Some (IP4_ADDR 44 1 2 3)"
  by code_simp

section \<open>Netmasks\<close>

lemma push_bit_Suc_drop: "drop_bit 1 (push_bit (Suc k) 1) = (push_bit k 1 :: u32)" if "Suc k < 32"
  by (rule bit_word_eqI) (use that in \<open>auto simp: bit_simps\<close>)

lemma single_bit:
  "k < 32 \<Longrightarrow> (push_bit k 1 :: u32) \<noteq> 0 \<and> (nm AND push_bit k 1 = 0 \<longleftrightarrow> \<not> bit nm k)" for nm :: u32
  by (simp add: bit_iff_and_push_bit_not_eq_0 push_bit_eq_0_iff)

lemma no_ones_0 [simp]: "no_ones nm 0" "first_zero nm 0 = 0"
  by (simp_all add: no_ones.simps first_zero.simps)

lemma drop_bit_one: "drop_bit 1 (push_bit 0 1) = (0 :: u32)"
  by simp

lemma no_ones_spec: "k < 32 \<Longrightarrow> no_ones nm (push_bit k 1) \<longleftrightarrow> (\<forall>j \<le> k. \<not> bit nm j)"
proof (induction k)
  case 0
  then show ?case using single_bit [of 0 nm] by (subst no_ones.simps) (simp only: drop_bit_one, simp)
next
  case (Suc k)
  then show ?case
    using single_bit [of "Suc k" nm]
    by (subst no_ones.simps) (simp only: push_bit_Suc_drop, auto simp: le_Suc_eq)
qed

lemma first_zero_spec:
  "k < 32 \<Longrightarrow> no_ones nm (first_zero nm (push_bit k 1)) \<longleftrightarrow> (\<exists>n \<le> Suc k. \<forall>j \<le> k. bit nm j \<longleftrightarrow> n \<le> j)"
proof (induction k)
  case 0
  have "\<exists>n \<le> Suc 0. \<forall>j \<le> 0. bit nm j \<longleftrightarrow> n \<le> j" by (cases "bit nm 0") (auto intro: exI [of _ 0] exI [of _ 1])
  moreover have "no_ones nm (first_zero nm (push_bit 0 1))"
    using single_bit [of 0 nm] no_ones_spec [of 0 nm] by (subst first_zero.simps) (simp only: drop_bit_one, auto)
  ultimately show ?case by simp
next
  case (Suc k)
  show ?case
  proof (cases "bit nm (Suc k)")
    case True
    then have "first_zero nm (push_bit (Suc k) 1) = first_zero nm (push_bit k 1)"
      using single_bit [of "Suc k" nm] Suc.prems by (subst first_zero.simps) (simp only: push_bit_Suc_drop, simp)
    moreover have "(\<exists>n \<le> Suc (Suc k). \<forall>j \<le> Suc k. bit nm j \<longleftrightarrow> n \<le> j) \<longleftrightarrow> (\<exists>n \<le> Suc k. \<forall>j \<le> k. bit nm j \<longleftrightarrow> n \<le> j)"
      using True by (auto simp: le_Suc_eq)
    ultimately show ?thesis using Suc by simp
  next
    case False
    then have "first_zero nm (push_bit (Suc k) 1) = push_bit (Suc k) 1"
      using single_bit [of "Suc k" nm] Suc.prems by (subst first_zero.simps) simp
    moreover have "(\<exists>n \<le> Suc (Suc k). \<forall>j \<le> Suc k. bit nm j \<longleftrightarrow> n \<le> j) \<longleftrightarrow> (\<forall>j \<le> Suc k. \<not> bit nm j)"
      using False by (auto intro: exI [of _ "Suc (Suc k)"])
    ultimately show ?thesis using no_ones_spec [OF Suc.prems, of nm] by simp
  qed
qed

text \<open>C39: \<open>ip4_addr_netmask_valid\<close> accepts exactly the 33 masks of a prefix length: in host order, ones in the upper
  \<open>len\<close> bits and zeros below.\<close>

theorem ip4_addr_netmask_valid_iff:
  "ip4_addr_netmask_valid netmask \<longleftrightarrow> (\<exists>len \<le> 32. htonl netmask = NOT (mask (32 - len)))"
proof -
  have m: "(\<forall>j \<le> 31. bit w j \<longleftrightarrow> n \<le> j) \<longleftrightarrow> w = NOT (mask n)" for w :: u32 and n
  proof
    assume "\<forall>j \<le> 31. bit w j \<longleftrightarrow> n \<le> j"
    then show "w = NOT (mask n)" by (intro bit_word_eqI) (auto simp: bit_simps)
  next
    assume "w = NOT (mask n)"
    then show "\<forall>j \<le> 31. bit w j \<longleftrightarrow> n \<le> j" by (auto simp: bit_simps)
  qed
  have "ip4_addr_netmask_valid netmask \<longleftrightarrow> (\<exists>n \<le> 32. htonl netmask = NOT (mask n))"
    using first_zero_spec [of 31 "htonl netmask"] by (simp add: ip4_addr_netmask_valid_def m)
  also have "\<dots> \<longleftrightarrow> (\<exists>len \<le> 32. htonl netmask = NOT (mask (32 - len)))"
    by (metis diff_diff_cancel diff_le_self)
  finally show ?thesis .
qed

end
