(* ===== verification/Ip.thy ===== *)
theory Ip
  imports Ip_Addr
begin

text \<open>
  The IP layer, \<open>src/lwip/core/ipv4/ip.c\<close>, and raw sockets, \<open>src/lwip/core/raw.c\<close>, in the configuration of \<open>lwipopts.h\<close>:
  no fragmentation, no forwarding, no loopback, options allowed, header checksum generated inline and checked,
  DHCP and IGMP on.

  The functions work on any extension of \<open>net\<close>.  What they call through pointers or in other protocols
  (\<open>netif->output\<close>, the receive callback of a raw socket, \<open>udp_input\<close> and so on) is the parameter \<open>ip_env\<close>:
  each field may change the whole state or fail.
\<close>

section \<open>Header\<close>

definition IP_HLEN :: int where "IP_HLEN = 20"
definition IP_PROTO_ICMP :: u8 where "IP_PROTO_ICMP = 1"
definition IP_PROTO_IGMP :: u8 where "IP_PROTO_IGMP = 2"
definition IP_PROTO_UDP :: u8 where "IP_PROTO_UDP = 17"
definition IP_PROTO_TCP :: u8 where "IP_PROTO_TCP = 6"
definition IP_OFFMASK :: u16 where "IP_OFFMASK = 0x1fff"
definition IP_MF :: u16 where "IP_MF = 0x2000"

record ip_hdr =
  v_hl_tos :: u16
  iph_len :: u16
  iph_id :: u16
  iph_offset :: u16
  iph_ttl :: u8
  iph_proto :: u8
  iph_chksum :: u16
  iph_src :: u32
  iph_dest :: u32

text \<open>The structure in memory.\<close>

definition mem16 :: "u16 \<Rightarrow> bytes" where "mem16 w = [lo8 w, hi8 w]"

definition ip_hdr_bytes :: "ip_hdr \<Rightarrow> bytes" where
  "ip_hdr_bytes h = mem16 (v_hl_tos h) @ mem16 (iph_len h) @ mem16 (iph_id h) @ mem16 (iph_offset h)
     @ [iph_ttl h, iph_proto h] @ mem16 (iph_chksum h) @ bytes_le32 (iph_src h) @ bytes_le32 (iph_dest h)"

definition ip_hdr_of :: "bytes \<Rightarrow> ip_hdr" where
  "ip_hdr_of d = \<lparr>v_hl_tos = le16 (d ! 0) (d ! 1), iph_len = le16 (d ! 2) (d ! 3), iph_id = le16 (d ! 4) (d ! 5),
     iph_offset = le16 (d ! 6) (d ! 7), iph_ttl = d ! 8, iph_proto = d ! 9, iph_chksum = le16 (d ! 10) (d ! 11),
     iph_src = le32 (d ! 12) (d ! 13) (d ! 14) (d ! 15), iph_dest = le32 (d ! 16) (d ! 17) (d ! 18) (d ! 19)\<rparr>"

text \<open>Access to single members of a header in the payload of a pbuf.\<close>

definition hdr8 :: "pbuf \<Rightarrow> nat \<Rightarrow> u8 option" where
  "hdr8 b off = do { d \<leftarrow> pb_read b off 1; Some (d ! 0) }"

definition hdr16 :: "pbuf \<Rightarrow> nat \<Rightarrow> u16 option" where
  "hdr16 b off = do { d \<leftarrow> pb_read b off 2; Some (le16 (d ! 0) (d ! 1)) }"

definition hdr32 :: "pbuf \<Rightarrow> nat \<Rightarrow> u32 option" where
  "hdr32 b off = do { d \<leftarrow> pb_read b off 4; Some (le32 (d ! 0) (d ! 1) (d ! 2) (d ! 3)) }"

text \<open>The macros on the first member.\<close>

definition IPH_V :: "u16 \<Rightarrow> u16" where "IPH_V w = drop_bit 12 (ntohs w)"
definition IPH_HL :: "u16 \<Rightarrow> u16" where "IPH_HL w = drop_bit 8 (ntohs w) AND 0x0f"

definition IPH_VHLTOS :: "u16 \<Rightarrow> u16 \<Rightarrow> u8 \<Rightarrow> u16" where
  "IPH_VHLTOS v hl tos = htons (push_bit 12 v OR push_bit 8 hl OR ucast tos)"

definition LWIP_MAKE_U16 :: "u8 \<Rightarrow> u8 \<Rightarrow> u32" where
  "LWIP_MAKE_U16 a b = push_bit 8 (ucast a) OR ucast b"

section \<open>Calls out\<close>

record 'g ip_env =
  payload_odd :: "pbuf \<Rightarrow> bool"
  mem_malloc :: malloc
  netif_output :: "nat \<Rightarrow> nat \<Rightarrow> nat \<Rightarrow> u32 \<Rightarrow> 'g \<Rightarrow> (err \<times> 'g) option"
  raw_recv_fn :: "nat \<Rightarrow> nat \<Rightarrow> nat \<Rightarrow> nat \<Rightarrow> u32 \<Rightarrow> 'g \<Rightarrow> (u8 \<times> 'g) option"
  udp_input_fn :: "nat \<Rightarrow> nat \<Rightarrow> 'g \<Rightarrow> 'g option"
  tcp_input_fn :: "nat \<Rightarrow> nat \<Rightarrow> 'g \<Rightarrow> 'g option"
  icmp_input_fn :: "nat \<Rightarrow> nat \<Rightarrow> 'g \<Rightarrow> 'g option"
  igmp_input_fn :: "nat \<Rightarrow> nat \<Rightarrow> u32 \<Rightarrow> 'g \<Rightarrow> 'g option"
  icmp_dest_unreach_fn :: "nat \<Rightarrow> 'g \<Rightarrow> 'g option"

text \<open>An operation on the packet buffers as one on the globals.\<close>

definition on_pbufs :: "(pheap \<Rightarrow> ('r \<times> pheap) option) \<Rightarrow> ('a net_scheme) \<Rightarrow> ('r \<times> 'a net_scheme) option" where
  "on_pbufs f g = do { (r, h) \<leftarrow> f (pbufs g); Some (r, g\<lparr>pbufs := h\<rparr>) }"

definition free_pbuf :: "nat \<Rightarrow> ('a net_scheme) \<Rightarrow> ('a net_scheme) option" where
  "free_pbuf p g = do { (_, g) \<leftarrow> on_pbufs (pbuf_free (Some p)) g; Some g }"

section \<open>Routing\<close>

fun route_loop :: "u32 \<Rightarrow> nat list \<Rightarrow> 'a net_scheme \<Rightarrow> nat option option" where
  "route_loop dest [] g = Some None"
| "route_loop dest (netif # rest) g = do {
     ni \<leftarrow> netif_mem g netif;
     if netif_is_up ni \<and> ip_addr_netcmp dest (ni_ip_addr ni) (ni_netmask ni) then Some (Some netif)
     else if netif_is_up ni \<and> \<not> ip4_addr_isbroadcast dest ni \<and> Some netif \<noteq> netif_default g then Some (Some netif)
     else route_loop dest rest g
   }"

definition default_route :: "'a net_scheme \<Rightarrow> nat option option" where
  "default_route g = (case netif_default g of
       None \<Rightarrow> Some None
     | Some d \<Rightarrow> do { ni \<leftarrow> netif_mem g d; Some (if netif_is_up ni then Some d else None) })"

definition ip_route :: "u32 \<Rightarrow> 'a net_scheme \<Rightarrow> nat option option" where
  "ip_route dest g = do {
     r \<leftarrow> route_loop dest (netif_list g) g;
     case r of Some n \<Rightarrow> Some (Some n) | None \<Rightarrow> default_route g
   }"

fun router_loop :: "u32 \<Rightarrow> u32 \<Rightarrow> nat list \<Rightarrow> 'a net_scheme \<Rightarrow> nat option option" where
  "router_loop dest source [] g = Some None"
| "router_loop dest source (netif # rest) g = do {
     ni \<leftarrow> netif_mem g netif;
     if netif_is_up ni \<and> ip_addr_netcmp dest (ni_ip_addr ni) (ni_netmask ni) then Some (Some netif)
     else if netif_is_up ni \<and> ip_addr_netcmp source (ni_ip_addr ni) (ni_netmask ni) then Some (Some netif)
     else router_loop dest source rest g
   }"

definition ip_router :: "u32 \<Rightarrow> u32 \<Rightarrow> 'a net_scheme \<Rightarrow> nat option option" where
  "ip_router dest source g = do {
     r \<leftarrow> router_loop dest source (netif_list g) g;
     case r of Some n \<Rightarrow> Some (Some n) | None \<Rightarrow> default_route g
   }"

section \<open>Output\<close>

text \<open>\<open>chk_sum\<close> as \<open>ip_output_if_opt\<close> accumulates and folds it.\<close>

fun sum_options :: "u32 \<Rightarrow> bytes \<Rightarrow> u32" where
  "sum_options chk_sum (a # b # xs) = sum_options (chk_sum + ucast (le16 a b)) xs"
| "sum_options chk_sum xs = chk_sum"

definition inline_chksum :: "u32 \<Rightarrow> ip_hdr \<Rightarrow> u16" where
  "inline_chksum chk_sum h =
     (let chk_sum = chk_sum + LWIP_MAKE_U16 (iph_proto h) (iph_ttl h);
          chk_sum = chk_sum + (iph_dest h AND 0xFFFF);
          chk_sum = chk_sum + drop_bit 16 (iph_dest h);
          chk_sum = chk_sum + ucast (v_hl_tos h);
          chk_sum = chk_sum + ucast (iph_len h);
          chk_sum = chk_sum + ucast (iph_id h);
          chk_sum = chk_sum + (iph_src h AND 0xFFFF);
          chk_sum = chk_sum + drop_bit 16 (iph_src h);
          chk_sum = drop_bit 16 chk_sum + (chk_sum AND 0xFFFF);
          chk_sum = drop_bit 16 chk_sum + chk_sum
      in ucast (NOT chk_sum))"

text \<open>\<open>dest = None\<close> is \<open>IP_HDRINCL\<close>; \<open>src\<close> may be a null pointer.\<close>

definition ip_output_if_opt ::
  "('a net_scheme) ip_env \<Rightarrow> nat \<Rightarrow> u32 option \<Rightarrow> u32 option \<Rightarrow> u8 \<Rightarrow> u8 \<Rightarrow> u8 \<Rightarrow> nat \<Rightarrow> bytes \<Rightarrow> 'a net_scheme \<Rightarrow>
     (err \<times> 'a net_scheme) option" where
  "ip_output_if_opt env p src dest ttl tos proto netif ip_options g = (case dest of
       Some dst \<Rightarrow> do {
         let optlen = length ip_options;
         let optlen_aligned = (optlen + 3) div 4 * 4;
         (bad, g, chk_sum) \<leftarrow>
           (if optlen \<noteq> 0 then do {
              (st, g) \<leftarrow> on_pbufs (pbuf_header (Some p) (int optlen_aligned)) g;
              if st \<noteq> 0 then Some (True, g, 0)
              else do {
                b \<leftarrow> pbufs g p;
                let opts = ip_options @ replicate (optlen_aligned - optlen) 0;
                b \<leftarrow> pb_write b 0 opts;
                Some (False, g\<lparr>pbufs := (pbufs g)(p \<mapsto> b)\<rparr>, sum_options 0 opts)
              }
            }
            else Some (False, g, 0));
         if bad then Some (ERR_BUF, g)
         else do {
           (st, g) \<leftarrow> on_pbufs (pbuf_header (Some p) IP_HLEN) g;
           if st \<noteq> 0 then Some (ERR_BUF, g)
           else do {
             b \<leftarrow> pbufs g p;
             ni \<leftarrow> netif_mem g netif;
             let h = \<lparr>v_hl_tos = IPH_VHLTOS 4 (of_nat ((20 + optlen_aligned) div 4)) tos, iph_len = htons (tot_len b),
                      iph_id = htons (ip_id g), iph_offset = 0, iph_ttl = ttl, iph_proto = proto, iph_chksum = 0,
                      iph_src = (if src = None \<or> ip_addr_isany (the src) then ni_ip_addr ni else the src),
                      iph_dest = dst\<rparr>;
             let h = h\<lparr>iph_chksum := inline_chksum chk_sum h\<rparr>;
             b \<leftarrow> pb_write b 0 (ip_hdr_bytes h);
             let g = g\<lparr>pbufs := (pbufs g)(p \<mapsto> b), ip_id := ip_id g + 1\<rparr>;
             netif_output env (ni_output ni) netif p dst g
           }
         }
       }
     | None \<Rightarrow> do {
         b \<leftarrow> pbufs g p;
         dst \<leftarrow> hdr32 b 16;
         ni \<leftarrow> netif_mem g netif;
         netif_output env (ni_output ni) netif p dst g
       })"

definition ip_output_if ::
  "('a net_scheme) ip_env \<Rightarrow> nat \<Rightarrow> u32 option \<Rightarrow> u32 option \<Rightarrow> u8 \<Rightarrow> u8 \<Rightarrow> u8 \<Rightarrow> nat \<Rightarrow> 'a net_scheme \<Rightarrow>
     (err \<times> 'a net_scheme) option" where
  "ip_output_if env p src dest ttl tos proto netif g = ip_output_if_opt env p src dest ttl tos proto netif [] g"

definition ip_output ::
  "('a net_scheme) ip_env \<Rightarrow> nat \<Rightarrow> u32 option \<Rightarrow> u32 \<Rightarrow> u8 \<Rightarrow> u8 \<Rightarrow> u8 \<Rightarrow> 'a net_scheme \<Rightarrow> (err \<times> 'a net_scheme) option" where
  "ip_output env p src dest ttl tos proto g = do {
     r \<leftarrow> ip_route dest g;
     case r of None \<Rightarrow> Some (ERR_RTE, g) | Some netif \<Rightarrow> ip_output_if env p src (Some dest) ttl tos proto netif g
   }"

section \<open>Raw sockets\<close>

definition RAW_TTL :: u8 where "RAW_TTL = 255"

definition upd_pcb :: "nat \<Rightarrow> (raw_pcb \<Rightarrow> raw_pcb) \<Rightarrow> 'a net_scheme \<Rightarrow> ('a net_scheme) option" where
  "upd_pcb pcb f g = do { b \<leftarrow> raw_mem g pcb; Some (g\<lparr>raw_mem := (raw_mem g)(pcb \<mapsto> f b)\<rparr>) }"

text \<open>\<open>alloc\<close> is \<open>memp_malloc(MEMP_RAW_PCB)\<close>: null or the address of a fresh block.\<close>

definition raw_new :: "('a net_scheme \<Rightarrow> nat option) \<Rightarrow> u8 \<Rightarrow> 'a net_scheme \<Rightarrow> nat option \<times> 'a net_scheme" where
  "raw_new alloc proto g = (case alloc g of
       None \<Rightarrow> (None, g)
     | Some pcb \<Rightarrow>
         (Some pcb, g\<lparr>raw_mem := (raw_mem g)(pcb \<mapsto> \<lparr>local_ip = 0, remote_ip = 0, so_options = 0, pcb_tos = 0,
             pcb_ttl = RAW_TTL, protocol = proto, recv = 0, recv_arg = 0\<rparr>), raw_pcbs := pcb # raw_pcbs g\<rparr>))"

definition raw_bind :: "nat \<Rightarrow> u32 \<Rightarrow> 'a net_scheme \<Rightarrow> (err \<times> 'a net_scheme) option" where
  "raw_bind pcb ipaddr g = do { g \<leftarrow> upd_pcb pcb (\<lambda>b. b\<lparr>local_ip := ipaddr\<rparr>) g; Some (ERR_OK, g) }"

definition raw_connect :: "nat \<Rightarrow> u32 \<Rightarrow> 'a net_scheme \<Rightarrow> (err \<times> 'a net_scheme) option" where
  "raw_connect pcb ipaddr g = do { g \<leftarrow> upd_pcb pcb (\<lambda>b. b\<lparr>remote_ip := ipaddr\<rparr>) g; Some (ERR_OK, g) }"

definition raw_recv :: "nat \<Rightarrow> nat \<Rightarrow> nat \<Rightarrow> 'a net_scheme \<Rightarrow> ('a net_scheme) option" where
  "raw_recv pcb fn arg g = upd_pcb pcb (\<lambda>b. b\<lparr>recv := fn, recv_arg := arg\<rparr>) g"

definition raw_remove :: "nat \<Rightarrow> 'a net_scheme \<Rightarrow> 'a net_scheme" where
  "raw_remove pcb g = g\<lparr>raw_pcbs := remove1 pcb (raw_pcbs g), raw_mem := (raw_mem g)(pcb := None)\<rparr>"

text \<open>The pcb that is linked behind another one.\<close>

definition next_in :: "nat \<Rightarrow> nat list \<Rightarrow> nat option" where
  "next_in a xs = (case dropWhile (\<lambda>x. x \<noteq> a) xs of _ # y # _ \<Rightarrow> Some y | _ \<Rightarrow> None)"

partial_function (option) raw_input_loop ::
  "('a net_scheme) ip_env \<Rightarrow> u16 \<Rightarrow> nat option \<Rightarrow> nat option \<Rightarrow> nat \<Rightarrow> 'a net_scheme \<Rightarrow> (u8 \<times> 'a net_scheme) option" where
  "raw_input_loop env proto prev pcb p g = (case pcb of
       None \<Rightarrow> Some (0, g)
     | Some a \<Rightarrow> do {
         b \<leftarrow> raw_mem g a;
         (eaten, g) \<leftarrow>
           (if ucast (protocol b) = proto \<and>
               (ip_addr_isany (local_ip b) \<or> local_ip b = current_iphdr_dest g) \<and> recv b \<noteq> 0
            then do {
              (r, g) \<leftarrow> raw_recv_fn env (recv b) (recv_arg b) a p (current_iphdr_src g) g;
              Some (r \<noteq> 0, g)
            }
            else Some (False, g));
         if eaten then
           Some (1, if prev \<noteq> None then g\<lparr>raw_pcbs := a # remove1 a (raw_pcbs g)\<rparr> else g)
         else raw_input_loop env proto (Some a) (next_in a (raw_pcbs g)) p g
       })"

definition raw_input :: "('a net_scheme) ip_env \<Rightarrow> nat \<Rightarrow> 'a net_scheme \<Rightarrow> (u8 \<times> 'a net_scheme) option" where
  "raw_input env p g = do {
     b \<leftarrow> pbufs g p;
     proto \<leftarrow> hdr8 b 9;
     raw_input_loop env (ucast proto) None (case raw_pcbs g of [] \<Rightarrow> None | a # _ \<Rightarrow> Some a) p g
   }"

definition raw_sendto ::
  "('a net_scheme) ip_env \<Rightarrow> nat \<Rightarrow> nat \<Rightarrow> u32 \<Rightarrow> 'a net_scheme \<Rightarrow> (err \<times> 'a net_scheme) option" where
  "raw_sendto env pcb p ipaddr g = do {
     (st, g) \<leftarrow> on_pbufs (pbuf_header (Some p) IP_HLEN) g;
     (q, g) \<leftarrow>
       (if st \<noteq> 0 then do {
          (q, g) \<leftarrow> on_pbufs (pbuf_alloc (mem_malloc env) PBUF_IP 0 PBUF_RAM) g;
          case q of
            None \<Rightarrow> Some (None, g)
          | Some q' \<Rightarrow> do {
              b \<leftarrow> pbufs g p;
              if tot_len b \<noteq> 0 then do { h \<leftarrow> pbuf_chain q (Some p) (pbufs g); Some (q, g\<lparr>pbufs := h\<rparr>) }
              else Some (q, g)
            }
        }
        else do {
          (st, g) \<leftarrow> on_pbufs (pbuf_header (Some p) (- IP_HLEN)) g;
          Some (if st \<noteq> 0 then None else Some p, g)
        });
     case q of
       None \<Rightarrow> Some (ERR_MEM, g)
     | Some q \<Rightarrow> do {
         r \<leftarrow> ip_route ipaddr g;
         (err, g) \<leftarrow> (case r of
             None \<Rightarrow> Some (ERR_RTE, g)
           | Some netif \<Rightarrow> do {
               b \<leftarrow> raw_mem g pcb;
               ni \<leftarrow> netif_mem g netif;
               let src_ip = (if ip_addr_isany (local_ip b) then ni_ip_addr ni else local_ip b);
               ip_output_if env q (Some src_ip) (Some ipaddr) (pcb_ttl b) (pcb_tos b) (protocol b) netif g
             });
         g \<leftarrow> (if q \<noteq> p then free_pbuf q g else Some g);
         Some (err, g)
       }
   }"

definition raw_send :: "('a net_scheme) ip_env \<Rightarrow> nat \<Rightarrow> nat \<Rightarrow> 'a net_scheme \<Rightarrow> (err \<times> 'a net_scheme) option" where
  "raw_send env pcb p g = do { b \<leftarrow> raw_mem g pcb; raw_sendto env pcb p (remote_ip b) g }"


section \<open>Input\<close>

definition drop_ip :: "nat \<Rightarrow> 'a net_scheme \<Rightarrow> (err \<times> 'a net_scheme) option" where
  "drop_ip p g = do { g \<leftarrow> free_pbuf p g; Some (ERR_OK, g) }"

text \<open>The interface that accepts a destination: \<open>inp\<close> first, then the others in the order of the list.\<close>

fun match_netif :: "u32 \<Rightarrow> nat list \<Rightarrow> 'a net_scheme \<Rightarrow> nat option option" where
  "match_netif dest [] g = Some None"
| "match_netif dest (netif # rest) g = do {
     ni \<leftarrow> netif_mem g netif;
     if netif_is_up ni \<and> \<not> ip_addr_isany (ni_ip_addr ni) \<and>
        (dest = ni_ip_addr ni \<or> ip4_addr_isbroadcast dest ni)
     then Some (Some netif) else match_netif dest rest g
   }"

text \<open>\<open>igmp_lookfor_group\<close> of \<open>igmp.c\<close>, which \<open>ip_input\<close> asks for multicast destinations.\<close>

fun lookfor_loop :: "nat \<Rightarrow> u32 \<Rightarrow> nat list \<Rightarrow> 'a net_scheme \<Rightarrow> nat option option" where
  "lookfor_loop ifp addr [] g = Some None"
| "lookfor_loop ifp addr (grp # rest) g = do {
     gr \<leftarrow> igmp_mem g grp;
     if grp_netif gr = ifp \<and> group_address gr = addr then Some (Some grp) else lookfor_loop ifp addr rest g
   }"

definition igmp_lookfor_group :: "nat \<Rightarrow> u32 \<Rightarrow> 'a net_scheme \<Rightarrow> nat option option" where
  "igmp_lookfor_group ifp addr g = lookfor_loop ifp addr (igmp_group_list g) g"

definition input_netif :: "nat \<Rightarrow> u32 \<Rightarrow> 'a net_scheme \<Rightarrow> nat option option" where
  "input_netif inp dest g =
     (if ip_addr_ismulticast dest then do {
        ni \<leftarrow> netif_mem g inp;
        if ni_flags ni AND NETIF_FLAG_IGMP \<noteq> 0 then do {
          grp \<leftarrow> igmp_lookfor_group inp dest g;
          Some (if grp \<noteq> None then Some inp else None)
        }
        else Some None
      }
      else match_netif dest (inp # filter (\<lambda>n. n \<noteq> inp) (netif_list g)) g)"

text \<open>Delivery to raw sockets and then to the protocols; \<open>iphdr\<close> is the pointer to the header.\<close>

definition deliver :: "('a net_scheme) ip_env \<Rightarrow> nat \<Rightarrow> nat \<Rightarrow> int option \<Rightarrow> 'a net_scheme \<Rightarrow> ('a net_scheme) option" where
  "deliver env p inp iphdr g = do {
     (eaten, g) \<leftarrow> raw_input env p g;
     if eaten \<noteq> 0 then Some g
     else do {
       b \<leftarrow> pbufs g p;
       proto \<leftarrow> hdr8 (b\<lparr>pb_payload := iphdr\<rparr>) 9;
       if proto = IP_PROTO_UDP then udp_input_fn env p inp g
       else if proto = IP_PROTO_TCP then tcp_input_fn env p inp g
       else if proto = IP_PROTO_ICMP then icmp_input_fn env p inp g
       else if proto = IP_PROTO_IGMP then igmp_input_fn env p inp (current_iphdr_dest g) g
       else do {
         ni \<leftarrow> netif_mem g inp;
         g \<leftarrow> (if \<not> ip4_addr_isbroadcast (current_iphdr_dest g) ni \<and> \<not> ip_addr_ismulticast (current_iphdr_dest g)
               then icmp_dest_unreach_fn env p (g\<lparr>pbufs := (pbufs g)(p \<mapsto> b\<lparr>pb_payload := iphdr\<rparr>)\<rparr>)
               else Some g);
         free_pbuf p g
       }
     }
   }"

definition ip_input :: "('a net_scheme) ip_env \<Rightarrow> nat \<Rightarrow> nat \<Rightarrow> 'a net_scheme \<Rightarrow> (err \<times> 'a net_scheme) option" where
  "ip_input env p inp g = do {
     b \<leftarrow> pbufs g p;
     vhl \<leftarrow> hdr16 b 0;
     if IPH_V vhl \<noteq> 4 then drop_ip p g
     else do {
       let iphdr_hlen = IPH_HL vhl * 4;
       ln \<leftarrow> hdr16 b 2;
       let iphdr_len = ntohs ln;
       if iphdr_hlen > pb_len b \<or> iphdr_len > tot_len b then drop_ip p g
       else do {
         hdr \<leftarrow> pb_read b 0 (unat iphdr_hlen);
         if inet_chksum (payload_odd env b) hdr \<noteq> 0 then drop_ip p g
         else do {
           h \<leftarrow> pbuf_realloc p iphdr_len (pbufs g);
           b \<leftarrow> h p;
           dest \<leftarrow> hdr32 b 16;
           src \<leftarrow> hdr32 b 12;
           let g = g\<lparr>pbufs := h, current_iphdr_dest := dest, current_iphdr_src := src\<rparr>;
           netif \<leftarrow> input_netif inp dest g;
           proto \<leftarrow> hdr8 b 9;
           dhcp \<leftarrow> (if netif = None \<and> proto = IP_PROTO_UDP
                     then do { port \<leftarrow> hdr16 b (unat iphdr_hlen + 2); Some (port = htons 68) }
                     else Some False);
           ni \<leftarrow> netif_mem g inp;
           if \<not> dhcp \<and> \<not> ip_addr_isany src \<and> (ip4_addr_isbroadcast src ni \<or> ip_addr_ismulticast src)
           then drop_ip p g
           else if netif = None \<and> \<not> dhcp then drop_ip p g
           else do {
             off \<leftarrow> hdr16 b 6;
             if off AND htons (IP_OFFMASK OR IP_MF) \<noteq> 0 then drop_ip p g
             else do {
               let g = g\<lparr>current_netif := Some inp, current_header := Some p\<rparr>;
               g \<leftarrow> deliver env p inp (pb_payload b) g;
               Some (ERR_OK, g\<lparr>current_netif := None, current_header := None, current_iphdr_src := IPADDR_ANY,
                 current_iphdr_dest := IPADDR_ANY\<rparr>)
             }
           }
         }
       }
     }
   }"

end
