(* ===== verification/Etharp.thy ===== *)
theory Etharp
  imports Ip
begin

text \<open>
  Ethernet and ARP, \<open>src/lwip/netif/etharp.c\<close> and \<open>src/include/netif/etharp.h\<close>: the ARP cache with its queues of
  unresolved packets, the output of IP packets as Ethernet frames and the input of frames.  Static entries, VLAN
  tags and AutoIP are compiled out, address pairs of IP packets are trusted (\<open>ETHARP_TRUST_IP_MAC\<close>), packets are
  queued (\<open>ARP_QUEUEING\<close>).

  What is called through \<open>netif->linkoutput\<close>, the allocators and the DHCP client's check are the parameter
  \<open>arp_env\<close>.
\<close>

section \<open>Data\<close>

definition ARP_MAXAGE :: u8 where "ARP_MAXAGE = 240"
definition ARP_MAXPENDING :: u8 where "ARP_MAXPENDING = 2"
definition HWTYPE_ETHERNET :: u16 where "HWTYPE_ETHERNET = 1"
definition ETHARP_FLAG_TRY_HARD :: u8 where "ETHARP_FLAG_TRY_HARD = 1"
definition ETHARP_FLAG_FIND_ONLY :: u8 where "ETHARP_FLAG_FIND_ONLY = 2"
definition ETHARP_HWADDR_LEN :: u8 where "ETHARP_HWADDR_LEN = 6"
definition SIZEOF_ETH_HDR :: nat where "SIZEOF_ETH_HDR = 14"
definition SIZEOF_ETHARP_HDR :: nat where "SIZEOF_ETHARP_HDR = 28"
definition SIZEOF_ETHARP_PACKET :: nat where "SIZEOF_ETHARP_PACKET = SIZEOF_ETH_HDR + SIZEOF_ETHARP_HDR"
definition ETHTYPE_ARP :: u16 where "ETHTYPE_ARP = 0x0806"
definition ETHTYPE_IP :: u16 where "ETHTYPE_IP = 0x0800"
definition ARP_REQUEST :: u16 where "ARP_REQUEST = 1"
definition ARP_REPLY :: u16 where "ARP_REPLY = 2"

definition ethbroadcast :: bytes where "ethbroadcast = [0xff, 0xff, 0xff, 0xff, 0xff, 0xff]"
definition ethzero :: bytes where "ethzero = [0, 0, 0, 0, 0, 0]"

definition ip_addr_islinklocal :: "u32 \<Rightarrow> bool" where
  "ip_addr_islinklocal a \<longleftrightarrow> a AND htonl 0xffff0000 = htonl 0xa9fe0000"

record eth_hdr =
  eth_dest :: bytes
  eth_src :: bytes
  eth_type :: u16

definition eth_hdr_bytes :: "eth_hdr \<Rightarrow> bytes" where
  "eth_hdr_bytes h = eth_dest h @ eth_src h @ mem16 (eth_type h)"

definition eth_hdr_of :: "bytes \<Rightarrow> eth_hdr" where
  "eth_hdr_of d = \<lparr>eth_dest = take 6 d, eth_src = take 6 (drop 6 d), eth_type = le16 (d ! 12) (d ! 13)\<rparr>"

record etharp_hdr =
  hwtype :: u16
  ar_proto :: u16
  hwlen :: u8
  protolen :: u8
  opcode :: u16
  shwaddr :: bytes
  sipaddr :: u32
  dhwaddr :: bytes
  dipaddr :: u32

definition etharp_hdr_bytes :: "etharp_hdr \<Rightarrow> bytes" where
  "etharp_hdr_bytes h = mem16 (hwtype h) @ mem16 (ar_proto h) @ [hwlen h, protolen h] @ mem16 (opcode h)
     @ shwaddr h @ bytes_le32 (sipaddr h) @ dhwaddr h @ bytes_le32 (dipaddr h)"

definition etharp_hdr_of :: "bytes \<Rightarrow> etharp_hdr" where
  "etharp_hdr_of d = \<lparr>hwtype = le16 (d ! 0) (d ! 1), ar_proto = le16 (d ! 2) (d ! 3), hwlen = d ! 4, protolen = d ! 5,
     opcode = le16 (d ! 6) (d ! 7), shwaddr = take 6 (drop 8 d), sipaddr = le32 (d ! 14) (d ! 15) (d ! 16) (d ! 17),
     dhwaddr = take 6 (drop 18 d), dipaddr = le32 (d ! 24) (d ! 25) (d ! 26) (d ! 27)\<rparr>"

record 'g arp_env =
  linkoutput_fn :: "nat \<Rightarrow> nat \<Rightarrow> nat \<Rightarrow> 'g \<Rightarrow> (err \<times> 'g) option"
  arp_malloc :: malloc
  arp_queue_malloc :: "'g \<Rightarrow> bool"
  dhcp_arp_reply :: "nat \<Rightarrow> u32 \<Rightarrow> 'g \<Rightarrow> 'g option"

definition upd_entry :: "nat \<Rightarrow> (etharp_entry \<Rightarrow> etharp_entry) \<Rightarrow> 'a net_scheme \<Rightarrow> ('a net_scheme) option" where
  "upd_entry i f g = do {
     e \<leftarrow> peek (arp_table g) i;
     Some (g\<lparr>arp_table := (arp_table g)[i := f e]\<rparr>)
   }"

section \<open>The cache\<close>

definition free_etharp_q :: "nat list \<Rightarrow> 'a net_scheme \<Rightarrow> ('a net_scheme) option" where
  "free_etharp_q q g = mfold free_pbuf q g"

definition free_entry :: "nat \<Rightarrow> 'a net_scheme \<Rightarrow> ('a net_scheme) option" where
  "free_entry i g = do {
     e \<leftarrow> peek (arp_table g) i;
     g \<leftarrow> (if arp_q e \<noteq> [] then do { g \<leftarrow> free_etharp_q (arp_q e) g; upd_entry i (\<lambda>e. e\<lparr>arp_q := []\<rparr>) g } else Some g);
     upd_entry i (\<lambda>e. e\<lparr>arp_state := ETHARP_STATE_EMPTY\<rparr>) g
   }"

definition tmr_entry :: "nat \<Rightarrow> 'a net_scheme \<Rightarrow> ('a net_scheme) option" where
  "tmr_entry i g = do {
     e \<leftarrow> peek (arp_table g) i;
     if arp_state e \<noteq> ETHARP_STATE_EMPTY then do {
       let ctime = arp_ctime e + 1;
       g \<leftarrow> upd_entry i (\<lambda>e. e\<lparr>arp_ctime := ctime\<rparr>) g;
       if ctime \<ge> ARP_MAXAGE \<or> arp_state e = ETHARP_STATE_PENDING \<and> ctime \<ge> ARP_MAXPENDING then free_entry i g else Some g
     }
     else Some g
   }"

definition etharp_tmr :: "'a net_scheme \<Rightarrow> ('a net_scheme) option" where
  "etharp_tmr g = mfold tmr_entry [0..<ARP_TABLE_SIZE] g"

text \<open>The candidates of the sweep of \<open>find_entry\<close>; \<open>ARP_TABLE_SIZE\<close> is none.  \<open>Inl\<close> is a match.  Every caller gives an
  address.\<close>

record arp_scan =
  sc_empty :: nat
  old_pending :: nat
  old_stable :: nat
  old_queue :: nat
  age_pending :: u8
  age_stable :: u8
  age_queue :: u8

definition scan_init :: arp_scan where
  "scan_init = \<lparr>sc_empty = ARP_TABLE_SIZE, old_pending = ARP_TABLE_SIZE, old_stable = ARP_TABLE_SIZE, old_queue = ARP_TABLE_SIZE,
     age_pending = 0, age_stable = 0, age_queue = 0\<rparr>"

definition scan_entry :: "etharp_entry \<Rightarrow> nat \<Rightarrow> arp_scan \<Rightarrow> arp_scan" where
  "scan_entry e i sc = (case arp_state e of
       ETHARP_STATE_EMPTY \<Rightarrow> if sc_empty sc = ARP_TABLE_SIZE then sc\<lparr>sc_empty := i\<rparr> else sc
     | ETHARP_STATE_PENDING \<Rightarrow>
         if arp_q e \<noteq> [] then
           (if arp_ctime e \<ge> age_queue sc then sc\<lparr>old_queue := i, age_queue := arp_ctime e\<rparr> else sc)
         else
           (if arp_ctime e \<ge> age_pending sc then sc\<lparr>old_pending := i, age_pending := arp_ctime e\<rparr> else sc)
     | ETHARP_STATE_STABLE \<Rightarrow>
         if arp_ctime e \<ge> age_stable sc then sc\<lparr>old_stable := i, age_stable := arp_ctime e\<rparr> else sc)"

fun scan_loop :: "u32 \<Rightarrow> etharp_entry list \<Rightarrow> nat \<Rightarrow> arp_scan \<Rightarrow> nat + arp_scan" where
  "scan_loop ipaddr [] i sc = Inr sc"
| "scan_loop ipaddr (e # es) i sc =
     (if arp_state e \<noteq> ETHARP_STATE_EMPTY \<and> ipaddr = arp_ipaddr e then Inl i
      else scan_loop ipaddr es (i + 1) (scan_entry e i sc))"

text \<open>The entry to recycle, in the order of preference.\<close>

definition recycle :: "arp_scan \<Rightarrow> nat option" where
  "recycle sc =
     (if old_stable sc < ARP_TABLE_SIZE then Some (old_stable sc)
      else if old_pending sc < ARP_TABLE_SIZE then Some (old_pending sc)
      else if old_queue sc < ARP_TABLE_SIZE then Some (old_queue sc)
      else None)"

text \<open>\<open>None\<close> in the result is \<open>ERR_MEM\<close>.\<close>

definition new_entry :: "u32 \<Rightarrow> nat \<Rightarrow> 'a net_scheme \<Rightarrow> (nat option \<times> 'a net_scheme) option" where
  "new_entry ipaddr i g = do {
     g \<leftarrow> upd_entry i (\<lambda>e. e\<lparr>arp_ipaddr := ipaddr, arp_ctime := 0\<rparr>) g;
     Some (Some i, g)
   }"

definition find_entry :: "u32 \<Rightarrow> u8 \<Rightarrow> 'a net_scheme \<Rightarrow> (nat option \<times> 'a net_scheme) option" where
  "find_entry ipaddr flags g = (case scan_loop ipaddr (arp_table g) 0 scan_init of
       Inl i \<Rightarrow> Some (Some i, g)
     | Inr sc \<Rightarrow>
         if flags AND ETHARP_FLAG_FIND_ONLY \<noteq> 0 \<or>
            sc_empty sc = ARP_TABLE_SIZE \<and> flags AND ETHARP_FLAG_TRY_HARD = 0
         then Some (None, g)
         else if sc_empty sc < ARP_TABLE_SIZE then new_entry ipaddr (sc_empty sc) g
         else (case recycle sc of
             None \<Rightarrow> Some (None, g)
           | Some i \<Rightarrow> do { g \<leftarrow> free_entry i g; new_entry ipaddr i g }))"

definition etharp_send_ip ::
  "('a net_scheme) arp_env \<Rightarrow> nat \<Rightarrow> nat \<Rightarrow> bytes \<Rightarrow> bytes \<Rightarrow> 'a net_scheme \<Rightarrow> (err \<times> 'a net_scheme) option" where
  "etharp_send_ip env netif p src dst g = do {
     b \<leftarrow> pbufs g p;
     b \<leftarrow> pb_write b 0 (eth_hdr_bytes \<lparr>eth_dest = dst, eth_src = src, eth_type = htons ETHTYPE_IP\<rparr>);
     ni \<leftarrow> netif_mem g netif;
     linkoutput_fn env (ni_linkoutput ni) netif p (g\<lparr>pbufs := (pbufs g)(p \<mapsto> b)\<rparr>)
   }"

text \<open>The loop that sends the packets queued on entry \<open>i\<close>.\<close>

partial_function (option) send_queued ::
  "('a net_scheme) arp_env \<Rightarrow> nat \<Rightarrow> bytes \<Rightarrow> nat \<Rightarrow> 'a net_scheme \<Rightarrow> ('a net_scheme) option" where
  "send_queued env netif ethaddr i g = do {
     e \<leftarrow> peek (arp_table g) i;
     case arp_q e of
       [] \<Rightarrow> Some g
     | p # ps \<Rightarrow> do {
         g \<leftarrow> upd_entry i (\<lambda>e. e\<lparr>arp_q := ps\<rparr>) g;
         ni \<leftarrow> netif_mem g netif;
         (_, g) \<leftarrow> etharp_send_ip env netif p (ni_hwaddr ni) ethaddr g;
         g \<leftarrow> free_pbuf p g;
         send_queued env netif ethaddr i g
       }
   }"

definition non_unicast :: "u32 \<Rightarrow> netif \<Rightarrow> bool" where
  "non_unicast ipaddr ni \<longleftrightarrow> ip_addr_isany ipaddr \<or> ip4_addr_isbroadcast ipaddr ni \<or> ip_addr_ismulticast ipaddr"

definition update_arp_entry ::
  "('a net_scheme) arp_env \<Rightarrow> nat \<Rightarrow> u32 \<Rightarrow> bytes \<Rightarrow> u8 \<Rightarrow> 'a net_scheme \<Rightarrow> (err \<times> 'a net_scheme) option" where
  "update_arp_entry env netif ipaddr ethaddr flags g = do {
     ni \<leftarrow> netif_mem g netif;
     if non_unicast ipaddr ni then Some (ERR_ARG, g)
     else do {
       (i, g) \<leftarrow> find_entry ipaddr flags g;
       case i of
         None \<Rightarrow> Some (ERR_MEM, g)
       | Some i \<Rightarrow> do {
           g \<leftarrow> upd_entry i (\<lambda>e. e\<lparr>arp_state := ETHARP_STATE_STABLE, arp_ethaddr := ethaddr, arp_ctime := 0\<rparr>) g;
           g \<leftarrow> send_queued env netif ethaddr i g;
           Some (ERR_OK, g)
         }
     }
   }"

definition cleanup_entry :: "nat \<Rightarrow> nat \<Rightarrow> 'a net_scheme \<Rightarrow> ('a net_scheme) option" where
  "cleanup_entry netif i g = do {
     e \<leftarrow> peek (arp_table g) i;
     if arp_state e \<noteq> ETHARP_STATE_EMPTY \<and> arp_netif e = Some netif then free_entry i g else Some g
   }"

definition etharp_cleanup_netif :: "nat \<Rightarrow> 'a net_scheme \<Rightarrow> ('a net_scheme) option" where
  "etharp_cleanup_netif netif g = mfold (cleanup_entry netif) [0..<ARP_TABLE_SIZE] g"

text \<open>The addresses behind the result pointers come with the index.\<close>

definition etharp_find_addr :: "u32 \<Rightarrow> 'a net_scheme \<Rightarrow> ((nat \<times> bytes \<times> u32) option \<times> 'a net_scheme) option" where
  "etharp_find_addr ipaddr g = do {
     (i, g) \<leftarrow> find_entry ipaddr ETHARP_FLAG_FIND_ONLY g;
     case i of
       None \<Rightarrow> Some (None, g)
     | Some i \<Rightarrow> do {
         e \<leftarrow> peek (arp_table g) i;
         Some (if arp_state e = ETHARP_STATE_STABLE then Some (i, arp_ethaddr e, arp_ipaddr e) else None, g)
       }
   }"

section \<open>Output\<close>

definition etharp_raw ::
  "('a net_scheme) arp_env \<Rightarrow> nat \<Rightarrow> bytes \<Rightarrow> bytes \<Rightarrow> bytes \<Rightarrow> u32 \<Rightarrow> bytes \<Rightarrow> u32 \<Rightarrow> u16 \<Rightarrow> 'a net_scheme \<Rightarrow>
     (err \<times> 'a net_scheme) option" where
  "etharp_raw env netif ethsrc_addr ethdst_addr hwsrc_addr ipsrc_addr hwdst_addr ipdst_addr opc g = do {
     (p, g) \<leftarrow> on_pbufs (pbuf_alloc (arp_malloc env) PBUF_RAW (of_nat SIZEOF_ETHARP_PACKET) PBUF_RAM) g;
     case p of
       None \<Rightarrow> Some (ERR_MEM, g)
     | Some p \<Rightarrow> do {
         b \<leftarrow> pbufs g p;
         b \<leftarrow> pb_write b 0 (eth_hdr_bytes \<lparr>eth_dest = ethdst_addr, eth_src = ethsrc_addr, eth_type = htons ETHTYPE_ARP\<rparr>
           @ etharp_hdr_bytes \<lparr>hwtype = htons HWTYPE_ETHERNET, ar_proto = htons ETHTYPE_IP, hwlen = ETHARP_HWADDR_LEN,
               protolen = 4, opcode = htons opc, shwaddr = hwsrc_addr, sipaddr = ipsrc_addr, dhwaddr = hwdst_addr,
               dipaddr = ipdst_addr\<rparr>);
         ni \<leftarrow> netif_mem g netif;
         (result, g) \<leftarrow> linkoutput_fn env (ni_linkoutput ni) netif p (g\<lparr>pbufs := (pbufs g)(p \<mapsto> b)\<rparr>);
         g \<leftarrow> free_pbuf p g;
         Some (result, g)
       }
   }"

definition etharp_request ::
  "('a net_scheme) arp_env \<Rightarrow> nat \<Rightarrow> u32 \<Rightarrow> 'a net_scheme \<Rightarrow> (err \<times> 'a net_scheme) option" where
  "etharp_request env netif ipaddr g = do {
     ni \<leftarrow> netif_mem g netif;
     etharp_raw env netif (ni_hwaddr ni) ethbroadcast (ni_hwaddr ni) (ni_ip_addr ni) ethzero ipaddr ARP_REQUEST g
   }"

text \<open>The first pbuf of a chain that is not a \<open>PBUF_ROM\<close>.\<close>

partial_function (option) first_not_rom :: "nat option \<Rightarrow> pheap \<Rightarrow> nat option option" where
  "first_not_rom p h = (case p of
       None \<Rightarrow> Some None
     | Some a \<Rightarrow> do { b \<leftarrow> h a; if pb_type b \<noteq> PBUF_ROM then Some p else first_not_rom (pb_next b) h })"

text \<open>The packet to queue: a copy, or another reference to the packet.\<close>

definition queue_copy :: "malloc \<Rightarrow> nat \<Rightarrow> pheap \<Rightarrow> (nat option \<times> pheap) option" where
  "queue_copy mal q h = do {
     p \<leftarrow> first_not_rom (Some q) h;
     case p of
       Some a \<Rightarrow> do {
         b \<leftarrow> h a;
         (p, h) \<leftarrow> pbuf_alloc mal PBUF_RAW (tot_len b) PBUF_RAM h;
         case p of
           None \<Rightarrow> Some (None, h)
         | Some _ \<Rightarrow> do {
             (st, h) \<leftarrow> pbuf_copy p (Some q) h;
             if st \<noteq> ERR_OK then do { (_, h) \<leftarrow> pbuf_free p h; Some (None, h) } else Some (p, h)
           }
       }
     | None \<Rightarrow> do { h \<leftarrow> pbuf_ref (Some q) h; Some (Some q, h) }
   }"

definition queue_packet ::
  "('a net_scheme) arp_env \<Rightarrow> nat \<Rightarrow> nat \<Rightarrow> 'a net_scheme \<Rightarrow> (err \<times> 'a net_scheme) option" where
  "queue_packet env i q g = do {
     (p, g) \<leftarrow> on_pbufs (queue_copy (arp_malloc env) q) g;
     case p of
       None \<Rightarrow> Some (ERR_MEM, g)
     | Some p \<Rightarrow>
         if arp_queue_malloc env g then do { g \<leftarrow> upd_entry i (\<lambda>e. e\<lparr>arp_q := arp_q e @ [p]\<rparr>) g; Some (ERR_OK, g) }
         else do { g \<leftarrow> free_pbuf p g; Some (ERR_MEM, g) }
   }"

text \<open>What is done with a packet once the state of entry \<open>i\<close> is known; \<open>result\<close> is that of a request before.\<close>

definition query_send ::
  "('a net_scheme) arp_env \<Rightarrow> nat \<Rightarrow> bytes \<Rightarrow> nat \<Rightarrow> nat \<Rightarrow> err \<Rightarrow> 'a net_scheme \<Rightarrow> (err \<times> 'a net_scheme) option" where
  "query_send env netif srcaddr i q result g = do {
     e \<leftarrow> peek (arp_table g) i;
     case arp_state e of
       ETHARP_STATE_STABLE \<Rightarrow> etharp_send_ip env netif q srcaddr (arp_ethaddr e) (g\<lparr>etharp_cached_entry := of_nat i\<rparr>)
     | ETHARP_STATE_PENDING \<Rightarrow> queue_packet env i q g
     | ETHARP_STATE_EMPTY \<Rightarrow> Some (result, g)
   }"

definition query_entry ::
  "('a net_scheme) arp_env \<Rightarrow> nat \<Rightarrow> bytes \<Rightarrow> u32 \<Rightarrow> nat option \<Rightarrow> nat \<Rightarrow> 'a net_scheme \<Rightarrow> (err \<times> 'a net_scheme) option" where
  "query_entry env netif srcaddr ipaddr q i g = do {
     g \<leftarrow> upd_entry i (\<lambda>e. if arp_state e = ETHARP_STATE_EMPTY then e\<lparr>arp_state := ETHARP_STATE_PENDING\<rparr> else e) g;
     e \<leftarrow> peek (arp_table g) i;
     (result, g) \<leftarrow> (if arp_state e = ETHARP_STATE_PENDING \<or> q = None then etharp_request env netif ipaddr g
                     else Some (ERR_MEM, g));
     case q of None \<Rightarrow> Some (result, g) | Some q \<Rightarrow> query_send env netif srcaddr i q result g
   }"

definition etharp_query ::
  "('a net_scheme) arp_env \<Rightarrow> nat \<Rightarrow> u32 \<Rightarrow> nat option \<Rightarrow> 'a net_scheme \<Rightarrow> (err \<times> 'a net_scheme) option" where
  "etharp_query env netif ipaddr q g = do {
     ni \<leftarrow> netif_mem g netif;
     if non_unicast ipaddr ni then Some (ERR_ARG, g)
     else do {
       (i, g) \<leftarrow> find_entry ipaddr ETHARP_FLAG_TRY_HARD g;
       case i of None \<Rightarrow> Some (ERR_MEM, g) | Some i \<Rightarrow> query_entry env netif (ni_hwaddr ni) ipaddr q i g
     }
   }"

definition mcast_addr :: "u32 \<Rightarrow> bytes" where
  "mcast_addr ipaddr = [0x01, 0x00, 0x5e, bytes_le32 ipaddr ! 1 AND 0x7f, bytes_le32 ipaddr ! 2, bytes_le32 ipaddr ! 3]"

text \<open>The address to resolve for a unicast destination, \<open>None\<close> without a route.\<close>

definition next_hop :: "netif \<Rightarrow> u32 \<Rightarrow> u32 option" where
  "next_hop ni ipaddr =
     (if \<not> ip_addr_netcmp ipaddr (ni_ip_addr ni) (ni_netmask ni) \<and> \<not> ip_addr_islinklocal ipaddr
      then (if \<not> ip_addr_isany (ni_gw ni) then Some (ni_gw ni) else None)
      else Some ipaddr)"

definition etharp_output ::
  "('a net_scheme) arp_env \<Rightarrow> nat \<Rightarrow> nat \<Rightarrow> u32 \<Rightarrow> 'a net_scheme \<Rightarrow> (err \<times> 'a net_scheme) option" where
  "etharp_output env netif q ipaddr g = do {
     (st, g) \<leftarrow> on_pbufs (pbuf_header (Some q) (int SIZEOF_ETH_HDR)) g;
     if st \<noteq> 0 then Some (ERR_BUF, g)
     else do {
       ni \<leftarrow> netif_mem g netif;
       if ip4_addr_isbroadcast ipaddr ni then etharp_send_ip env netif q (ni_hwaddr ni) ethbroadcast g
       else if ip_addr_ismulticast ipaddr then etharp_send_ip env netif q (ni_hwaddr ni) (mcast_addr ipaddr) g
       else (case next_hop ni ipaddr of
           None \<Rightarrow> Some (ERR_RTE, g)
         | Some ipaddr \<Rightarrow> do {
             e \<leftarrow> peek (arp_table g) (unat (etharp_cached_entry g));
             if arp_state e = ETHARP_STATE_STABLE \<and> ipaddr = arp_ipaddr e
             then etharp_send_ip env netif q (ni_hwaddr ni) (arp_ethaddr e) g
             else etharp_query env netif ipaddr (Some q) g
           })
     }
   }"

section \<open>Input\<close>

definition etharp_ip_input :: "('a net_scheme) arp_env \<Rightarrow> nat \<Rightarrow> nat \<Rightarrow> 'a net_scheme \<Rightarrow> ('a net_scheme) option" where
  "etharp_ip_input env netif p g = do {
     b \<leftarrow> pbufs g p;
     src \<leftarrow> hdr32 b (SIZEOF_ETH_HDR + 12);
     ni \<leftarrow> netif_mem g netif;
     if \<not> ip_addr_netcmp src (ni_ip_addr ni) (ni_netmask ni) then Some g
     else do {
       ethsrc \<leftarrow> pb_read b 6 6;
       (_, g) \<leftarrow> update_arp_entry env netif src ethsrc ETHARP_FLAG_FIND_ONLY g;
       Some g
     }
   }"

text \<open>The reply that is built in the packet of the request.\<close>

definition arp_reply_hdr :: "bytes \<Rightarrow> u32 \<Rightarrow> etharp_hdr \<Rightarrow> etharp_hdr" where
  "arp_reply_hdr ethaddr ip_addr h =
     h\<lparr>opcode := htons ARP_REPLY, dipaddr := sipaddr h, sipaddr := ip_addr, dhwaddr := shwaddr h, shwaddr := ethaddr\<rparr>"

text \<open>The switch over the opcode.\<close>

definition arp_act ::
  "('a net_scheme) arp_env \<Rightarrow> nat \<Rightarrow> bytes \<Rightarrow> nat \<Rightarrow> bool \<Rightarrow> u32 \<Rightarrow> 'a net_scheme \<Rightarrow> ('a net_scheme) option" where
  "arp_act env netif ethaddr p for_us sip g = do {
     b \<leftarrow> pbufs g p;
     d \<leftarrow> pb_read b 0 SIZEOF_ETHARP_PACKET;
     let ethhdr = eth_hdr_of d;
     let hdr = etharp_hdr_of (drop SIZEOF_ETH_HDR d);
     if opcode hdr = htons ARP_REQUEST then
       (if for_us then do {
          ni \<leftarrow> netif_mem g netif;
          b \<leftarrow> pb_write b 0
            (eth_hdr_bytes (ethhdr\<lparr>eth_dest := shwaddr hdr, eth_src := ethaddr\<rparr>)
             @ etharp_hdr_bytes (arp_reply_hdr ethaddr (ni_ip_addr ni) hdr));
          (_, g) \<leftarrow> linkoutput_fn env (ni_linkoutput ni) netif p (g\<lparr>pbufs := (pbufs g)(p \<mapsto> b)\<rparr>);
          Some g
        }
        else Some g)
     else if opcode hdr = htons ARP_REPLY then dhcp_arp_reply env netif sip g
     else Some g
   }"

definition etharp_arp_input ::
  "('a net_scheme) arp_env \<Rightarrow> nat \<Rightarrow> bytes \<Rightarrow> nat \<Rightarrow> 'a net_scheme \<Rightarrow> ('a net_scheme) option" where
  "etharp_arp_input env netif ethaddr p g = do {
     b \<leftarrow> pbufs g p;
     if unat (pb_len b) < SIZEOF_ETHARP_PACKET then free_pbuf p g
     else do {
       d \<leftarrow> pb_read b 0 SIZEOF_ETHARP_PACKET;
       let ethhdr = eth_hdr_of d;
       let hdr = etharp_hdr_of (drop SIZEOF_ETH_HDR d);
       if hwtype hdr \<noteq> htons HWTYPE_ETHERNET \<or> hwlen hdr \<noteq> ETHARP_HWADDR_LEN \<or> protolen hdr \<noteq> 4 \<or>
          ar_proto hdr \<noteq> htons ETHTYPE_IP \<or> eth_type ethhdr \<noteq> htons ETHTYPE_ARP
       then free_pbuf p g
       else do {
         ni \<leftarrow> netif_mem g netif;
         let for_us = (\<not> ip_addr_isany (ni_ip_addr ni) \<and> dipaddr hdr = ni_ip_addr ni);
         (_, g) \<leftarrow> update_arp_entry env netif (sipaddr hdr) (shwaddr hdr)
           (if for_us then ETHARP_FLAG_TRY_HARD else ETHARP_FLAG_FIND_ONLY) g;
         g \<leftarrow> arp_act env netif ethaddr p for_us (sipaddr hdr) g;
         free_pbuf p g
       }
     }
   }"

definition ethernet_input ::
  "('a net_scheme) arp_env \<Rightarrow> ('a net_scheme) ip_env \<Rightarrow> nat \<Rightarrow> nat \<Rightarrow> 'a net_scheme \<Rightarrow> (err \<times> 'a net_scheme) option" where
  "ethernet_input aenv env p netif g = do {
     b \<leftarrow> pbufs g p;
     if unat (pb_len b) \<le> SIZEOF_ETH_HDR then drop_ip p g
     else do {
       type \<leftarrow> hdr16 b 12;
       ni \<leftarrow> netif_mem g netif;
       if type = htons ETHTYPE_IP then
         (if ni_flags ni AND NETIF_FLAG_ETHARP = 0 then drop_ip p g
          else do {
            g \<leftarrow> etharp_ip_input aenv netif p g;
            (st, g) \<leftarrow> on_pbufs (pbuf_header (Some p) (- int SIZEOF_ETH_HDR)) g;
            if st \<noteq> 0 then drop_ip p g
            else do { (_, g) \<leftarrow> ip_input env p netif g; Some (ERR_OK, g) }
          })
       else if type = htons ETHTYPE_ARP then
         (if ni_flags ni AND NETIF_FLAG_ETHARP = 0 then drop_ip p g
          else do { g \<leftarrow> etharp_arp_input aenv netif (ni_hwaddr ni) p g; Some (ERR_OK, g) })
       else drop_ip p g
     }
   }"

end
