(* ===== verification/Netif.thy ===== *)
theory Netif
  imports Etharp
begin

text \<open>
  Network interfaces, \<open>src/lwip/core/netif.c\<close>: adding and removing, addresses, the default route, administrative and
  link state.  Loopback, SNMP and the callbacks are compiled out.

  The structures are in \<open>netif_mem\<close>, their order of linking is \<open>netif_list\<close>.  Removing an interface unlinks it and
  leaves its structure.  The loops of \<open>netif_set_ipaddr\<close> over the TCP control blocks, IGMP, DHCP and the driver's
  initialisation function are the parameter \<open>netif_env\<close>.
\<close>

record 'g netif_env =
  tcp_ipaddr_changed :: "u32 \<Rightarrow> u32 \<Rightarrow> 'g \<Rightarrow> 'g option"
  igmp_start :: "nat \<Rightarrow> 'g \<Rightarrow> 'g option"
  igmp_stop :: "nat \<Rightarrow> 'g \<Rightarrow> 'g option"
  igmp_report_groups :: "nat \<Rightarrow> 'g \<Rightarrow> 'g option"
  dhcp_network_changed :: "nat \<Rightarrow> 'g \<Rightarrow> 'g option"

definition upd_netif :: "nat \<Rightarrow> (netif \<Rightarrow> netif) \<Rightarrow> 'a net_scheme \<Rightarrow> ('a net_scheme) option" where
  "upd_netif netif f g = do { ni \<leftarrow> netif_mem g netif; Some (g\<lparr>netif_mem := (netif_mem g)(netif \<mapsto> f ni)\<rparr>) }"

text \<open>\<open>ip_addr_set\<close> takes a null pointer for the address 0.\<close>

definition ip_addr_set :: "u32 option \<Rightarrow> u32" where
  "ip_addr_set src = (case src of None \<Rightarrow> 0 | Some a \<Rightarrow> a)"

definition netif_set_ipaddr :: "('a net_scheme) netif_env \<Rightarrow> nat \<Rightarrow> u32 option \<Rightarrow> 'a net_scheme \<Rightarrow> ('a net_scheme) option" where
  "netif_set_ipaddr env netif ipaddr g = do {
     ni \<leftarrow> netif_mem g netif;
     g \<leftarrow> (case ipaddr of
         Some a \<Rightarrow> if a \<noteq> ni_ip_addr ni then tcp_ipaddr_changed env (ni_ip_addr ni) a g else Some g
       | None \<Rightarrow> Some g);
     upd_netif netif (\<lambda>ni. ni\<lparr>ni_ip_addr := ip_addr_set ipaddr\<rparr>) g
   }"

definition netif_set_gw :: "nat \<Rightarrow> u32 option \<Rightarrow> 'a net_scheme \<Rightarrow> ('a net_scheme) option" where
  "netif_set_gw netif gw g = upd_netif netif (\<lambda>ni. ni\<lparr>ni_gw := ip_addr_set gw\<rparr>) g"

definition netif_set_netmask :: "nat \<Rightarrow> u32 option \<Rightarrow> 'a net_scheme \<Rightarrow> ('a net_scheme) option" where
  "netif_set_netmask netif netmask g = upd_netif netif (\<lambda>ni. ni\<lparr>ni_netmask := ip_addr_set netmask\<rparr>) g"

definition netif_set_addr ::
  "('a net_scheme) netif_env \<Rightarrow> nat \<Rightarrow> u32 option \<Rightarrow> u32 option \<Rightarrow> u32 option \<Rightarrow> 'a net_scheme \<Rightarrow> ('a net_scheme) option" where
  "netif_set_addr env netif ipaddr netmask gw g = do {
     g \<leftarrow> netif_set_ipaddr env netif ipaddr g;
     g \<leftarrow> netif_set_netmask netif netmask g;
     netif_set_gw netif gw g
   }"

definition netif_set_default :: "nat option \<Rightarrow> 'a net_scheme \<Rightarrow> 'a net_scheme" where
  "netif_set_default netif g = g\<lparr>netif_default := netif\<rparr>"

text \<open>The result of \<open>init\<close> decides; a failed interface is not linked.\<close>

definition netif_add ::
  "('a net_scheme) netif_env \<Rightarrow> nat \<Rightarrow> u32 option \<Rightarrow> u32 option \<Rightarrow> u32 option \<Rightarrow> nat \<Rightarrow>
     (nat \<Rightarrow> 'a net_scheme \<Rightarrow> (err \<times> 'a net_scheme) option) \<Rightarrow> nat \<Rightarrow> 'a net_scheme \<Rightarrow> (nat option \<times> 'a net_scheme) option" where
  "netif_add env netif ipaddr netmask gw st init input g = do {
     g \<leftarrow> upd_netif netif (\<lambda>ni. ni\<lparr>ni_ip_addr := 0, ni_netmask := 0, ni_gw := 0, ni_flags := 0, ni_dhcp := None,
       ni_igmp_mac_filter := 0, ni_state := st, ni_num := netifnum g, ni_input := input\<rparr>) g;
     g \<leftarrow> netif_set_addr env netif ipaddr netmask gw (g\<lparr>netifnum := netifnum g + 1\<rparr>);
     (e, g) \<leftarrow> init netif g;
     if e \<noteq> ERR_OK then Some (None, g)
     else do {
       let g = g\<lparr>netif_list := netif # netif_list g\<rparr>;
       ni \<leftarrow> netif_mem g netif;
       g \<leftarrow> (if ni_flags ni AND NETIF_FLAG_IGMP \<noteq> 0 then igmp_start env netif g else Some g);
       Some (Some netif, g)
     }
   }"

definition netif_set_down :: "nat \<Rightarrow> 'a net_scheme \<Rightarrow> ('a net_scheme) option" where
  "netif_set_down netif g = do {
     ni \<leftarrow> netif_mem g netif;
     if ni_flags ni AND NETIF_FLAG_UP \<noteq> 0 then do {
       g \<leftarrow> upd_netif netif (\<lambda>ni. ni\<lparr>ni_flags := ni_flags ni AND NOT NETIF_FLAG_UP\<rparr>) g;
       if ni_flags ni AND NETIF_FLAG_ETHARP \<noteq> 0 then etharp_cleanup_netif netif g else Some g
     }
     else Some g
   }"

definition netif_remove :: "('a net_scheme) netif_env \<Rightarrow> nat option \<Rightarrow> 'a net_scheme \<Rightarrow> ('a net_scheme) option" where
  "netif_remove env n g = (case n of
       None \<Rightarrow> Some g
     | Some netif \<Rightarrow> do {
         ni \<leftarrow> netif_mem g netif;
         g \<leftarrow> (if ni_flags ni AND NETIF_FLAG_IGMP \<noteq> 0 then igmp_stop env netif g else Some g);
         ni \<leftarrow> netif_mem g netif;
         g \<leftarrow> (if netif_is_up ni then netif_set_down netif g else Some g);
         if netif \<notin> set (netif_list g) then Some g
         else do {
           let g = g\<lparr>netif_list := remove1 netif (netif_list g)\<rparr>;
           Some (if netif_default g = Some netif then netif_set_default None g else g)
         }
       })"

text \<open>\<open>name\<close> is two letters and a digit.\<close>

fun find_loop :: "u8 \<Rightarrow> u8 \<Rightarrow> u8 \<Rightarrow> nat list \<Rightarrow> 'a net_scheme \<Rightarrow> nat option option" where
  "find_loop c0 c1 num [] g = Some None"
| "find_loop c0 c1 num (netif # rest) g = do {
     ni \<leftarrow> netif_mem g netif;
     if num = ni_num ni \<and> (c0, c1) = ni_name ni then Some (Some netif) else find_loop c0 c1 num rest g
   }"

definition netif_find :: "bytes option \<Rightarrow> 'a net_scheme \<Rightarrow> nat option option" where
  "netif_find name g = (case name of
       None \<Rightarrow> Some None
     | Some s \<Rightarrow> do {
         c0 \<leftarrow> peek s 0;
         c1 \<leftarrow> peek s 1;
         c2 \<leftarrow> peek s 2;
         find_loop c0 c1 (c2 - 48) (netif_list g) g
       })"

text \<open>The announcement of an interface that is up with its link up.\<close>

definition announce :: "('a net_scheme) arp_env \<Rightarrow> ('a net_scheme) netif_env \<Rightarrow> nat \<Rightarrow> 'a net_scheme \<Rightarrow> ('a net_scheme) option" where
  "announce aenv env netif g = do {
     ni \<leftarrow> netif_mem g netif;
     g \<leftarrow> (if ni_flags ni AND NETIF_FLAG_ETHARP \<noteq> 0
           then do { (_, g) \<leftarrow> etharp_request aenv netif (ni_ip_addr ni) g; Some g } else Some g);
     ni \<leftarrow> netif_mem g netif;
     if ni_flags ni AND NETIF_FLAG_IGMP \<noteq> 0 then igmp_report_groups env netif g else Some g
   }"

definition netif_set_up :: "('a net_scheme) arp_env \<Rightarrow> ('a net_scheme) netif_env \<Rightarrow> nat \<Rightarrow> 'a net_scheme \<Rightarrow> ('a net_scheme) option" where
  "netif_set_up aenv env netif g = do {
     ni \<leftarrow> netif_mem g netif;
     if ni_flags ni AND NETIF_FLAG_UP = 0 then do {
       g \<leftarrow> upd_netif netif (\<lambda>ni. ni\<lparr>ni_flags := ni_flags ni OR NETIF_FLAG_UP\<rparr>) g;
       if ni_flags ni AND NETIF_FLAG_LINK_UP \<noteq> 0 then announce aenv env netif g else Some g
     }
     else Some g
   }"

definition netif_set_link_up :: "('a net_scheme) arp_env \<Rightarrow> ('a net_scheme) netif_env \<Rightarrow> nat \<Rightarrow> 'a net_scheme \<Rightarrow> ('a net_scheme) option" where
  "netif_set_link_up aenv env netif g = do {
     ni \<leftarrow> netif_mem g netif;
     if ni_flags ni AND NETIF_FLAG_LINK_UP = 0 then do {
       g \<leftarrow> upd_netif netif (\<lambda>ni. ni\<lparr>ni_flags := ni_flags ni OR NETIF_FLAG_LINK_UP\<rparr>) g;
       g \<leftarrow> (if ni_dhcp ni \<noteq> None then dhcp_network_changed env netif g else Some g);
       ni \<leftarrow> netif_mem g netif;
       if ni_flags ni AND NETIF_FLAG_UP \<noteq> 0 then announce aenv env netif g else Some g
     }
     else Some g
   }"

definition netif_set_link_down :: "nat \<Rightarrow> 'a net_scheme \<Rightarrow> ('a net_scheme) option" where
  "netif_set_link_down netif g = do {
     ni \<leftarrow> netif_mem g netif;
     if ni_flags ni AND NETIF_FLAG_LINK_UP \<noteq> 0
     then upd_netif netif (\<lambda>ni. ni\<lparr>ni_flags := ni_flags ni AND NOT NETIF_FLAG_LINK_UP\<rparr>) g
     else Some g
   }"

end
