(* ===== verification/Ip_Spec.thy ===== *)
theory Ip_Spec
  imports Ip
begin

text \<open>
  Correctness of the IP layer: the header that is sent, its checksum, what the receiving side accepts, routing, and
  the order in which raw sockets are offered a packet.
\<close>

section \<open>The inline checksum\<close>

lemma length_hdr [simp]: "length (ip_hdr_bytes h) = 20"
  by (simp add: ip_hdr_bytes_def mem16_def bytes_le32_def)

lemma le_sum_hdr:
  "le_sum (ip_hdr_bytes h) = unat (v_hl_tos h) + unat (iph_len h) + unat (iph_id h) + unat (iph_offset h)
     + (unat (iph_ttl h) + 256 * unat (iph_proto h)) + unat (iph_chksum h)
     + (unat (iph_src h) mod 65536 + unat (iph_src h) div 65536) + (unat (iph_dest h) mod 65536 + unat (iph_dest h) div 65536)"
  using le_sum_le32 [of "iph_src h" "bytes_le32 (iph_dest h)"] le_sum_le32 [of "iph_dest h" "[]"]
  by (simp add: ip_hdr_bytes_def mem16_def unat_hi_lo)

lemma unat_make_u16: "unat (LWIP_MAKE_U16 a b) = unat b + 256 * unat a"
proof -
  have "LWIP_MAKE_U16 a b = ucast (le16 b a)"
    by (rule bit_word_eqI) (auto simp: LWIP_MAKE_U16_def le16_def bit_simps dest: bit_u8_iff)
  then show ?thesis by (simp add: unat_le16)
qed

text \<open>Adding words and their sizes.\<close>

lemma add_step: "unat a = k \<Longrightarrow> unat c = m \<Longrightarrow> k + m < 4294967296 \<Longrightarrow> unat (a + c) = k + m" for a c :: u32
  by (simp add: unat_add_lt)

lemma fold_inline:
  fixes s :: u32
  assumes "unat s \<le> 40 * 65535"
  shows "unat (ucast (NOT (let s = drop_bit 16 s + (s AND 0xFFFF) in drop_bit 16 s + s)) :: u16) = 65535 - oc (unat s)"
proof -
  define t where "t = FOLD_U32T s"
  define n where "n = unat t"
  have n: "n = unat s div 65536 + unat s mod 65536" by (simp add: n_def t_def unat_fold)
  have nb: "n \<le> 2 * 65535"
  proof -
    have "unat s div 65536 \<le> 40" using assms by (simp add: div_le_mono [of _ "40 * 65535", THEN order.trans])
    moreover have "unat s mod 65536 < 65536" by simp
    ultimately show ?thesis using n by linarith
  qed
  have d: "unat (drop_bit 16 t + t) = n div 65536 + n"
    using nb by (subst unat_add_lt) (simp_all only: unat_take n_def [symmetric], simp_all)
  have "unat (ucast (drop_bit 16 t + t) :: u16) = (n div 65536 + n) mod 65536"
    unfolding unsigned_ucast_eq by (simp add: take_bit_eq_mod d)
  also have "\<dots> = n div 65536 + n mod 65536"
  proof (cases "n < 65536")
    case False
    then have "n div 65536 = 1" "n mod 65536 = n - 65536" using nb by (simp_all add: div_nat_eqI le_mod_geq)
    moreover have "(1 + n) mod 65536 = 1 + n - 65536" using False nb by (simp add: le_mod_geq)
    ultimately show ?thesis using False by simp
  qed simp
  also have "\<dots> = oc (unat s)" using fold_small [OF nb] n by simp
  finally have "unat (ucast (drop_bit 16 t + t) :: u16) = oc (unat s)" .
  moreover have "(ucast (NOT (drop_bit 16 t + t)) :: u16) = NOT (ucast (drop_bit 16 t + t))"
    by (rule bit_word_eqI) (auto simp: bit_simps)
  ultimately have "(ucast (NOT (drop_bit 16 t + t)) :: u16) = NOT (of_nat (oc (unat s)))" by (metis of_nat_unat ucast_id)
  then show ?thesis using not_oc [of "unat s"] by (simp add: Let_def t_def FOLD_U32T_def)
qed

lemma inline_chksum_spec:
  assumes "iph_offset h = 0" "iph_chksum h = 0" "unat s = n" "n \<le> 20 * 65535"
  shows "unat (inline_chksum s h) = 65535 - oc (n + le_sum (ip_hdr_bytes h))"
proof -
  have f: "unat (w AND 0xFFFF) = unat w mod 65536" "unat (drop_bit 16 w) = unat w div 65536" for w :: u32
    by (simp_all only: and_ffff_take_bit unat_take) simp_all
  have d: "unat w mod 65536 \<le> 65535" "unat w div 65536 \<le> 65535" for w :: u32
    using unat_word_less(3) [of w] by (simp_all add: less_Suc_eq_le [symmetric] div_less_iff_less_mult)
  have e: "unat w \<le> 65535" for w :: u16 using unat_word_less(2) [of w] by simp
  let ?pt = "unat (iph_ttl h) + 256 * unat (iph_proto h)"
  have pt: "?pt \<le> 65535" using unat_word_less(1) [of "iph_ttl h"] unat_word_less(1) [of "iph_proto h"] by simp
  note b = d [of "iph_dest h"] d [of "iph_src h"] e [of "v_hl_tos h"] e [of "iph_len h"] e [of "iph_id h"] pt assms(4)
  have "unat (s + LWIP_MAKE_U16 (iph_proto h) (iph_ttl h)) = n + ?pt" (is "unat ?a = ?n")
    by (rule add_step [OF assms(3) unat_make_u16]) (use b in linarith)
  then have "unat (?a + (iph_dest h AND 0xFFFF)) = ?n + unat (iph_dest h) mod 65536" (is "unat ?a = ?n")
    by (rule add_step [OF _ f(1)]) (use b in linarith)
  then have "unat (?a + drop_bit 16 (iph_dest h)) = ?n + unat (iph_dest h) div 65536" (is "unat ?a = ?n")
    by (rule add_step [OF _ f(2)]) (use b in linarith)
  then have "unat (?a + ucast (v_hl_tos h)) = ?n + unat (v_hl_tos h)" (is "unat ?a = ?n")
    by (rule add_step [OF _ unat_ucast_up(3)]) (use b in linarith)
  then have "unat (?a + ucast (iph_len h)) = ?n + unat (iph_len h)" (is "unat ?a = ?n")
    by (rule add_step [OF _ unat_ucast_up(3)]) (use b in linarith)
  then have "unat (?a + ucast (iph_id h)) = ?n + unat (iph_id h)" (is "unat ?a = ?n")
    by (rule add_step [OF _ unat_ucast_up(3)]) (use b in linarith)
  then have "unat (?a + (iph_src h AND 0xFFFF)) = ?n + unat (iph_src h) mod 65536" (is "unat ?a = ?n")
    by (rule add_step [OF _ f(1)]) (use b in linarith)
  then have a: "unat (?a + drop_bit 16 (iph_src h)) = ?n + unat (iph_src h) div 65536" (is "unat ?a = ?n")
    by (rule add_step [OF _ f(2)]) (use b in linarith)
  have sum: "?n = n + le_sum (ip_hdr_bytes h)" using assms(1,2) by (simp add: le_sum_hdr)
  have "unat ?a \<le> 40 * 65535" using a b by linarith
  from fold_inline [OF this] show ?thesis
    unfolding a sum by (simp only: inline_chksum_def Let_def)
qed

lemma le_sum_hdr_chksum:
  "le_sum (ip_hdr_bytes (h\<lparr>iph_chksum := c\<rparr>)) + unat (iph_chksum h) = le_sum (ip_hdr_bytes h) + unat c"
  by (simp add: le_sum_hdr)

lemma hdr_chksum_verifies:
  assumes "iph_offset h = 0" "iph_chksum h = 0" "unat s = le_sum opts" "le_sum opts \<le> 20 * 65535" "length opts < 1000"
  shows "inet_chksum mis (ip_hdr_bytes (h\<lparr>iph_chksum := inline_chksum s h\<rparr>) @ opts) = 0"
proof -
  let ?n = "le_sum opts + le_sum (ip_hdr_bytes h)"
  let ?h = "h\<lparr>iph_chksum := inline_chksum s h\<rparr>"
  have c: "unat (inline_chksum s h) = 65535 - oc ?n" using inline_chksum_spec [OF assms(1-4)] .
  have "le_sum (ip_hdr_bytes ?h) = le_sum (ip_hdr_bytes h) + (65535 - oc ?n)"
    using le_sum_hdr_chksum [where h = h and c = "inline_chksum s h"] c assms(2) by simp
  moreover have "le_sum (ip_hdr_bytes ?h @ opts) = le_sum (ip_hdr_bytes ?h) + le_sum opts" by (rule le_sum_even) simp
  ultimately have "le_sum (ip_hdr_bytes ?h @ opts) = ?n + (65535 - oc ?n)" by linarith
  then have "oc_sum (ip_hdr_bytes ?h @ opts) = 65535" by (simp only: oc_sum_def oc_complement)
  then show ?thesis using assms(5) by (simp add: inet_chksum_0_iff)
qed

lemma le32_bytes: "le32 (ucast w) (ucast (drop_bit 8 w)) (ucast (drop_bit 16 w)) (ucast (drop_bit 24 w)) = w"
proof (rule bit_word_eqI)
  fix n
  assume "n < LENGTH(32)"
  then have "n < 32" by simp
  then consider "n < 8" | "8 \<le> n" "n < 16" | "16 \<le> n" "n < 24" | "24 \<le> n" "n < 32" by linarith
  then show "bit (le32 (ucast w) (ucast (drop_bit 8 w)) (ucast (drop_bit 16 w)) (ucast (drop_bit 24 w))) n = bit w n"
    by cases (auto simp: le32_def bit_simps)
qed

lemma ip_hdr_of_bytes: "ip_hdr_of (ip_hdr_bytes h @ xs) = h"
  by (cases h) (simp add: ip_hdr_of_def ip_hdr_bytes_def mem16_def bytes_le32_def le32_bytes)

lemma htons_htons: "ntohs (htons w) = w"
proof -
  have "unat (hi8 w) < 256" "unat (lo8 w) < 256" by (rule unat_word_less)+
  then have "unat (ntohs (htons w)) = unat w"
    by (simp add: ntohs_def unat_htons unat_htons16) (simp add: unat_hi_lo)
  then show ?thesis by (simp add: word_unat_eq_iff)
qed

lemma vhl_fields:
  "IPH_V (IPH_VHLTOS 4 5 tos) = 4" "IPH_HL (IPH_VHLTOS 4 5 tos) = 5"
proof -
  have t: "unat tos < 256" by (rule unat_word_less)
  have "\<not> bit (17664 :: u16) n" if "n < 8" for n
    using that by (auto simp: numeral_eq_Suc less_Suc_eq bit_Suc)
  then have "(0x4500 OR ucast tos :: u16) = 0x4500 + ucast tos"
    by (subst disjunctive_add) (auto simp: bit_simps dest: bit_u8_iff)
  then have w: "push_bit 12 4 OR push_bit 8 5 OR ucast tos = (0x4500 + ucast tos :: u16)" by (simp flip: or.assoc)
  have u: "unat (0x4500 + ucast tos :: u16) = 17664 + unat tos"
    using t by (subst unat_add_lt) simp_all
  have "unat (drop_bit 12 (0x4500 + ucast tos :: u16)) = 4" "unat (drop_bit 8 (0x4500 + ucast tos :: u16)) = 69"
    unfolding unat_drop_bit_eq u using t by (simp_all add: drop_bit_eq_div)
  then have d: "drop_bit 12 (0x4500 + ucast tos :: u16) = 4" "drop_bit 8 (0x4500 + ucast tos :: u16) = 69"
    by (simp_all only: word_unat_eq_iff) simp_all
  show "IPH_V (IPH_VHLTOS 4 5 tos) = 4" "IPH_HL (IPH_VHLTOS 4 5 tos) = 5"
    unfolding IPH_V_def IPH_HL_def IPH_VHLTOS_def htons_htons w d by simp_all
qed

section \<open>Output\<close>

lemma packet_write:
  assumes "packet h (Some a) (a # as)" "h a = Some b" "length bs \<le> length (pb_bytes b)"
  shows "\<exists>b'. pb_write b 0 bs = Some b' \<and> packet (h(a \<mapsto> b')) (Some a) (a # as) \<and> pb_bytes b' = bs @ drop (length bs) (pb_bytes b) \<and>
    chain_data (h(a \<mapsto> b')) (a # as) = bs @ drop (length bs) (chain_data h (a # as)) \<and> b'\<lparr>pb_mem := pb_mem b\<rparr> = b"
proof -
  have b: "pb_ok b" "unat (tot_len b) = length (pb_bytes b @ chain_data h as)" "packet h (pb_next b) as"
    using assms(1,2) by (auto simp: packet_Cons)
  have a: "a \<notin> set as" using assms(1) chain_distinct [of h "Some a" "a # as"] by (simp add: packet_def)
  obtain m where m: "pb_write b 0 bs = Some (b\<lparr>pb_mem := m\<rparr>)" "pb_ok (b\<lparr>pb_mem := m\<rparr>)"
    "pb_bytes (b\<lparr>pb_mem := m\<rparr>) = bs @ drop (length bs) (pb_bytes b)"
    using pb_write_ok [OF b(1)] assms(3) b(1) by auto
  have "length (bs @ drop (length bs) (pb_bytes b)) = length (pb_bytes b)" using assms(3) by simp
  then show ?thesis
    using m a b assms(2,3) by (intro exI [of _ "b\<lparr>pb_mem := m\<rparr>"]) (simp add: packet_Cons)
qed

text \<open>A header that is revealed and then written.\<close>

lemma packet_prepend:
  assumes "packet h (Some p) (p # ps)" "h p = Some b" "pb_type b = PBUF_RAM \<or> pb_type b = PBUF_POOL"
    and "pb_payload b = Some pos" "hb \<noteq> []" "int (length hb) \<le> pos" "length (chain_data h (p # ps)) + length hb < 65536"
  shows "\<exists>h1 b1 b2. pbuf_header (Some p) (int (length hb)) h = Some (0, h1) \<and> h1 p = Some b1 \<and> pb_write b1 0 hb = Some b2 \<and>
    packet (h1(p \<mapsto> b2)) (Some p) (p # ps) \<and> chain_data (h1(p \<mapsto> b2)) (p # ps) = hb @ chain_data h (p # ps) \<and>
    (\<forall>x. x \<noteq> p \<longrightarrow> h1 x = h x) \<and> tot_len b1 = of_nat (length (chain_data h (p # ps)) + length hb) \<and>
    length hb \<le> unat (pb_len b2) \<and> pb_ref b2 = pb_ref b \<and> pb_type b2 = pb_type b \<and> pb_next b2 = pb_next b \<and>
    pb_payload b2 = Some (pos - int (length hb))"
proof -
  let ?n = "length hb"
  have "0 < ?n" using assms(5) by simp
  then obtain h1 where h1: "pbuf_header (Some p) (int ?n) h = Some (0, h1)" "packet h1 (Some p) (p # ps)"
    "chain_data h1 (p # ps) = take ?n (drop (nat pos - ?n) (pb_mem b)) @ chain_data h (p # ps)" "\<forall>x. x \<noteq> p \<longrightarrow> h1 x = h x"
    using pbuf_header_reveal [OF assms(1-4), of ?n] assms(6,7) by blast
  have pok: "pb_ok b" using assms(1,2) by (auto simp: packet_Cons)
  then have room: "nat pos \<le> length (pb_mem b)" using assms(4) by (auto simp: pb_ok_def)
  obtain b1 where b1: "h1 p = Some b1" "pb_ok b1" "unat (tot_len b1) = length (chain_data h1 (p # ps))"
    using h1(2) by (auto simp: packet_Cons)
  have b1_eq: "b1 = b\<lparr>pb_payload := Some (pos - int ?n), pb_len := pb_len b + of_nat ?n, tot_len := tot_len b + of_nat ?n\<rparr>"
    using h1(1) b1(1) assms(2-6) by (auto simp: pbuf_header_def Let_def)
  have l1: "length (chain_data h1 (p # ps)) = length (chain_data h (p # ps)) + ?n"
    using h1(3) assms(6) room by simp
  then have tot: "tot_len b1 = of_nat (length (chain_data h (p # ps)) + ?n)" using b1(3) by (metis of_nat_unat ucast_id)
  have "length (chain_data h (p # ps)) = length (pb_bytes b) + length (chain_data h ps)" using assms(2) by simp
  moreover have "length (chain_data h1 (p # ps)) = length (pb_bytes b1) + length (chain_data h1 ps)" using b1(1) by simp
  moreover have "p \<notin> set ps" using h1(2) chain_distinct [of h1 "Some p" "p # ps"] by (simp add: packet_def)
  then have "chain_data h1 ps = chain_data h ps" using h1(4) by (intro chain_data_frame) auto
  ultimately have len1: "?n \<le> length (pb_bytes b1)" using l1 by simp
  from packet_write [OF h1(2) b1(1) this] obtain b2 where b2: "pb_write b1 0 hb = Some b2"
    "packet (h1(p \<mapsto> b2)) (Some p) (p # ps)"
    "chain_data (h1(p \<mapsto> b2)) (p # ps) = hb @ drop ?n (chain_data h1 (p # ps))" "b2\<lparr>pb_mem := pb_mem b1\<rparr> = b1"
    by blast
  have eq: "pb_len b2 = pb_len b1" "pb_ref b2 = pb_ref b1" "pb_type b2 = pb_type b1" "pb_next b2 = pb_next b1" "pb_payload b2 = pb_payload b1"
    using arg_cong [OF b2(4), of pb_len] arg_cong [OF b2(4), of pb_ref] arg_cong [OF b2(4), of pb_type]
      arg_cong [OF b2(4), of pb_next] arg_cong [OF b2(4), of pb_payload] by simp_all
  have d: "drop ?n (chain_data h1 (p # ps)) = chain_data h (p # ps)"
    unfolding h1(3) using room assms(6) by (simp del: chain_data_simps)
  have l: "?n \<le> unat (pb_len b2)" using len1 eq(1) b1(2) by simp
  have f: "pb_ref b2 = pb_ref b" "pb_type b2 = pb_type b" "pb_next b2 = pb_next b" "pb_payload b2 = Some (pos - int ?n)"
    using eq b1_eq by simp_all
  show ?thesis
    by (intro exI [of _ h1] exI [of _ b1] exI [of _ b2] conjI) (fact h1 b1 b2 tot l f b2(3) [unfolded d])+
qed

text \<open>What \<open>ip_output_if\<close> puts in front of a packet.\<close>

definition sent_hdr :: "u8 \<Rightarrow> u16 \<Rightarrow> u16 \<Rightarrow> u8 \<Rightarrow> u8 \<Rightarrow> u32 \<Rightarrow> u32 \<Rightarrow> ip_hdr" where
  "sent_hdr tos len ident ttl proto src dst =
     (let h = \<lparr>v_hl_tos = IPH_VHLTOS 4 5 tos, iph_len = htons len, iph_id = htons ident, iph_offset = 0, iph_ttl = ttl,
        iph_proto = proto, iph_chksum = 0, iph_src = src, iph_dest = dst\<rparr>
      in h\<lparr>iph_chksum := inline_chksum 0 h\<rparr>)"

lemma sent_hdr_fields [simp]:
  "v_hl_tos (sent_hdr tos len ident ttl proto src dst) = IPH_VHLTOS 4 5 tos"
  "iph_len (sent_hdr tos len ident ttl proto src dst) = htons len" "iph_id (sent_hdr tos len ident ttl proto src dst) = htons ident"
  "iph_offset (sent_hdr tos len ident ttl proto src dst) = 0" "iph_ttl (sent_hdr tos len ident ttl proto src dst) = ttl"
  "iph_proto (sent_hdr tos len ident ttl proto src dst) = proto" "iph_src (sent_hdr tos len ident ttl proto src dst) = src"
  "iph_dest (sent_hdr tos len ident ttl proto src dst) = dst"
  by (simp_all add: sent_hdr_def Let_def)

lemma sent_hdr_chksum: "inet_chksum mis (ip_hdr_bytes (sent_hdr tos len ident ttl proto src dst)) = 0"
  unfolding sent_hdr_def Let_def by (rule hdr_chksum_verifies [of _ 0 "[]", simplified]) simp_all

lemma ip_output_if_spec:
  assumes "packet (pbufs g) (Some p) (p # ps)" "pbufs g p = Some b" "pb_type b = PBUF_RAM \<or> pb_type b = PBUF_POOL"
    and "pb_payload b = Some pos" "20 \<le> pos" "length (chain_data (pbufs g) (p # ps)) + 20 < 65536" "netif_mem g netif = Some ni"
  defines "n \<equiv> of_nat (length (chain_data (pbufs g) (p # ps)) + 20)"
  shows "\<exists>h'. ip_output_if env p src (Some dst) ttl tos proto netif g =
      netif_output env (ni_output ni) netif p dst (g\<lparr>pbufs := h', ip_id := ip_id g + 1\<rparr>) \<and>
    packet h' (Some p) (p # ps) \<and> 20 \<le> unat (pb_len (the (h' p))) \<and>
    chain_data h' (p # ps) = ip_hdr_bytes (sent_hdr tos n (ip_id g) ttl proto
      (if src = None \<or> ip_addr_isany (the src) then ni_ip_addr ni else the src) dst) @ chain_data (pbufs g) (p # ps) \<and>
    (\<forall>x. x \<noteq> p \<longrightarrow> h' x = pbufs g x) \<and> pb_ref (the (h' p)) = pb_ref b"
proof -
  define s where "s = (if src = None \<or> ip_addr_isany (the src) then ni_ip_addr ni else the src)"
  define hb where "hb = ip_hdr_bytes (sent_hdr tos n (ip_id g) ttl proto s dst)"
  have hb: "hb \<noteq> []" "length hb = 20" by (simp_all add: hb_def flip: length_0_conv)
  obtain h1 b1 b2 where h: "pbuf_header (Some p) 20 (pbufs g) = Some (0, h1)" "h1 p = Some b1" "pb_write b1 0 hb = Some b2"
    "packet (h1(p \<mapsto> b2)) (Some p) (p # ps)" "chain_data (h1(p \<mapsto> b2)) (p # ps) = hb @ chain_data (pbufs g) (p # ps)"
    "\<forall>x. x \<noteq> p \<longrightarrow> h1 x = pbufs g x" "tot_len b1 = n" "20 \<le> unat (pb_len b2)" "pb_ref b2 = pb_ref b"
    using packet_prepend [OF assms(1-4) hb(1)] assms(5,6) unfolding hb(2) n_def of_nat_numeral by blast
  have "ip_output_if env p src (Some dst) ttl tos proto netif g =
      netif_output env (ni_output ni) netif p dst (g\<lparr>pbufs := h1(p \<mapsto> b2), ip_id := ip_id g + 1\<rparr>)"
    using h(1-3) assms(7)
    by (simp add: ip_output_if_def ip_output_if_opt_def on_pbufs_def IP_HLEN_def h(7) hb_def sent_hdr_def s_def Let_def)
  then show ?thesis
    using h by (intro exI [of _ "h1(p \<mapsto> b2)"]) (simp add: hb_def s_def)
qed

section \<open>Input\<close>

lemma hdr_reads:
  assumes "pb_ok b" "pb_bytes b = ip_hdr_bytes h @ rest"
  shows "hdr16 b 0 = Some (v_hl_tos h)" "hdr16 b 2 = Some (iph_len h)" "hdr16 b 6 = Some (iph_offset h)"
    "hdr8 b 9 = Some (iph_proto h)" "hdr32 b 12 = Some (iph_src h)" "hdr32 b 16 = Some (iph_dest h)"
    "pb_read b 0 20 = Some (ip_hdr_bytes h)"
proof -
  have l: "20 \<le> unat (pb_len b)" using length_pb_bytes [OF assms(1)] assms(2) by simp
  have r: "pb_read b i n = Some (take n (drop i (ip_hdr_bytes h)))" if "i + n \<le> 20" for i n
    using pb_read_ok [OF assms(1), of i n] that l assms(2) by simp
  show "pb_read b 0 20 = Some (ip_hdr_bytes h)" by (simp add: r)
  have d: "hdr16 b i = Some (le16 (ip_hdr_bytes h ! i) (ip_hdr_bytes h ! Suc i))" if "i + 2 \<le> 20" for i
    using that by (simp add: hdr16_def r)
  have e: "hdr32 b i = Some (le32 (ip_hdr_bytes h ! i) (ip_hdr_bytes h ! Suc i) (ip_hdr_bytes h ! (i + 2)) (ip_hdr_bytes h ! (i + 3)))"
    if "i + 4 \<le> 20" for i
    using that by (simp add: hdr32_def r)
  have f: "hdr8 b i = Some (ip_hdr_bytes h ! i)" if "i + 1 \<le> 20" for i using that by (simp add: hdr8_def r)
  show "hdr16 b 0 = Some (v_hl_tos h)" "hdr16 b 2 = Some (iph_len h)" "hdr16 b 6 = Some (iph_offset h)"
    "hdr8 b 9 = Some (iph_proto h)" "hdr32 b 12 = Some (iph_src h)" "hdr32 b 16 = Some (iph_dest h)"
    by (simp_all add: d e f ip_hdr_bytes_def mem16_def bytes_le32_def le32_bytes)
qed

text \<open>A source address that \<open>ip_input\<close> lets through.\<close>

definition src_ok :: "u32 \<Rightarrow> netif \<Rightarrow> bool" where
  "src_ok src ni \<longleftrightarrow> ip_addr_isany src \<or> \<not> ip4_addr_isbroadcast src ni \<and> \<not> ip_addr_ismulticast src"

definition ip_done :: "'a net_scheme \<Rightarrow> 'a net_scheme" where
  "ip_done g = g\<lparr>current_netif := None, current_header := None, current_iphdr_src := 0, current_iphdr_dest := 0\<rparr>"

lemma ip_input_accepts:
  assumes pk: "packet (pbufs g) (Some p) (p # ps)" "pbufs g p = Some b" "20 \<le> unat (pb_len b)"
    and data: "chain_data (pbufs g) (p # ps) = ip_hdr_bytes h @ d"
    and hdr: "IPH_V (v_hl_tos h) = 4" "IPH_HL (v_hl_tos h) = 5" "ntohs (iph_len h) = of_nat (length d + 20)"
      "inet_chksum (payload_odd env b) (ip_hdr_bytes h) = 0" "iph_offset h AND htons (IP_OFFMASK OR IP_MF) = 0"
    and inp: "netif_mem g inp = Some ni" "netif_is_up ni" "iph_dest h = ni_ip_addr ni" "\<not> ip_addr_isany (ni_ip_addr ni)"
      "\<not> ip_addr_ismulticast (iph_dest h)" "src_ok (iph_src h) ni"
  shows "ip_input env p inp g = map_option (\<lambda>g. (ERR_OK, ip_done g)) (deliver env p inp (pb_payload b)
    (g\<lparr>current_iphdr_dest := iph_dest h, current_iphdr_src := iph_src h, current_netif := Some inp, current_header := Some p\<rparr>))"
proof -
  have b: "pb_ok b" "unat (tot_len b) = length (chain_data (pbufs g) (p # ps))" using pk(1,2) by (auto simp: packet_Cons)
  have split: "pb_bytes b @ chain_data (pbufs g) ps = ip_hdr_bytes h @ d" using data pk(2) by simp
  have "take 20 (pb_bytes b @ chain_data (pbufs g) ps) = take 20 (pb_bytes b)" using pk(3) b(1) by simp
  then have "take 20 (pb_bytes b) = ip_hdr_bytes h" unfolding split by simp
  then have rest: "pb_bytes b = ip_hdr_bytes h @ drop 20 (pb_bytes b)" by (metis append_take_drop_id)
  note rd = hdr_reads [OF b(1) rest]
  have tot: "tot_len b = of_nat (length d + 20)" using b(2) data
    by (metis length_append length_hdr add.commute of_nat_unat ucast_id)
  have re: "pbuf_realloc p (tot_len b) (pbufs g) = Some (pbufs g)" using pk(2) by (simp add: pbuf_realloc_def)
  have hl: "unat (IPH_HL (v_hl_tos h) * 4) = 20" "\<not> IPH_HL (v_hl_tos h) * 4 > pb_len b"
    using hdr(2) pk(3) by (simp_all add: word_less_nat_alt)
  have so: "(\<not> ip_addr_isany (iph_src h) \<and> (ip4_addr_isbroadcast (iph_src h) ni \<or> ip_addr_ismulticast (iph_src h))) = False"
    using inp(6) by (auto simp: src_ok_def)
  have netif: "input_netif inp (iph_dest h) g' = Some (Some inp)" if "netif_mem g' = netif_mem g" for g' :: "'a net_scheme"
    using inp that by (simp add: input_netif_def)
  let ?g = "g\<lparr>current_iphdr_dest := iph_dest h, current_iphdr_src := iph_src h\<rparr>"
  have "ip_input env p inp g = do {
      g \<leftarrow> deliver env p inp (pb_payload b) (?g\<lparr>current_netif := Some inp, current_header := Some p\<rparr>);
      Some (ERR_OK, ip_done g) }"
    unfolding ip_input_def
    using pk(2) rd hdr hl inp(1) so tot re netif [of ?g]
    by (simp add: ip_done_def IPADDR_ANY_def Let_def) blast
  then show ?thesis by (simp add: map_conv_bind_option comp_def)
qed


section \<open>Properties\<close>

text \<open>A station with one interface and a packet with room for a header.\<close>

definition demo_netif :: netif where
  "demo_netif = \<lparr>ni_ip_addr = IP4_ADDR 192 168 4 1, ni_netmask = IP4_ADDR 255 255 255 0, ni_gw = IP4_ADDR 192 168 4 254,
     ni_input = 1, ni_output = 2, ni_linkoutput = 3, ni_mtu = 1500, ni_hwaddr = [2, 0, 0, 0, 0, 1],
     ni_flags = NETIF_FLAG_UP OR NETIF_FLAG_BROADCAST, ni_name = (101, 110), ni_num = 0, ni_state = 0, ni_dhcp = None,
     ni_igmp_mac_filter = 0\<rparr>"

definition demo_net :: net where
  "demo_net = net_zero\<lparr>pbufs := [7 \<mapsto> \<lparr>pb_next = None, pb_payload = Some 20, tot_len = 2, pb_len = 2, pb_type = PBUF_RAM,
       pb_flags = 0, pb_ref = 1, pb_mem = replicate 20 0 @ [97, 98]\<rparr>],
     netif_mem := [5 \<mapsto> demo_netif], netif_list := [5], netif_default := Some 5\<rparr>"

lemma demo_net_packet: "packet (pbufs demo_net) (Some 7) [7]" "chain_data (pbufs demo_net) [7] = [97, 98]"
  by (simp_all add: demo_net_def packet_Cons pb_ok_def pb_bytes_def)

text \<open>C34: \<open>ip_output_if\<close> on a packet with room for the header hands exactly one packet to the output function of the
  interface: well formed, with a header of version 4 whose checksum verifies at any alignment, the total length,
  the given time to live, protocol and addresses (the interface's own source when none is given) in front of the
  unchanged data; the next identification is used next time.  Without room it returns \<open>ERR_BUF\<close> and changes
  nothing.\<close>

theorem ip_output_if_correct:
  assumes "packet (pbufs g) (Some p) (p # ps)" "pbufs g p = Some b" "pb_type b = PBUF_RAM \<or> pb_type b = PBUF_POOL"
    and "pb_payload b = Some pos" "length (chain_data (pbufs g) (p # ps)) + 20 < 65536" "netif_mem g netif = Some ni"
  shows "if pos < 20 then ip_output_if env p src (Some dst) ttl tos proto netif g = Some (ERR_BUF, g)
    else \<exists>h' hdr. ip_output_if env p src (Some dst) ttl tos proto netif g =
        netif_output env (ni_output ni) netif p dst (g\<lparr>pbufs := h', ip_id := ip_id g + 1\<rparr>) \<and>
      packet h' (Some p) (p # ps) \<and> chain_data h' (p # ps) = ip_hdr_bytes hdr @ chain_data (pbufs g) (p # ps) \<and>
      (\<forall>x. x \<noteq> p \<longrightarrow> h' x = pbufs g x) \<and>
      (\<forall>mis. inet_chksum mis (ip_hdr_bytes hdr) = 0) \<and> IPH_V (v_hl_tos hdr) = 4 \<and> IPH_HL (v_hl_tos hdr) = 5 \<and>
      unat (ntohs (iph_len hdr)) = length (chain_data (pbufs g) (p # ps)) + 20 \<and> ntohs (iph_id hdr) = ip_id g \<and>
      iph_offset hdr = 0 \<and> iph_ttl hdr = ttl \<and> iph_proto hdr = proto \<and> iph_dest hdr = dst \<and>
      iph_src hdr = (if src = None \<or> ip_addr_isany (the src) then ni_ip_addr ni else the src)"
proof (cases "pos < 20")
  case True
  then have "pbuf_header (Some p) 20 (pbufs g) = Some (1, pbufs g)"
    using assms(2-4) by (auto simp: pbuf_header_def Let_def)
  then show ?thesis using True by (simp add: ip_output_if_def ip_output_if_opt_def on_pbufs_def IP_HLEN_def)
next
  case False
  let ?n = "length (chain_data (pbufs g) (p # ps)) + 20"
  define s where "s = (if src = None \<or> ip_addr_isany (the src) then ni_ip_addr ni else the src)"
  define hdr where "hdr = sent_hdr tos (of_nat ?n) (ip_id g) ttl proto s dst"
  have n: "unat (of_nat ?n :: u16) = ?n" using assms(5) by (simp only: unat_of_nat) (simp add: take_bit_eq_mod)
  have pos: "20 \<le> pos" using False by simp
  obtain h' where h': "ip_output_if env p src (Some dst) ttl tos proto netif g =
      netif_output env (ni_output ni) netif p dst (g\<lparr>pbufs := h', ip_id := ip_id g + 1\<rparr>)" "packet h' (Some p) (p # ps)"
    "chain_data h' (p # ps) = ip_hdr_bytes hdr @ chain_data (pbufs g) (p # ps)" "\<forall>x. x \<noteq> p \<longrightarrow> h' x = pbufs g x"
    using ip_output_if_spec [OF assms(1-4) pos assms(5,6), of env src dst ttl tos proto] unfolding hdr_def s_def by blast
  have "unat (ntohs (iph_len hdr)) = ?n" "ntohs (iph_id hdr) = ip_id g"
    unfolding hdr_def by (simp_all only: sent_hdr_fields htons_htons n)
  moreover have "\<forall>mis. inet_chksum mis (ip_hdr_bytes hdr) = 0" "IPH_V (v_hl_tos hdr) = 4" "IPH_HL (v_hl_tos hdr) = 5"
    "iph_offset hdr = 0" "iph_ttl hdr = ttl" "iph_proto hdr = proto" "iph_dest hdr = dst" "iph_src hdr = s"
    unfolding hdr_def by (simp_all add: sent_hdr_chksum vhl_fields)
  ultimately show ?thesis
    unfolding if_not_P [OF False] s_def [symmetric] using h' by (intro exI [of _ h'] exI [of _ hdr] conjI)
qed

theorem ip_output_if_correct_witness:
  "\<forall>env :: net ip_env. \<exists>h' hdr. ip_output_if env 7 None (Some (IP4_ADDR 192 168 4 2)) 255 0 17 5 demo_net =
     netif_output env 2 5 7 (IP4_ADDR 192 168 4 2) (demo_net\<lparr>pbufs := h', ip_id := 1\<rparr>) \<and>
     chain_data h' [7] = ip_hdr_bytes hdr @ [97, 98] \<and> iph_src hdr = IP4_ADDR 192 168 4 1"
proof -
  have "pbufs demo_net 7 = Some (the (pbufs demo_net 7))" "pb_type (the (pbufs demo_net 7)) = PBUF_RAM"
    "pb_payload (the (pbufs demo_net 7)) = Some 20" "netif_mem demo_net 5 = Some demo_netif" "ip_id demo_net = 0"
    "ni_output demo_netif = 2" "ni_ip_addr demo_netif = IP4_ADDR 192 168 4 1"
    by (simp_all add: demo_net_def net_zero_def demo_netif_def)
  note facts = this
  show ?thesis
  proof
    fix env :: "net ip_env"
    show "\<exists>h' hdr. ip_output_if env 7 None (Some (IP4_ADDR 192 168 4 2)) 255 0 17 5 demo_net =
     netif_output env 2 5 7 (IP4_ADDR 192 168 4 2) (demo_net\<lparr>pbufs := h', ip_id := 1\<rparr>) \<and>
     chain_data h' [7] = ip_hdr_bytes hdr @ [97, 98] \<and> iph_src hdr = IP4_ADDR 192 168 4 1"
      using facts ip_output_if_correct [OF demo_net_packet(1), of "the (pbufs demo_net 7)" 20 5 demo_netif env None
          "IP4_ADDR 192 168 4 2" 255 0 17]
      unfolding demo_net_packet(2) by auto
  qed
qed

text \<open>C9: What one station sends with \<open>ip_output_if\<close>, the addressed one accepts: \<open>ip_input\<close> on that packet, on an interface
  that is up and has the destination address, passes every check (version, lengths, checksum, addresses,
  fragment) and delivers the packet with the sender's addresses, whatever its alignment there.\<close>

theorem ip_send_receive:
  assumes "packet (pbufs g) (Some p) (p # ps)" "pbufs g p = Some b" "pb_type b = PBUF_RAM \<or> pb_type b = PBUF_POOL"
    and "pb_payload b = Some pos" "20 \<le> pos" "length (chain_data (pbufs g) (p # ps)) + 20 < 65536"
    and "netif_mem g netif = Some ni" "\<not> ip_addr_isany src"
    and "netif_mem r inp = Some ni'" "netif_is_up ni'" "ni_ip_addr ni' = dst" "\<not> ip_addr_isany dst"
      "\<not> ip_addr_ismulticast dst" "src_ok src ni'"
  shows "\<exists>h'. ip_output_if env p (Some src) (Some dst) ttl tos proto netif g =
      netif_output env (ni_output ni) netif p dst (g\<lparr>pbufs := h', ip_id := ip_id g + 1\<rparr>) \<and>
    ip_input env' p inp (r\<lparr>pbufs := h'\<rparr>) =
      map_option (\<lambda>g. (ERR_OK, ip_done g)) (deliver env' p inp (pb_payload (the (h' p)))
        (r\<lparr>pbufs := h', current_iphdr_dest := dst, current_iphdr_src := src, current_netif := Some inp,
           current_header := Some p\<rparr>))"
proof -
  let ?n = "length (chain_data (pbufs g) (p # ps)) + 20"
  define hdr where "hdr = sent_hdr tos (of_nat ?n) (ip_id g) ttl proto src dst"
  obtain h' where h': "ip_output_if env p (Some src) (Some dst) ttl tos proto netif g =
      netif_output env (ni_output ni) netif p dst (g\<lparr>pbufs := h', ip_id := ip_id g + 1\<rparr>)" "packet h' (Some p) (p # ps)"
    "20 \<le> unat (pb_len (the (h' p)))" "chain_data h' (p # ps) = ip_hdr_bytes hdr @ chain_data (pbufs g) (p # ps)"
    using ip_output_if_spec [OF assms(1-7), of env "Some src" dst ttl tos proto] assms(8)
    unfolding hdr_def by (auto simp del: chain_data_simps)
  obtain b' where b': "h' p = Some b'" using h'(2) by (auto simp: packet_Cons)
  have f: "IPH_V (v_hl_tos hdr) = 4" "IPH_HL (v_hl_tos hdr) = 5" "iph_offset hdr AND htons (IP_OFFMASK OR IP_MF) = 0"
    "ntohs (iph_len hdr) = of_nat ?n" "inet_chksum (payload_odd env' b') (ip_hdr_bytes hdr) = 0"
    "iph_dest hdr = dst" "iph_src hdr = src"
    unfolding hdr_def by (simp_all only: sent_hdr_fields htons_htons vhl_fields sent_hdr_chksum) simp_all
  have "ip_input env' p inp (r\<lparr>pbufs := h'\<rparr>) = map_option (\<lambda>g. (ERR_OK, ip_done g)) (deliver env' p inp (pb_payload b')
      ((r\<lparr>pbufs := h'\<rparr>)\<lparr>current_iphdr_dest := iph_dest hdr, current_iphdr_src := iph_src hdr,
        current_netif := Some inp, current_header := Some p\<rparr>))"
    by (rule ip_input_accepts [where h = hdr and d = "chain_data (pbufs g) (p # ps)" and ps = ps and ni = ni'])
      (use h' b' f assms(9-14) in \<open>simp_all del: chain_data_simps of_nat_add\<close>)
  then show ?thesis using h'(1) b' f by (intro exI [of _ h']) simp
qed


theorem ip_send_receive_witness:
  "\<forall>env env' :: net ip_env. \<exists>h'.
     ip_output_if env 7 (Some (IP4_ADDR 192 168 4 9)) (Some (IP4_ADDR 192 168 4 1)) 255 0 17 5 demo_net =
       netif_output env 2 5 7 (IP4_ADDR 192 168 4 1) (demo_net\<lparr>pbufs := h', ip_id := 1\<rparr>) \<and>
     ip_input env' 7 5 (demo_net\<lparr>pbufs := h'\<rparr>) =
       map_option (\<lambda>g. (ERR_OK, ip_done g)) (deliver env' 7 5 (pb_payload (the (h' 7)))
         (demo_net\<lparr>pbufs := h', current_iphdr_dest := IP4_ADDR 192 168 4 1, current_iphdr_src := IP4_ADDR 192 168 4 9,
            current_netif := Some 5, current_header := Some 7\<rparr>))"
proof -
  have "pbufs demo_net 7 = Some (the (pbufs demo_net 7))" "pb_type (the (pbufs demo_net 7)) = PBUF_RAM"
    "pb_payload (the (pbufs demo_net 7)) = Some 20" "netif_mem demo_net 5 = Some demo_netif" "ip_id demo_net = 0"
    "ni_output demo_netif = 2" "ni_ip_addr demo_netif = IP4_ADDR 192 168 4 1"
    by (simp_all add: demo_net_def net_zero_def demo_netif_def)
  moreover have "netif_is_up demo_netif" "\<not> ip_addr_isany (IP4_ADDR 192 168 4 9)" "\<not> ip_addr_isany (IP4_ADDR 192 168 4 1)"
    "\<not> ip_addr_ismulticast (IP4_ADDR 192 168 4 1)" "src_ok (IP4_ADDR 192 168 4 9) demo_netif"
    by code_simp+
  ultimately show ?thesis
    using ip_send_receive [OF demo_net_packet(1), of "the (pbufs demo_net 7)" 20 5 demo_netif "IP4_ADDR 192 168 4 9"
        demo_net 5 demo_netif "IP4_ADDR 192 168 4 1" _ 255 0 17]
    unfolding demo_net_packet(2) by simp
qed

section \<open>Raw sockets\<close>

text \<open>The specification of \<open>raw_input\<close>: offer the packet to the matching sockets in the order of the list until one
  eats it.\<close>

definition raw_match :: "u8 \<Rightarrow> u32 \<Rightarrow> raw_pcb \<Rightarrow> bool" where
  "raw_match proto dest b \<longleftrightarrow> protocol b = proto \<and> (ip_addr_isany (local_ip b) \<or> local_ip b = dest) \<and> recv b \<noteq> 0"

fun raw_offer :: "('a net_scheme) ip_env \<Rightarrow> u8 \<Rightarrow> nat list \<Rightarrow> nat \<Rightarrow> 'a net_scheme \<Rightarrow> (nat option \<times> 'a net_scheme) option" where
  "raw_offer env proto [] p g = Some (None, g)"
| "raw_offer env proto (a # as) p g = do {
     b \<leftarrow> raw_mem g a;
     if raw_match proto (current_iphdr_dest g) b then do {
       (r, g) \<leftarrow> raw_recv_fn env (recv b) (recv_arg b) a p (current_iphdr_src g) g;
       if r \<noteq> 0 then Some (Some a, g) else raw_offer env proto as p g
     }
     else raw_offer env proto as p g
   }"

text \<open>The eater moves to the front.\<close>

definition raw_result :: "nat option \<times> 'a net_scheme \<Rightarrow> u8 \<times> 'a net_scheme" where
  "raw_result = (\<lambda>(eater, g). case eater of
       None \<Rightarrow> (0, g)
     | Some a \<Rightarrow> (1, g\<lparr>raw_pcbs := a # remove1 a (raw_pcbs g)\<rparr>))"

lemma next_in_append: "distinct (xs @ a # ys) \<Longrightarrow> next_in a (xs @ a # ys) = (case ys of [] \<Rightarrow> None | y # _ \<Rightarrow> Some y)"
proof -
  assume "distinct (xs @ a # ys)"
  then have "dropWhile (\<lambda>x. x \<noteq> a) (xs @ a # ys) = a # ys" by (subst dropWhile_append2) auto
  then show ?thesis by (simp add: next_in_def split: list.split)
qed

lemma proto_cast: "(ucast (a :: u8) :: u16) = ucast b \<longleftrightarrow> a = b"
  by (metis unat_ucast_up(1) word_unat_eq_iff)

text \<open>What a receive callback has to keep: it may do anything else to the state of the firmware.\<close>

locale raw_client =
  fixes env :: "('a net_scheme) ip_env"
  assumes recv_keeps: "raw_recv_fn env f arg pcb p a g = Some (r, g') \<Longrightarrow>
    raw_pcbs g' = raw_pcbs g \<and> raw_mem g' = raw_mem g \<and> current_iphdr_dest g' = current_iphdr_dest g"
begin

lemma raw_input_loop_spec:
  "distinct (xs @ ys) \<Longrightarrow> raw_pcbs g = xs @ ys \<Longrightarrow> (prev = None \<longleftrightarrow> xs = []) \<Longrightarrow>
   raw_input_loop env (ucast proto) prev (case ys of [] \<Rightarrow> None | y # _ \<Rightarrow> Some y) p g =
     map_option raw_result (raw_offer env proto ys p g)"
proof (induction ys arbitrary: xs prev g)
  case Nil
  then show ?case by (subst raw_input_loop.simps) (simp add: raw_result_def)
next
  case (Cons a ys)
  have rest: "raw_input_loop env (ucast proto) (Some a) (next_in a (raw_pcbs g')) p g' =
      map_option raw_result (raw_offer env proto ys p g')" if "raw_pcbs g' = raw_pcbs g" for g' :: "'a net_scheme"
    using Cons.IH [of "xs @ [a]" g' "Some a"] Cons.prems that next_in_append [of xs a ys] by simp
  show ?case
  proof (cases "raw_mem g a")
    case None
    then show ?thesis by (subst raw_input_loop.simps) simp
  next
    case (Some b)
    show ?thesis
    proof (cases "raw_match proto (current_iphdr_dest g) b")
      case False
      then show ?thesis
        using Some rest [of g] by (subst raw_input_loop.simps) (auto simp: raw_match_def proto_cast)
    next
      case True
      show ?thesis
      proof (cases "raw_recv_fn env (recv b) (recv_arg b) a p (current_iphdr_src g) g")
        case None
        then show ?thesis using Some True by (subst raw_input_loop.simps) (simp add: raw_match_def proto_cast)
      next
        case (Some rg)
        obtain r g' where rg: "rg = (r, g')" by force
        have k: "raw_pcbs g' = raw_pcbs g" using recv_keeps Some rg by blast
        have "xs = [] \<Longrightarrow> g'\<lparr>raw_pcbs := a # remove1 a (raw_pcbs g')\<rparr> = g'" using k Cons.prems(2) by simp
        then show ?thesis
          using \<open>raw_mem g a = Some b\<close> True Some rg rest [OF k] Cons.prems(3)
          by (subst raw_input_loop.simps) (auto simp: raw_match_def proto_cast raw_result_def)
      qed
    qed
  qed
qed

lemma raw_input_spec:
  assumes "distinct (raw_pcbs g)" "pbufs g p = Some b" "hdr8 b 9 = Some proto"
  shows "raw_input env p g = map_option raw_result (raw_offer env proto (raw_pcbs g) p g)"
  using raw_input_loop_spec [of "[]" "raw_pcbs g" g None proto p] assms by (simp add: raw_input_def)

lemma raw_offer_keeps: "raw_offer env proto as p g = Some (e, g') \<Longrightarrow> raw_pcbs g' = raw_pcbs g \<and> raw_mem g' = raw_mem g"
proof (induction as arbitrary: g)
  case (Cons a as)
  then show ?case by (auto simp: bind_eq_Some_conv split: if_splits dest!: recv_keeps)
qed simp

lemma raw_offer_eater: "raw_offer env proto as p g = Some (Some a, g') \<Longrightarrow> a \<in> set as"
  by (induction as arbitrary: g) (auto simp: bind_eq_Some_conv split: if_splits)

lemma raw_input_pcbs:
  assumes "distinct (raw_pcbs g)" "raw_input env p g = Some (eaten, g')"
  shows "distinct (raw_pcbs g') \<and> set (raw_pcbs g') = set (raw_pcbs g) \<and> raw_mem g' = raw_mem g"
proof -
  obtain b proto where b: "pbufs g p = Some b" "hdr8 b 9 = Some proto"
    using assms(2) by (auto simp: raw_input_def bind_eq_Some_conv)
  obtain e g1 where o: "raw_offer env proto (raw_pcbs g) p g = Some (e, g1)" "(eaten, g') = raw_result (e, g1)"
    using raw_input_spec [OF assms(1) b, symmetric] assms(2) by auto
  show ?thesis
    using raw_offer_keeps [OF o(1)] raw_offer_eater [of proto "raw_pcbs g" p g] o assms(1)
    by (cases e) (auto simp: raw_result_def)
qed

end

end
