(* ===== verification/Etharp_Spec.thy ===== *)
theory Etharp_Spec
  imports Netif Ip_Spec
begin

text \<open>
  Correctness of the ARP cache: an invariant that every operation keeps, the entry that \<open>find_entry\<close> gives, and that
  an address once learned is the destination of the frames that are sent to it.

  What the driver behind \<open>netif->linkoutput\<close> has to keep is the locale \<open>arp_link\<close>.
\<close>

section \<open>Frames\<close>

lemma free_pbuf_frame: "free_pbuf p g = Some g' \<Longrightarrow> \<exists>h. g' = g\<lparr>pbufs := h\<rparr>"
  by (auto simp: free_pbuf_def on_pbufs_def bind_eq_Some_conv)

lemma free_etharp_q_frame: "free_etharp_q q g = Some g' \<Longrightarrow> \<exists>h. g' = g\<lparr>pbufs := h\<rparr>"
proof (induction q arbitrary: g)
  case Nil
  then have "g' = g\<lparr>pbufs := pbufs g\<rparr>" by (simp add: free_etharp_q_def)
  then show ?case by (rule exI [where x = "pbufs g"])
next
  case (Cons p q)
  then obtain g1 where "free_pbuf p g = Some g1" "free_etharp_q q g1 = Some g'"
    by (auto simp: free_etharp_q_def bind_eq_Some_conv)
  then show ?case using Cons.IH [of g1] free_pbuf_frame [of p g g1] by auto
qed

lemma upd_entry_iff: "upd_entry i f g = Some g' \<longleftrightarrow>
    i < length (arp_table g) \<and> g' = g\<lparr>arp_table := (arp_table g)[i := f (arp_table g ! i)]\<rparr>"
  by (auto simp: upd_entry_def peek_def)

definition arp_cleared :: "etharp_entry \<Rightarrow> etharp_entry" where
  "arp_cleared e = e\<lparr>arp_q := [], arp_state := ETHARP_STATE_EMPTY\<rparr>"

lemma free_entry_frame:
  "free_entry i g = Some g' \<Longrightarrow> i < length (arp_table g) \<and>
     (\<exists>h. g' = g\<lparr>pbufs := h, arp_table := (arp_table g)[i := arp_cleared (arp_table g ! i)]\<rparr>)"
proof -
  assume a: "free_entry i g = Some g'"
  then have i: "i < length (arp_table g)" by (auto simp: free_entry_def peek_def bind_eq_Some_conv split: if_splits)
  show ?thesis
  proof (cases "arp_q (arp_table g ! i) = []")
    case True
    then have "arp_cleared (arp_table g ! i) = (arp_table g ! i)\<lparr>arp_state := ETHARP_STATE_EMPTY\<rparr>"
      by (simp add: arp_cleared_def)
    with a i True have "g' = g\<lparr>pbufs := pbufs g, arp_table := (arp_table g)[i := arp_cleared (arp_table g ! i)]\<rparr>"
      by (simp add: free_entry_def peek_def upd_entry_iff)
    with i show ?thesis by blast
  next
    case False
    with a i obtain g1 where "free_etharp_q (arp_q (arp_table g ! i)) g = Some g1"
      and g1: "do { g \<leftarrow> upd_entry i (\<lambda>e. e\<lparr>arp_q := []\<rparr>) g1; upd_entry i (\<lambda>e. e\<lparr>arp_state := ETHARP_STATE_EMPTY\<rparr>) g } = Some g'"
      by (auto simp: free_entry_def peek_def bind_eq_Some_conv)
    then obtain h where "g1 = g\<lparr>pbufs := h\<rparr>" using free_etharp_q_frame by blast
    with g1 i show ?thesis by (auto simp: bind_eq_Some_conv upd_entry_iff arp_cleared_def)
  qed
qed

section \<open>The invariant of the cache\<close>

text \<open>Full size, no address twice, queues on pending entries only, no interface recorded.\<close>

definition arp_live :: "etharp_entry \<Rightarrow> bool" where
  "arp_live e \<longleftrightarrow> arp_state e \<noteq> ETHARP_STATE_EMPTY"

definition arp_ok :: "etharp_entry list \<Rightarrow> bool" where
  "arp_ok t \<longleftrightarrow> length t = ARP_TABLE_SIZE
     \<and> (\<forall>e \<in> set t. arp_netif e = None \<and> (arp_state e \<noteq> ETHARP_STATE_PENDING \<longrightarrow> arp_q e = []))
     \<and> distinct (map arp_ipaddr (filter arp_live t))"

definition arp_inv :: "'a net_scheme \<Rightarrow> bool" where
  "arp_inv g \<longleftrightarrow> arp_ok (arp_table g) \<and> unat (etharp_cached_entry g) < ARP_TABLE_SIZE"

lemma filter_update_dead: "i < length t \<Longrightarrow> \<not> P e \<Longrightarrow> filter P (t[i := e]) = filter P (take i t) @ filter P (drop (Suc i) t)"
  by (simp add: upd_conv_take_nth_drop)

lemma filter_split: "i < length t \<Longrightarrow> filter P t = filter P (take i t) @ filter P [t ! i] @ filter P (drop (Suc i) t)"
  by (metis append_Cons append_Nil filter_append id_take_nth_drop)

lemma filter_update_live: "i < length t \<Longrightarrow> P e \<Longrightarrow> filter P (t[i := e]) = filter P (take i t) @ e # filter P (drop (Suc i) t)"
  by (simp add: upd_conv_take_nth_drop)

lemma arp_ok_update_dead:
  assumes "arp_ok t" "i < length t" "\<not> arp_live e" "arp_netif e = None" "arp_q e = []"
  shows "arp_ok (t[i := e])"
  using assms filter_split [OF assms(2), of arp_live] filter_update_dead [of i t arp_live e]
  by (auto simp: arp_ok_def dest!: set_update_subset_insert [THEN subsetD])

lemma arp_ok_update_same:
  assumes "arp_ok t" "i < length t" "arp_live (t ! i)" "arp_ipaddr e = arp_ipaddr (t ! i)" "arp_live e" "arp_netif e = None"
    "arp_state e \<noteq> ETHARP_STATE_PENDING \<Longrightarrow> arp_q e = []"
  shows "arp_ok (t[i := e])"
proof -
  have "map arp_ipaddr (filter arp_live (t[i := e])) = map arp_ipaddr (filter arp_live t)"
    using assms filter_split [OF assms(2), of arp_live] filter_update_live [of i t arp_live e] by simp
  with assms show ?thesis by (auto simp: arp_ok_def dest!: set_update_subset_insert [THEN subsetD])
qed

lemma arp_ok_update_new:
  assumes "arp_ok t" "i < length t" "\<not> arp_live (t ! i)" "arp_live e" "arp_netif e = None"
    "arp_state e \<noteq> ETHARP_STATE_PENDING \<Longrightarrow> arp_q e = []"
    "\<forall>e' \<in> set t. arp_live e' \<longrightarrow> arp_ipaddr e' \<noteq> arp_ipaddr e"
  shows "arp_ok (t[i := e])"
proof -
  have "filter arp_live (t[i := e]) = filter arp_live (take i t) @ e # filter arp_live (drop (Suc i) t)"
    using assms filter_update_live [of i t arp_live e] by simp
  moreover have "filter arp_live t = filter arp_live (take i t) @ filter arp_live (drop (Suc i) t)"
    using assms filter_split [OF assms(2), of arp_live] by simp
  moreover have "arp_ipaddr e \<notin> arp_ipaddr ` set (filter arp_live t)" using assms(7) by auto
  ultimately have "distinct (map arp_ipaddr (filter arp_live (t[i := e])))"
    using assms(1) by (auto simp: arp_ok_def)
  with assms show ?thesis by (auto simp: arp_ok_def dest!: set_update_subset_insert [THEN subsetD])
qed

section \<open>Search\<close>

lemma scan_loop_Inl:
  "scan_loop ip t k sc = Inl i \<Longrightarrow> k \<le> i \<and> i < k + length t \<and> arp_live (t ! (i - k)) \<and> arp_ipaddr (t ! (i - k)) = ip"
proof (induction t arbitrary: k sc)
  case (Cons e t)
  then show ?case
    by (cases "arp_state e \<noteq> ETHARP_STATE_EMPTY \<and> ip = arp_ipaddr e") (fastforce simp: arp_live_def nth_Cons')+
qed simp

text \<open>The candidates are entries of the table seen so far, the empty one is empty.\<close>

definition scan_ok :: "etharp_entry list \<Rightarrow> nat \<Rightarrow> arp_scan \<Rightarrow> bool" where
  "scan_ok t k sc \<longleftrightarrow> sc_empty sc = ARP_TABLE_SIZE \<or> sc_empty sc < k \<and> \<not> arp_live (t ! sc_empty sc)"

lemma scan_entry_ok:
  "scan_ok t k sc \<Longrightarrow> k < ARP_TABLE_SIZE \<Longrightarrow> scan_ok t (Suc k) (scan_entry (t ! k) k sc)"
  by (auto simp: scan_ok_def scan_entry_def arp_live_def split: etharp_state.split)

lemma scan_loop_Inr:
  assumes "scan_loop ip (drop k t) k sc = Inr sc'" "scan_ok t k sc" "length t \<le> ARP_TABLE_SIZE" "k \<le> length t"
  shows "scan_ok t (length t) sc' \<and> (\<forall>e \<in> set (drop k t). arp_live e \<longrightarrow> arp_ipaddr e \<noteq> ip)"
  using assms
proof (induction "length t - k" arbitrary: k sc)
  case 0
  then show ?case by auto
next
  case (Suc n)
  then have k: "k < length t" by simp
  then have d: "drop k t = t ! k # drop (Suc k) t" by (simp add: Cons_nth_drop_Suc)
  have "scan_loop ip (drop (Suc k) t) (Suc k) (scan_entry (t ! k) k sc) = Inr sc'" "\<not> (arp_live (t ! k) \<and> arp_ipaddr (t ! k) = ip)"
    using Suc.prems(1) by (auto simp: d arp_live_def split: if_splits)
  moreover from this have "scan_ok t (length t) sc' \<and> (\<forall>e \<in> set (drop (Suc k) t). arp_live e \<longrightarrow> arp_ipaddr e \<noteq> ip)"
    using Suc.hyps(1) [of "Suc k" "scan_entry (t ! k) k sc"] Suc.hyps(2) Suc.prems k scan_entry_ok [of t k sc] by simp
  ultimately show ?case by (simp add: d)
qed

lemma recycle_less: "recycle sc = Some i \<Longrightarrow> i < ARP_TABLE_SIZE"
  by (auto simp: recycle_def split: if_splits)

text \<open>A new entry: empty, with the address, and no live entry has that address.\<close>

definition fresh_entry :: "u32 \<Rightarrow> nat \<Rightarrow> etharp_entry list \<Rightarrow> bool" where
  "fresh_entry ip i t \<longleftrightarrow> i < ARP_TABLE_SIZE \<and> \<not> arp_live (t ! i) \<and> arp_ipaddr (t ! i) = ip \<and> arp_q (t ! i) = []
     \<and> (\<forall>e \<in> set t. arp_live e \<longrightarrow> arp_ipaddr e \<noteq> ip)"

definition known_entry :: "u32 \<Rightarrow> nat \<Rightarrow> etharp_entry list \<Rightarrow> bool" where
  "known_entry ip i t \<longleftrightarrow> i < ARP_TABLE_SIZE \<and> arp_live (t ! i) \<and> arp_ipaddr (t ! i) = ip"

lemma new_entry_ok:
  assumes "arp_ok t" "i < ARP_TABLE_SIZE" "\<not> arp_live (t ! i)" "arp_q (t ! i) = []" "\<forall>e \<in> set t. arp_live e \<longrightarrow> arp_ipaddr e \<noteq> ip"
  shows "arp_ok (t[i := (t ! i)\<lparr>arp_ipaddr := ip, arp_ctime := 0\<rparr>]) \<and>
    fresh_entry ip i (t[i := (t ! i)\<lparr>arp_ipaddr := ip, arp_ctime := 0\<rparr>])"
proof -
  have i: "i < length t" using assms by (simp add: arp_ok_def)
  have n: "arp_netif (t ! i) = None" using assms(1) i by (simp add: arp_ok_def)
  let ?e = "(t ! i)\<lparr>arp_ipaddr := ip, arp_ctime := 0\<rparr>"
  have d: "\<not> arp_live ?e" using assms(3) by (simp add: arp_live_def)
  have "\<forall>e \<in> set (t[i := ?e]). arp_live e \<longrightarrow> arp_ipaddr e \<noteq> ip"
  proof
    fix e
    assume "e \<in> set (t[i := ?e])"
    then have "e \<in> insert ?e (set t)" by (rule set_update_subset_insert [THEN subsetD])
    then consider "e = ?e" | "e \<in> set t" by blast
    then show "arp_live e \<longrightarrow> arp_ipaddr e \<noteq> ip"
    proof cases
      case 1
      show ?thesis unfolding 1 using d by (rule notE [THEN impI])
    next
      case 2
      with assms(5) show ?thesis by simp
    qed
  qed
  then show ?thesis
    using assms i n d arp_ok_update_dead [OF assms(1) i, of ?e] by (simp add: fresh_entry_def)
qed

lemma find_entry_spec:
  assumes inv: "arp_ok (arp_table g)" and f: "find_entry ip flags g = Some (r, g')"
  shows "\<exists>h t. g' = g\<lparr>pbufs := h, arp_table := t\<rparr> \<and> arp_ok t \<and>
    (case r of None \<Rightarrow> t = arp_table g | Some i \<Rightarrow> known_entry ip i t \<and> t = arp_table g \<and> h = pbufs g \<or>
       fresh_entry ip i t \<and> (\<forall>e \<in> set (arp_table g). arp_live e \<longrightarrow> arp_ipaddr e \<noteq> ip) \<and> flags AND ETHARP_FLAG_FIND_ONLY = 0)"
proof (cases "scan_loop ip (arp_table g) 0 scan_init")
  case (Inl i)
  then have "g' = g\<lparr>pbufs := pbufs g, arp_table := arp_table g\<rparr>" "r = Some i" using f by (auto simp: find_entry_def)
  moreover have "known_entry ip i (arp_table g)"
    using scan_loop_Inl [OF Inl] inv by (simp add: known_entry_def arp_ok_def)
  ultimately show ?thesis using inv by (intro exI [where x = "pbufs g"] exI [where x = "arp_table g"]) simp
next
  case (Inr sc)
  have n: "length (arp_table g) = ARP_TABLE_SIZE" using inv by (simp add: arp_ok_def)
  have sc: "scan_ok (arp_table g) ARP_TABLE_SIZE sc" "\<forall>e \<in> set (arp_table g). arp_live e \<longrightarrow> arp_ipaddr e \<noteq> ip"
    using scan_loop_Inr [of ip 0 "arp_table g" scan_init sc] Inr n by (auto simp: scan_ok_def scan_init_def)
  have stay: ?thesis if "r = None" "g' = g"
    using that inv by (intro exI [where x = "pbufs g"] exI [where x = "arp_table g"]) simp
  show ?thesis
  proof (cases "flags AND ETHARP_FLAG_FIND_ONLY \<noteq> 0 \<or> sc_empty sc = ARP_TABLE_SIZE \<and> flags AND ETHARP_FLAG_TRY_HARD = 0")
    case True
    with f Inr stay show ?thesis by (simp add: find_entry_def)
  next
    case no: False
    show ?thesis
    proof (cases "sc_empty sc < ARP_TABLE_SIZE")
      case True
      let ?i = "sc_empty sc"
      let ?t = "(arp_table g)[?i := (arp_table g ! ?i)\<lparr>arp_ipaddr := ip, arp_ctime := 0\<rparr>]"
      from True f Inr no have r: "r = Some ?i" "g' = g\<lparr>arp_table := ?t\<rparr>"
        by (auto simp: find_entry_def new_entry_def bind_eq_Some_conv upd_entry_iff)
      have d: "\<not> arp_live (arp_table g ! ?i)" using sc(1) True by (simp add: scan_ok_def)
      have "arp_q (arp_table g ! ?i) = []" using inv True n d by (simp add: arp_ok_def arp_live_def)
      then have "arp_ok ?t \<and> fresh_entry ip ?i ?t" using new_entry_ok [OF inv True d _ sc(2)] by simp
      then show ?thesis using r sc(2) no by (intro exI [where x = "pbufs g"] exI [where x = ?t]) simp
    next
      case False
      show ?thesis
      proof (cases "recycle sc")
        case None
        with False f Inr no have "r = None \<and> g' = g" by (auto simp: find_entry_def)
        with stay show ?thesis by blast
      next
        case (Some i)
        with False f Inr no obtain g1 where g1: "free_entry i g = Some g1" "new_entry ip i g1 = Some (r, g')"
          by (auto simp: find_entry_def bind_eq_Some_conv)
        let ?c = "arp_cleared (arp_table g ! i)"
        let ?t = "(arp_table g)[i := ?c\<lparr>arp_ipaddr := ip, arp_ctime := 0\<rparr>]"
        obtain h where i: "i < ARP_TABLE_SIZE" and h: "g1 = g\<lparr>pbufs := h, arp_table := (arp_table g)[i := ?c]\<rparr>"
          using free_entry_frame [OF g1(1)] n by auto
        have c: "\<not> arp_live ?c" "arp_q ?c = []" "arp_netif ?c = None"
          using inv i n by (auto simp: arp_live_def arp_cleared_def arp_ok_def)
        have "arp_ok ((arp_table g)[i := ?c])" using arp_ok_update_dead [OF inv _ c(1,3,2)] i n by simp
        moreover have "\<forall>e \<in> set ((arp_table g)[i := ?c]). arp_live e \<longrightarrow> arp_ipaddr e \<noteq> ip"
          using sc(2) c(1) by (auto dest!: set_update_subset_insert [THEN subsetD])
        ultimately have "arp_ok ?t \<and> fresh_entry ip i ?t"
          using new_entry_ok [of "(arp_table g)[i := ?c]" i ip] i n c by simp
        moreover have "r = Some i" "g' = g\<lparr>pbufs := h, arp_table := ?t\<rparr>"
          using g1(2) i n by (auto simp: h new_entry_def bind_eq_Some_conv upd_entry_iff)
        ultimately show ?thesis using sc(2) no by (intro exI [where x = h] exI [where x = ?t]) simp
      qed
    qed
  qed
qed

section \<open>Operations on the cache\<close>

definition arp_keeps :: "'a net_scheme \<Rightarrow> 'a net_scheme \<Rightarrow> bool" where
  "arp_keeps g g' \<longleftrightarrow> arp_table g' = arp_table g \<and> etharp_cached_entry g' = etharp_cached_entry g \<and> netif_mem g' = netif_mem g"

lemma arp_keeps_refl [simp]: "arp_keeps g g"
  by (simp add: arp_keeps_def)

lemma arp_keeps_trans [trans]: "arp_keeps g g1 \<Longrightarrow> arp_keeps g1 g2 \<Longrightarrow> arp_keeps g g2"
  by (simp add: arp_keeps_def)

lemma arp_keeps_pbufs [simp]:
  "arp_keeps g (g'\<lparr>pbufs := h\<rparr>) = arp_keeps g g'" "arp_keeps (g\<lparr>pbufs := h\<rparr>) g' = arp_keeps g g'"
  by (simp_all add: arp_keeps_def)

lemma arp_inv_keeps: "arp_keeps g g' \<Longrightarrow> arp_inv g' = arp_inv g"
  by (simp add: arp_keeps_def arp_inv_def)

lemma free_pbuf_keeps: "free_pbuf p g = Some g' \<Longrightarrow> arp_keeps g g'"
  using free_pbuf_frame by fastforce

lemma on_pbufs_keeps: "on_pbufs f g = Some (r, g') \<Longrightarrow> arp_keeps g g'"
  by (auto simp: on_pbufs_def bind_eq_Some_conv)

lemma tmr_entry_inv: "arp_ok (arp_table g) \<Longrightarrow> tmr_entry i g = Some g' \<Longrightarrow>
    arp_ok (arp_table g') \<and> etharp_cached_entry g' = etharp_cached_entry g"
proof -
  assume ok: "arp_ok (arp_table g)" and t: "tmr_entry i g = Some g'"
  then have i: "i < length (arp_table g)" by (auto simp: tmr_entry_def peek_def bind_eq_Some_conv split: if_splits)
  let ?e = "arp_table g ! i"
  let ?e1 = "?e\<lparr>arp_ctime := arp_ctime ?e + 1\<rparr>"
  let ?g1 = "g\<lparr>arp_table := (arp_table g)[i := ?e1]\<rparr>"
  have e: "arp_netif ?e = None" "arp_state ?e \<noteq> ETHARP_STATE_PENDING \<Longrightarrow> arp_q ?e = []"
    using ok i by (auto simp: arp_ok_def)
  show ?thesis
  proof (cases "arp_live ?e")
    case False
    with t i ok show ?thesis by (simp add: tmr_entry_def peek_def arp_live_def)
  next
    case True
    have ok1: "arp_ok ((arp_table g)[i := ?e1])"
      by (rule arp_ok_update_same [OF ok i True]) (use True e in \<open>auto simp: arp_live_def\<close>)
    have "g' = ?g1 \<or> free_entry i ?g1 = Some g'"
      using t i True by (auto simp: tmr_entry_def peek_def upd_entry_def arp_live_def Let_def split: if_splits)
    then show ?thesis
    proof
      assume "g' = ?g1"
      with ok1 show ?thesis by simp
    next
      assume "free_entry i ?g1 = Some g'"
      from free_entry_frame [OF this] obtain h where
        g': "g' = ?g1\<lparr>pbufs := h, arp_table := (arp_table g)[i := arp_cleared ?e1]\<rparr>" using i by auto
      have "arp_ok ((arp_table g)[i := arp_cleared ?e1])"
        by (rule arp_ok_update_dead [OF ok i]) (simp_all add: arp_cleared_def arp_live_def e)
      with g' show ?thesis by simp
    qed
  qed
qed

lemma etharp_tmr_inv: "arp_inv g \<Longrightarrow> etharp_tmr g = Some g' \<Longrightarrow> arp_inv g'"
  unfolding etharp_tmr_def
  by (erule mfold_invariant [where I = arp_inv, rotated]) (use tmr_entry_inv in \<open>auto simp: arp_inv_def\<close>)

text \<open>No entry records its interface, so nothing is cleaned up.\<close>

lemma cleanup_entry_noop: "arp_inv g \<Longrightarrow> i < ARP_TABLE_SIZE \<Longrightarrow> cleanup_entry netif i g = Some g"
  by (auto simp: cleanup_entry_def peek_def arp_inv_def arp_ok_def)

lemma cleanup_noop: "arp_inv g \<Longrightarrow> \<forall>i \<in> set is. i < ARP_TABLE_SIZE \<Longrightarrow> mfold (cleanup_entry netif) is g = Some g"
  by (induction "is") (simp_all add: cleanup_entry_noop)

text \<open>What the function behind \<open>netif->linkoutput\<close> keeps.\<close>

locale arp_link =
  fixes env :: "('a net_scheme) arp_env"
  assumes link_keeps: "linkoutput_fn env f netif p g = Some (r, g') \<Longrightarrow> arp_keeps g g'"
begin

lemma send_ip_keeps: "etharp_send_ip env netif p src dst g = Some (r, g') \<Longrightarrow> arp_keeps g g'"
  by (auto simp: etharp_send_ip_def bind_eq_Some_conv dest!: link_keeps)

lemma send_queued_table:
  assumes "send_queued env netif mac i g = Some g'"
  shows "i < length (arp_table g) \<and> arp_table g' = (arp_table g)[i := (arp_table g ! i)\<lparr>arp_q := []\<rparr>] \<and>
    etharp_cached_entry g' = etharp_cached_entry g \<and> netif_mem g' = netif_mem g"
proof -
  have "env' = env \<longrightarrow> i < length (arp_table g) \<and> arp_table g' = (arp_table g)[i := (arp_table g ! i)\<lparr>arp_q := []\<rparr>] \<and>
    etharp_cached_entry g' = etharp_cached_entry g \<and> netif_mem g' = netif_mem g" if "send_queued env' netif mac i g = Some g'" for env'
    using that
  proof (induction rule: send_queued.raw_induct [rotated, consumes 1, case_names loop])
    case step: (loop rec env' netif mac i g g')
    show ?case
    proof (intro impI)
      assume e: "env' = env"
      from step(2) have i: "i < length (arp_table g)" by (auto simp: peek_def bind_eq_Some_conv split: if_splits)
      show "i < length (arp_table g) \<and> arp_table g' = (arp_table g)[i := (arp_table g ! i)\<lparr>arp_q := []\<rparr>] \<and>
        etharp_cached_entry g' = etharp_cached_entry g \<and> netif_mem g' = netif_mem g"
      proof (cases "arp_q (arp_table g ! i)")
        case Nil
        then have "(arp_table g ! i)\<lparr>arp_q := []\<rparr> = arp_table g ! i" by simp
        then have "(arp_table g)[i := (arp_table g ! i)\<lparr>arp_q := []\<rparr>] = arp_table g" by (simp only: list_update_id)
        moreover have "g' = g" using Nil step(2) i by (simp add: peek_def)
        ultimately show ?thesis using i by metis
      next
        case (Cons p ps)
        let ?g1 = "g\<lparr>arp_table := (arp_table g)[i := (arp_table g ! i)\<lparr>arp_q := ps\<rparr>]\<rparr>"
        from step(2) i Cons e obtain ni :: netif and r g2 g3 where
          "etharp_send_ip env netif p (ni_hwaddr ni) mac ?g1 = Some (r, g2)" "free_pbuf p g2 = Some g3"
          "rec env netif mac i g3 = Some g'"
          by (auto simp: peek_def upd_entry_def bind_eq_Some_conv)
        moreover from this have "arp_keeps ?g1 g3"
          using send_ip_keeps free_pbuf_keeps arp_keeps_trans by blast
        ultimately show ?thesis using step(1) i by (auto simp: arp_keeps_def)
      qed
    qed
  qed
  with assms show ?thesis by blast
qed

lemma update_arp_entry_inv:
  assumes inv: "arp_inv g" and u: "update_arp_entry env netif ip mac flags g = Some (r, g')"
  shows "arp_inv g' \<and> netif_mem g' = netif_mem g \<and>
    (r = ERR_OK \<longrightarrow> (\<exists>i < ARP_TABLE_SIZE. arp_ipaddr (arp_table g' ! i) = ip \<and> arp_ethaddr (arp_table g' ! i) = mac \<and>
       arp_state (arp_table g' ! i) = ETHARP_STATE_STABLE))"
proof -
  obtain ni where ni: "netif_mem g netif = Some ni" using u by (auto simp: update_arp_entry_def bind_eq_Some_conv)
  show ?thesis
  proof (cases "non_unicast ip ni")
    case True
    with u ni inv show ?thesis by (simp add: update_arp_entry_def)
  next
    case False
    with u ni obtain ri g1 where f: "find_entry ip flags g = Some (ri, g1)"
      by (auto simp: update_arp_entry_def bind_eq_Some_conv)
    obtain h t where g1: "g1 = g\<lparr>pbufs := h, arp_table := t\<rparr>" and ok: "arp_ok t"
      and ri: "case ri of None \<Rightarrow> t = arp_table g | Some i \<Rightarrow> known_entry ip i t \<and> t = arp_table g \<and> h = pbufs g \<or>
         fresh_entry ip i t \<and> (\<forall>e \<in> set (arp_table g). arp_live e \<longrightarrow> arp_ipaddr e \<noteq> ip) \<and> flags AND ETHARP_FLAG_FIND_ONLY = 0"
      using find_entry_spec [OF _ f] inv unfolding arp_inv_def by blast
    show ?thesis
    proof (cases ri)
      case None
      with u ni False f g1 ri inv show ?thesis by (auto simp: update_arp_entry_def arp_inv_def)
    next
      case (Some i)
      let ?e = "(t ! i)\<lparr>arp_state := ETHARP_STATE_STABLE, arp_ethaddr := mac, arp_ctime := 0\<rparr>"
      have it: "i < ARP_TABLE_SIZE" "arp_ipaddr (t ! i) = ip" using ri Some by (auto simp: known_entry_def fresh_entry_def)
      have n: "length t = ARP_TABLE_SIZE" "arp_netif (t ! i) = None" using ok it by (auto simp: arp_ok_def)
      from u ni False f g1 Some it n have q: "send_queued env netif mac i (g1\<lparr>arp_table := t[i := ?e]\<rparr>) = Some g'" "r = ERR_OK"
        by (auto simp: update_arp_entry_def bind_eq_Some_conv upd_entry_iff)
      have t': "arp_table g' = t[i := ?e\<lparr>arp_q := []\<rparr>]" "etharp_cached_entry g' = etharp_cached_entry g" "netif_mem g' = netif_mem g"
        using send_queued_table [OF q(1)] it n g1 by simp_all
      have "arp_ok (t[i := ?e\<lparr>arp_q := []\<rparr>])"
      proof (cases "arp_live (t ! i)")
        case True
        then show ?thesis using ok it n by (intro arp_ok_update_same) (simp_all add: arp_live_def)
      next
        case False
        then have "\<forall>e \<in> set t. arp_live e \<longrightarrow> arp_ipaddr e \<noteq> ip" using ri Some by (auto simp: known_entry_def fresh_entry_def)
        with False show ?thesis using ok it n by (intro arp_ok_update_new) (simp_all add: arp_live_def)
      qed
      then show ?thesis using t' q(2) inv it n by (auto simp: arp_inv_def)
    qed
  qed
qed

end

lemma arp_inv_update_pending:
  assumes inv: "arp_ok t" and i: "fresh_entry ip i t \<or> known_entry ip i t"
  shows "arp_ok (t[i := if arp_state (t ! i) = ETHARP_STATE_EMPTY then (t ! i)\<lparr>arp_state := ETHARP_STATE_PENDING\<rparr> else t ! i])"
proof (cases "arp_live (t ! i)")
  case True
  then have "(if arp_state (t ! i) = ETHARP_STATE_EMPTY then (t ! i)\<lparr>arp_state := ETHARP_STATE_PENDING\<rparr> else t ! i) = t ! i"
    by (simp add: arp_live_def)
  then show ?thesis using inv by (simp only: list_update_id)
next
  case False
  then have f: "fresh_entry ip i t" "arp_state (t ! i) = ETHARP_STATE_EMPTY" using i by (auto simp: known_entry_def arp_live_def)
  then have "i < length t" "arp_netif (t ! i) = None" using inv by (auto simp: arp_ok_def fresh_entry_def)
  with f False inv show ?thesis
    by (simp, intro arp_ok_update_new) (auto simp: fresh_entry_def arp_live_def)
qed

lemma queue_packet_inv:
  assumes inv: "arp_inv g" and i: "i < ARP_TABLE_SIZE" "arp_state (arp_table g ! i) = ETHARP_STATE_PENDING"
    and q: "queue_packet env i p g = Some (r, g')"
  shows "arp_inv g'"
proof -
  obtain rp g1 where a: "on_pbufs (queue_copy (arp_malloc env) p) g = Some (rp, g1)"
    using q by (auto simp: queue_packet_def bind_eq_Some_conv)
  have k: "arp_table g1 = arp_table g" "etharp_cached_entry g1 = etharp_cached_entry g" "arp_inv g1"
    using on_pbufs_keeps [OF a] inv arp_inv_keeps [of g g1] by (simp_all add: arp_keeps_def)
  show ?thesis
  proof (cases rp)
    case None
    with a q k show ?thesis by (auto simp: queue_packet_def)
  next
    case (Some p')
    let ?e = "(arp_table g ! i)\<lparr>arp_q := arp_q (arp_table g ! i) @ [p']\<rparr>"
    have ok: "arp_ok (arp_table g)" "i < length (arp_table g)" using inv i by (auto simp: arp_inv_def arp_ok_def)
    have "arp_ok ((arp_table g)[i := ?e])"
      by (rule arp_ok_update_same [OF ok]) (use i ok in \<open>auto simp: arp_live_def arp_ok_def\<close>)
    moreover have "arp_inv g2" if "free_pbuf p' g1 = Some g2" for g2
      using free_pbuf_keeps [OF that] k arp_inv_keeps by blast
    ultimately show ?thesis
      using a q Some k inv by (auto simp: queue_packet_def bind_eq_Some_conv upd_entry_iff arp_inv_def split: if_splits)
  qed
qed

context arp_link
begin

lemma etharp_raw_keeps: "etharp_raw env netif a b c d e f opc g = Some (r, g') \<Longrightarrow> arp_keeps g g'"
  by (auto simp: etharp_raw_def bind_eq_Some_conv split: option.splits
      dest!: on_pbufs_keeps link_keeps free_pbuf_keeps elim!: arp_keeps_trans)

lemma etharp_request_keeps: "etharp_request env netif ip g = Some (r, g') \<Longrightarrow> arp_keeps g g'"
  by (auto simp: etharp_request_def bind_eq_Some_conv dest!: etharp_raw_keeps)

lemma query_send_inv:
  assumes inv: "arp_inv g" and i: "i < ARP_TABLE_SIZE" and q: "query_send env netif m i p res g = Some (r, g')"
  shows "arp_inv g'"
proof -
  have n: "length (arp_table g) = ARP_TABLE_SIZE" using inv by (simp add: arp_inv_def arp_ok_def)
  have "arp_inv (g\<lparr>etharp_cached_entry := of_nat i\<rparr>)"
    using inv i by (simp add: arp_inv_def ARP_TABLE_SIZE_def unat_of_nat)
  then have "arp_inv g'" if "etharp_send_ip env netif p m m' (g\<lparr>etharp_cached_entry := of_nat i\<rparr>) = Some (r, g')" for m'
    using send_ip_keeps [OF that] arp_inv_keeps by blast
  moreover have "arp_inv g'" if "arp_state (arp_table g ! i) = ETHARP_STATE_PENDING" "queue_packet env i p g = Some (r, g')"
    using queue_packet_inv [OF inv i that] .
  ultimately show ?thesis using q inv i n by (auto simp: query_send_def peek_def split: etharp_state.splits)
qed

lemma query_entry_inv:
  assumes inv: "arp_inv g" and i: "fresh_entry ip i (arp_table g) \<or> known_entry ip i (arp_table g)"
    and q: "query_entry env netif m ip q i g = Some (r, g')"
  shows "arp_inv g'"
proof -
  let ?t = "arp_table g"
  let ?e = "if arp_state (?t ! i) = ETHARP_STATE_EMPTY then (?t ! i)\<lparr>arp_state := ETHARP_STATE_PENDING\<rparr> else ?t ! i"
  let ?g1 = "g\<lparr>arp_table := ?t[i := ?e]\<rparr>"
  have i': "i < ARP_TABLE_SIZE" using i by (auto simp: fresh_entry_def known_entry_def)
  have inv1: "arp_inv ?g1" using arp_inv_update_pending [OF _ i] inv by (simp add: arp_inv_def)
  obtain res g2 where "(if arp_state ?e = ETHARP_STATE_PENDING \<or> q = None then etharp_request env netif ip ?g1
      else Some (ERR_MEM, ?g1)) = Some (res, g2)"
    and fin: "(case q of None \<Rightarrow> Some (res, g2) | Some q \<Rightarrow> query_send env netif m i q res g2) = Some (r, g')"
    using q i' inv by (auto simp: query_entry_def upd_entry_def peek_def arp_inv_def arp_ok_def bind_eq_Some_conv simp del: list_update_id)
  then have "arp_keeps ?g1 g2" using etharp_request_keeps by (auto split: if_splits)
  then have "arp_inv g2" using inv1 arp_inv_keeps by blast
  then show ?thesis using fin query_send_inv i' by (auto split: option.splits)
qed

lemma etharp_query_inv:
  assumes inv: "arp_inv g" and u: "etharp_query env netif ip q g = Some (r, g')"
  shows "arp_inv g'"
proof -
  obtain ni where ni: "netif_mem g netif = Some ni" using u by (auto simp: etharp_query_def bind_eq_Some_conv)
  show ?thesis
  proof (cases "non_unicast ip ni")
    case True
    with u ni inv show ?thesis by (simp add: etharp_query_def)
  next
    case False
    with u ni obtain ri g1 where f: "find_entry ip ETHARP_FLAG_TRY_HARD g = Some (ri, g1)"
      by (auto simp: etharp_query_def bind_eq_Some_conv)
    obtain h t where "g1 = g\<lparr>pbufs := h, arp_table := t\<rparr>" "arp_ok t"
      and ri: "\<And>i. ri = Some i \<Longrightarrow> fresh_entry ip i t \<or> known_entry ip i t"
      using find_entry_spec [OF _ f] inv unfolding arp_inv_def by (fastforce split: option.splits)
    then have "arp_inv g1" "arp_table g1 = t" using inv by (simp_all add: arp_inv_def)
    with u ni False f ri show ?thesis
      using query_entry_inv by (auto simp: etharp_query_def split: option.splits)
  qed
qed

lemma etharp_output_inv:
  assumes inv: "arp_inv g" and o: "etharp_output env netif q ip g = Some (r, g')"
  shows "arp_inv g'"
proof -
  obtain st g1 where h: "on_pbufs (pbuf_header (Some q) (int SIZEOF_ETH_HDR)) g = Some (st, g1)"
    using o by (auto simp: etharp_output_def bind_eq_Some_conv)
  have inv1: "arp_inv g1" using arp_inv_keeps [OF on_pbufs_keeps [OF h]] inv by simp
  have s: "arp_inv g'" if "etharp_send_ip env netif q m m' g1 = Some (r, g')" for m m'
    using send_ip_keeps [OF that] arp_inv_keeps inv1 by blast
  have "g' = g1 \<or> (\<exists>m m'. etharp_send_ip env netif q m m' g1 = Some (r, g')) \<or> (\<exists>ip. etharp_query env netif ip (Some q) g1 = Some (r, g'))"
    using o h by (auto simp: etharp_output_def bind_eq_Some_conv split: if_splits option.splits)
  then show ?thesis using inv1 s etharp_query_inv by blast
qed

lemma etharp_ip_input_inv:
  assumes "arp_inv g" "etharp_ip_input env netif p g = Some g'"
  shows "arp_inv g'"
  using assms by (auto simp: etharp_ip_input_def bind_eq_Some_conv split: if_splits dest: update_arp_entry_inv)

lemma arp_act_inv:
  assumes dhcp: "\<And>a g g'. arp_inv g \<Longrightarrow> dhcp_arp_reply env netif a g = Some g' \<Longrightarrow> arp_inv g'"
    and inv: "arp_inv g" and a: "arp_act env netif mac p for_us sip g = Some g'"
  shows "arp_inv g'"
proof -
  have li: "arp_inv g'" if "linkoutput_fn env f netif p (g\<lparr>pbufs := h\<rparr>) = Some (r, g')" for f h r
    using link_keeps [OF that] arp_inv_keeps [of g g'] inv by simp
  have "g' = g \<or> (\<exists>f h r. linkoutput_fn env f netif p (g\<lparr>pbufs := h\<rparr>) = Some (r, g')) \<or> dhcp_arp_reply env netif sip g = Some g'"
    using a unfolding arp_act_def Let_def by (fastforce simp: bind_eq_Some_conv split: if_splits)
  then show ?thesis using li inv dhcp [OF inv] by blast
qed

lemma etharp_arp_input_inv:
  assumes dhcp: "\<And>a g g'. arp_inv g \<Longrightarrow> dhcp_arp_reply env netif a g = Some g' \<Longrightarrow> arp_inv g'"
    and inv: "arp_inv g" and a: "etharp_arp_input env netif mac p g = Some g'"
  shows "arp_inv g'"
proof -
  have fr: "arp_inv g2" if "free_pbuf p g1 = Some g2" "arp_inv g1" for g1 g2
    using free_pbuf_keeps [OF that(1)] arp_inv_keeps that(2) by blast
  have "free_pbuf p g = Some g' \<or> (\<exists>ip m fl r g1 fu g2. update_arp_entry env netif ip m fl g = Some (r, g1) \<and>
      arp_act env netif mac p fu ip g1 = Some g2 \<and> free_pbuf p g2 = Some g')"
    using a by (auto simp: etharp_arp_input_def Let_def bind_eq_Some_conv split: if_splits)
  moreover have "arp_inv g2" if "arp_inv g1" "arp_act env netif mac p fu ip g1 = Some g2" for fu ip g1 g2
    using arp_act_inv [of netif g1 mac p fu ip g2] dhcp that by blast
  ultimately show ?thesis using fr inv update_arp_entry_inv by blast
qed

end

section \<open>Frames to a known address\<close>

lemma arp_unique:
  assumes ok: "arp_ok t" and i: "known_entry ip i t" and j: "known_entry ip j t"
  shows "i = j"
proof (rule ccontr)
  assume "i \<noteq> j"
  have *: False if "known_entry ip a t" "known_entry ip b t" "a < b" for a b
  proof -
    have l: "a < length t" "b < length t" using that ok by (auto simp: known_entry_def arp_ok_def)
    have "t ! b \<in> set (drop (Suc a) t)"
      using l \<open>a < b\<close> by (metis in_set_conv_nth Suc_leI add_diff_inverse_nat diff_less_mono length_drop not_less nth_drop)
    then have "ip \<in> arp_ipaddr ` set (filter arp_live (drop (Suc a) t))" using that(2) by (auto simp: known_entry_def)
    moreover have "filter arp_live [t ! a] = [t ! a]" "arp_ipaddr (t ! a) = ip" using that(1) by (auto simp: known_entry_def)
    ultimately show False
      using ok filter_split [OF l(1), of arp_live] by (auto simp: arp_ok_def)
  qed
  show False using * [OF i j] * [OF j i] \<open>i \<noteq> j\<close> by linarith
qed

lemma find_known:
  assumes ok: "arp_ok (arp_table g)" and i: "known_entry ip i (arp_table g)"
  shows "find_entry ip flags g = Some (Some i, g)"
proof (cases "scan_loop ip (arp_table g) 0 scan_init")
  case (Inl j)
  then have "known_entry ip j (arp_table g)" using scan_loop_Inl [OF Inl] ok by (simp add: known_entry_def arp_ok_def)
  then have "j = i" using arp_unique [OF ok _ i] by blast
  with Inl show ?thesis by (simp add: find_entry_def)
next
  case (Inr sc)
  then have "\<forall>e \<in> set (arp_table g). arp_live e \<longrightarrow> arp_ipaddr e \<noteq> ip"
    using scan_loop_Inr [of ip 0 "arp_table g" scan_init sc] ok by (auto simp: scan_ok_def scan_init_def arp_ok_def)
  with i ok show ?thesis by (auto simp: known_entry_def arp_ok_def)
qed

text \<open>A stable entry decides where a packet goes, with or without the hint of the last one.\<close>

lemma etharp_output_stable:
  assumes inv: "arp_inv g" and i: "known_entry ip i (arp_table g)" "arp_state (arp_table g ! i) = ETHARP_STATE_STABLE"
    and ni: "netif_mem g netif = Some ni" "\<not> non_unicast ip ni" "next_hop ni dst = Some ip" "\<not> ip4_addr_isbroadcast dst ni"
      "\<not> ip_addr_ismulticast dst"
    and h: "pbuf_header (Some q) (int SIZEOF_ETH_HDR) (pbufs g) = Some (0, h1)"
  shows "\<exists>c. etharp_output env netif q dst g =
    etharp_send_ip env netif q (ni_hwaddr ni) (arp_ethaddr (arp_table g ! i)) (g\<lparr>pbufs := h1, etharp_cached_entry := c\<rparr>)"
proof -
  let ?c = "unat (etharp_cached_entry g)"
  let ?g1 = "g\<lparr>pbufs := h1\<rparr>"
  have ok: "arp_ok (arp_table g)" "?c < length (arp_table g)" "i < length (arp_table g)"
    using inv i(1) by (auto simp: arp_inv_def arp_ok_def known_entry_def)
  have o: "etharp_output env netif q dst g =
      (if arp_state (arp_table g ! ?c) = ETHARP_STATE_STABLE \<and> ip = arp_ipaddr (arp_table g ! ?c)
       then etharp_send_ip env netif q (ni_hwaddr ni) (arp_ethaddr (arp_table g ! ?c)) ?g1
       else etharp_query env netif ip (Some q) ?g1)"
    using ni h ok by (simp add: etharp_output_def on_pbufs_def peek_def)
  show ?thesis
  proof (cases "arp_state (arp_table g ! ?c) = ETHARP_STATE_STABLE \<and> ip = arp_ipaddr (arp_table g ! ?c)")
    case True
    then have "known_entry ip ?c (arp_table g)" using ok inv by (simp add: known_entry_def arp_live_def arp_inv_def)
    then have "?c = i" using arp_unique [OF ok(1) _ i(1)] by blast
    moreover have "?g1 = ?g1\<lparr>etharp_cached_entry := etharp_cached_entry g\<rparr>" by simp
    ultimately show ?thesis using o True by metis
  next
    case False
    have f: "find_entry ip ETHARP_FLAG_TRY_HARD ?g1 = Some (Some i, ?g1)" using find_known [of ?g1] ok(1) i(1) by simp
    have "upd_entry i (\<lambda>e. if arp_state e = ETHARP_STATE_EMPTY then e\<lparr>arp_state := ETHARP_STATE_PENDING\<rparr> else e) ?g1 = Some ?g1"
      using ok(3) i(2) by (simp add: upd_entry_iff)
    then have "query_entry env netif (ni_hwaddr ni) ip (Some q) i ?g1 =
        etharp_send_ip env netif q (ni_hwaddr ni) (arp_ethaddr (arp_table g ! i)) (?g1\<lparr>etharp_cached_entry := of_nat i\<rparr>)"
      using ok(3) i(2) by (simp add: query_entry_def query_send_def peek_def)
    then have "etharp_query env netif ip (Some q) ?g1 =
        etharp_send_ip env netif q (ni_hwaddr ni) (arp_ethaddr (arp_table g ! i)) (?g1\<lparr>etharp_cached_entry := of_nat i\<rparr>)"
      using f ni by (simp add: etharp_query_def)
    then show ?thesis using o False by (auto intro: exI [where x = "of_nat i"])
  qed
qed

lemma length_eth_hdr: "length (eth_hdr_bytes h) = length (eth_dest h) + length (eth_src h) + 2"
  by (simp add: eth_hdr_bytes_def mem16_def)

text \<open>C35: An address that was learned is used: when \<open>update_arp_entry\<close> has accepted a pair of IP and Ethernet address
  (from an ARP message or an IP packet), a packet for that IP address, or for a destination behind it when it is the
  gateway, goes out at once as one Ethernet frame with that destination address, the interface's source address, type 0x0800 and the packet
  unchanged behind the header, provided there is room for the header.\<close>

theorem etharp_learned_address:
  assumes link: "arp_link env" and inv: "arp_inv g" and u: "update_arp_entry env netif ip mac flags g = Some (ERR_OK, g1)"
    and ni: "netif_mem g netif = Some ni" "next_hop ni dst = Some ip" "\<not> ip4_addr_isbroadcast dst ni" "\<not> ip_addr_ismulticast dst"
    and mac: "length mac = 6" "length (ni_hwaddr ni) = 6"
    and q: "packet (pbufs g1) (Some q) (q # qs)" "pbufs g1 q = Some b" "pb_type b = PBUF_RAM \<or> pb_type b = PBUF_POOL"
      "pb_payload b = Some pos" "14 \<le> pos" "length (chain_data (pbufs g1) (q # qs)) + 14 < 65536"
  shows "\<exists>h c. etharp_output env netif q dst g1 =
      linkoutput_fn env (ni_linkoutput ni) netif q (g1\<lparr>etharp_cached_entry := c, pbufs := h\<rparr>) \<and>
    packet h (Some q) (q # qs) \<and>
    chain_data h (q # qs) = mac @ ni_hwaddr ni @ [0x08, 0x00] @ chain_data (pbufs g1) (q # qs) \<and>
    (\<forall>x. x \<noteq> q \<longrightarrow> h x = pbufs g1 x)"
proof -
  obtain i where i: "i < ARP_TABLE_SIZE" "arp_ipaddr (arp_table g1 ! i) = ip" "arp_ethaddr (arp_table g1 ! i) = mac"
    "arp_state (arp_table g1 ! i) = ETHARP_STATE_STABLE" and inv1: "arp_inv g1" "netif_mem g1 netif = Some ni"
    using arp_link.update_arp_entry_inv [OF link inv u] ni by auto
  have nu: "\<not> non_unicast ip ni" using u ni(1) by (auto simp: update_arp_entry_def)
  have k: "known_entry ip i (arp_table g1)" using i by (simp add: known_entry_def arp_live_def)
  define hb where "hb = eth_hdr_bytes \<lparr>eth_dest = mac, eth_src = ni_hwaddr ni, eth_type = htons ETHTYPE_IP\<rparr>"
  have hb: "hb \<noteq> []" "length hb = 14" "hb = mac @ ni_hwaddr ni @ [0x08, 0x00]"
    using mac by (auto simp: hb_def length_eth_hdr eth_hdr_bytes_def mem16_def htons_def LWIP_PLATFORM_HTONS_def ETHTYPE_IP_def lo8_def hi8_def)
  have "int (length hb) \<le> pos" "length (chain_data (pbufs g1) (q # qs)) + length hb < 65536" unfolding hb(2) using q(5,6) by auto
  from packet_prepend [OF q(1-4) hb(1) this] obtain h1 b1 b2 where h1: "pbuf_header (Some q) (int (length hb)) (pbufs g1) = Some (0, h1)"
    "h1 q = Some b1" "pb_write b1 0 hb = Some b2" "packet (h1(q \<mapsto> b2)) (Some q) (q # qs)"
    "chain_data (h1(q \<mapsto> b2)) (q # qs) = hb @ chain_data (pbufs g1) (q # qs)" "\<forall>x. x \<noteq> q \<longrightarrow> h1 x = pbufs g1 x"
    by blast
  have "pbuf_header (Some q) (int SIZEOF_ETH_HDR) (pbufs g1) = Some (0, h1)" using h1(1) unfolding hb(2) by (simp add: SIZEOF_ETH_HDR_def)
  from etharp_output_stable [OF inv1(1) k i(4) inv1(2) nu ni(2-4) this, of env] obtain c where
    c: "etharp_output env netif q dst g1 = etharp_send_ip env netif q (ni_hwaddr ni) mac (g1\<lparr>pbufs := h1, etharp_cached_entry := c\<rparr>)"
    unfolding i(3) by blast
  have "etharp_output env netif q dst g1 =
      linkoutput_fn env (ni_linkoutput ni) netif q (g1\<lparr>etharp_cached_entry := c, pbufs := h1(q \<mapsto> b2)\<rparr>)"
    unfolding c using h1(2,3) inv1(2) by (simp add: etharp_send_ip_def hb_def)
  then show ?thesis
    using h1(4-6) hb(3) by (intro exI [of _ "h1(q \<mapsto> b2)"] exI [of _ c]) simp
qed


text \<open>A driver that takes every frame, and a station that learns the address of its neighbour.\<close>

definition demo_arp_env :: "net arp_env" where
  "demo_arp_env = \<lparr>linkoutput_fn = (\<lambda>f netif p g. Some (ERR_OK, g)), arp_malloc = demo_malloc, arp_queue_malloc = (\<lambda>g. True),
     dhcp_arp_reply = (\<lambda>netif a g. Some g)\<rparr>"

definition demo_mac :: bytes where "demo_mac = [2, 0, 0, 0, 0, 9]"

lemma demo_arp_link: "arp_link demo_arp_env"
  by unfold_locales (auto simp: demo_arp_env_def)

lemma arp_ok_zero: "arp_ok (replicate ARP_TABLE_SIZE arp_empty)"
  by (simp add: arp_ok_def arp_empty_def arp_live_def)

lemma demo_arp_inv: "arp_inv demo_net"
  by (simp add: arp_inv_def demo_net_def net_zero_def arp_ok_zero) (simp add: ARP_TABLE_SIZE_def)

lemma demo_address:
  "\<not> non_unicast (IP4_ADDR 192 168 4 2) demo_netif" "next_hop demo_netif (IP4_ADDR 192 168 4 2) = Some (IP4_ADDR 192 168 4 2)"
  "\<not> ip4_addr_isbroadcast (IP4_ADDR 192 168 4 2) demo_netif" "\<not> ip_addr_ismulticast (IP4_ADDR 192 168 4 2)"
  by code_simp+

lemma demo_learns:
  "update_arp_entry demo_arp_env 5 (IP4_ADDR 192 168 4 2) demo_mac ETHARP_FLAG_TRY_HARD demo_net =
   Some (ERR_OK, demo_net\<lparr>arp_table := (arp_table demo_net)[0 := \<lparr>arp_q = [], arp_ipaddr = IP4_ADDR 192 168 4 2,
     arp_ethaddr = demo_mac, arp_netif = None, arp_state = ETHARP_STATE_STABLE, arp_ctime = 0\<rparr>]\<rparr>)"
proof -
  have n: "netif_mem demo_net 5 = Some demo_netif" "arp_table demo_net = replicate 10 arp_empty"
    by (simp_all add: demo_net_def net_zero_def ARP_TABLE_SIZE_def)
  have "find_entry (IP4_ADDR 192 168 4 2) ETHARP_FLAG_TRY_HARD demo_net =
     Some (Some 0, demo_net\<lparr>arp_table := (arp_table demo_net)[0 := arp_empty\<lparr>arp_ipaddr := IP4_ADDR 192 168 4 2, arp_ctime := 0\<rparr>]\<rparr>)"
    by (simp add: find_entry_def n scan_init_def scan_entry_def arp_empty_def ARP_TABLE_SIZE_def numeral_eq_Suc
        ETHARP_FLAG_TRY_HARD_def ETHARP_FLAG_FIND_ONLY_def new_entry_def upd_entry_def peek_def)
  then show ?thesis
    by (simp add: update_arp_entry_def n demo_address upd_entry_def peek_def, subst send_queued.simps)
      (simp add: peek_def n arp_empty_def)
qed

theorem etharp_learned_address_witness:
  "\<exists>g1 h c. update_arp_entry demo_arp_env 5 (IP4_ADDR 192 168 4 2) demo_mac ETHARP_FLAG_TRY_HARD demo_net = Some (ERR_OK, g1) \<and>
     etharp_output demo_arp_env 5 7 (IP4_ADDR 192 168 4 2) g1 = Some (ERR_OK, g1\<lparr>etharp_cached_entry := c, pbufs := h\<rparr>) \<and>
     chain_data h [7] = [2, 0, 0, 0, 0, 9, 2, 0, 0, 0, 0, 1, 8, 0, 97, 98]"
proof -
  obtain g1 where g1: "update_arp_entry demo_arp_env 5 (IP4_ADDR 192 168 4 2) demo_mac ETHARP_FLAG_TRY_HARD demo_net = Some (ERR_OK, g1)"
    "pbufs g1 = pbufs demo_net" using demo_learns by auto
  have f: "netif_mem demo_net 5 = Some demo_netif" "length demo_mac = 6" "length (ni_hwaddr demo_netif) = 6"
    by (simp_all add: demo_net_def net_zero_def demo_netif_def demo_mac_def)
  obtain b where b: "pbufs demo_net 7 = Some b" "pb_type b = PBUF_RAM \<or> pb_type b = PBUF_POOL" "pb_payload b = Some 20"
    by (simp add: demo_net_def net_zero_def)
  have "\<exists>h c. etharp_output demo_arp_env 5 7 (IP4_ADDR 192 168 4 2) g1 =
      linkoutput_fn demo_arp_env (ni_linkoutput demo_netif) 5 7 (g1\<lparr>etharp_cached_entry := c, pbufs := h\<rparr>) \<and>
      packet h (Some 7) [7] \<and> chain_data h [7] = demo_mac @ ni_hwaddr demo_netif @ [0x08, 0x00] @ chain_data (pbufs g1) [7] \<and>
      (\<forall>x. x \<noteq> 7 \<longrightarrow> h x = pbufs g1 x)"
    using demo_net_packet b(1)
    by (intro etharp_learned_address [OF demo_arp_link demo_arp_inv g1(1) f(1) demo_address(2-4) f(2,3) _ _ b(2,3)])
      (simp_all only: g1(2), simp_all del: chain_data_simps)
  with g1 show ?thesis
    by (auto simp: demo_net_packet demo_arp_env_def demo_mac_def demo_netif_def simp del: chain_data_simps)
qed

section \<open>The cache over time\<close>

text \<open>Any sequence of the module's operations, between them whatever leaves the cache alone.\<close>

inductive arp_step :: "('a net_scheme) arp_env \<Rightarrow> 'a net_scheme \<Rightarrow> 'a net_scheme \<Rightarrow> bool" for env where
  send: "etharp_output env netif q ip g = Some (r, g') \<Longrightarrow> arp_step env g g'"
| ask: "etharp_query env netif ip q g = Some (r, g') \<Longrightarrow> arp_step env g g'"
| snoop: "etharp_ip_input env netif p g = Some g' \<Longrightarrow> arp_step env g g'"
| arp_message: "etharp_arp_input env netif mac p g = Some g' \<Longrightarrow> arp_step env g g'"
| learn: "update_arp_entry env netif ip mac flags g = Some (r, g') \<Longrightarrow> arp_step env g g'"
| tick: "etharp_tmr g = Some g' \<Longrightarrow> arp_step env g g'"
| other: "arp_keeps g g' \<Longrightarrow> arp_step env g g'"

inductive_cases arp_stepE: "arp_step env g g'"

definition dhcp_keeps :: "('a net_scheme) arp_env \<Rightarrow> bool" where
  "dhcp_keeps env \<longleftrightarrow> (\<forall>netif a g g'. dhcp_arp_reply env netif a g = Some g' \<longrightarrow> arp_keeps g g')"

context arp_link
begin

lemma arp_step_inv:
  assumes "dhcp_keeps env" "arp_step env g g'" "arp_inv g"
  shows "arp_inv g'"
proof -
  have d: "arp_inv g2" if "arp_inv g1" "dhcp_arp_reply env netif a g1 = Some g2" for netif a g1 g2
    using assms(1) that arp_inv_keeps unfolding dhcp_keeps_def by blast
  have a: "arp_inv g'" if "etharp_arp_input env netif mac p g = Some g'" for netif mac p
    using etharp_arp_input_inv [OF _ assms(3) that] d by blast
  show ?thesis
    using assms(2,3)
    by (elim arp_stepE) (auto dest: etharp_output_inv etharp_query_inv etharp_ip_input_inv update_arp_entry_inv
        etharp_tmr_inv a arp_inv_keeps)
qed

lemma arp_run_inv:
  assumes "dhcp_keeps env" "(arp_step env)\<^sup>*\<^sup>* g g'" "arp_inv g"
  shows "arp_inv g'"
  using assms(2,3) by (induction rule: rtranclp_induct) (auto intro: arp_step_inv [OF assms(1)])

end

lemma arp_inv_boot: "arp_table g = replicate ARP_TABLE_SIZE arp_empty \<Longrightarrow> etharp_cached_entry g = 0 \<Longrightarrow> arp_inv g"
  using arp_ok_zero by (simp add: arp_inv_def) (simp add: ARP_TABLE_SIZE_def)

text \<open>C11: The ARP cache stays well formed.  Whatever frames and packets come in and go out, and however often the timer
  runs, in any order: the table keeps its ten entries, no IP address is resolved by two of them, only entries that wait
  for an answer hold queued packets (so recycling a resolved entry loses none), and the cached index stays in the table.  The driver and
  the DHCP client are assumed to leave the table alone.\<close>

theorem arp_cache_invariant:
  assumes "arp_link env" "dhcp_keeps env"
    and "arp_table g = replicate ARP_TABLE_SIZE arp_empty" "etharp_cached_entry g = 0" "(arp_step env)\<^sup>*\<^sup>* g g'"
  shows "length (arp_table g') = ARP_TABLE_SIZE \<and> unat (etharp_cached_entry g') < ARP_TABLE_SIZE \<and>
    (\<forall>e \<in> set (arp_table g'). arp_state e \<noteq> ETHARP_STATE_PENDING \<longrightarrow> arp_q e = []) \<and>
    (\<forall>i < ARP_TABLE_SIZE. \<forall>j < ARP_TABLE_SIZE. arp_state (arp_table g' ! i) \<noteq> ETHARP_STATE_EMPTY \<and>
      arp_state (arp_table g' ! j) \<noteq> ETHARP_STATE_EMPTY \<and> arp_ipaddr (arp_table g' ! i) = arp_ipaddr (arp_table g' ! j) \<longrightarrow> i = j)"
proof -
  have inv: "arp_inv g'" using arp_link.arp_run_inv [OF assms(1,2,5) arp_inv_boot [OF assms(3,4)]] .
  then have "i = j" if "i < ARP_TABLE_SIZE" "j < ARP_TABLE_SIZE" "arp_state (arp_table g' ! i) \<noteq> ETHARP_STATE_EMPTY"
      "arp_state (arp_table g' ! j) \<noteq> ETHARP_STATE_EMPTY" "arp_ipaddr (arp_table g' ! i) = arp_ipaddr (arp_table g' ! j)" for i j
    using arp_unique [of "arp_table g'" "arp_ipaddr (arp_table g' ! i)" i j] that by (simp add: arp_inv_def arp_live_def known_entry_def)
  with inv show ?thesis by (simp add: arp_inv_def arp_ok_def)
qed

lemma demo_dhcp_keeps: "dhcp_keeps demo_arp_env"
  by (simp add: dhcp_keeps_def demo_arp_env_def)

lemma demo_boot: "arp_table demo_net = replicate ARP_TABLE_SIZE arp_empty" "etharp_cached_entry demo_net = 0"
  by (simp_all add: demo_net_def net_zero_def)

theorem arp_cache_invariant_witness:
  "\<exists>g1. update_arp_entry demo_arp_env 5 (IP4_ADDR 192 168 4 2) demo_mac ETHARP_FLAG_TRY_HARD demo_net = Some (ERR_OK, g1) \<and>
     length (arp_table g1) = ARP_TABLE_SIZE"
proof -
  obtain g1 where g1: "update_arp_entry demo_arp_env 5 (IP4_ADDR 192 168 4 2) demo_mac ETHARP_FLAG_TRY_HARD demo_net = Some (ERR_OK, g1)"
    using demo_learns by auto
  then have "(arp_step demo_arp_env)\<^sup>*\<^sup>* demo_net g1" by (auto intro: arp_step.learn)
  from arp_cache_invariant [OF demo_arp_link demo_dhcp_keeps demo_boot this] g1 show ?thesis by blast
qed

text \<open>C36: \<open>etharp_cleanup_netif\<close>, called when an interface goes down, never removes an entry in this configuration: an
  entry gets its interface only with \<open>LWIP_SNMP\<close>, which is off, while the clean-up compares it with the interface.
  Addresses learned on an interface stay in use after it is gone.\<close>

theorem etharp_cleanup_removes_nothing:
  assumes "arp_link env" "dhcp_keeps env"
    and "arp_table g = replicate ARP_TABLE_SIZE arp_empty" "etharp_cached_entry g = 0" "(arp_step env)\<^sup>*\<^sup>* g g'"
  shows "etharp_cleanup_netif netif g' = Some g'"
  unfolding etharp_cleanup_netif_def
  using cleanup_noop [OF arp_link.arp_run_inv [OF assms(1,2,5) arp_inv_boot [OF assms(3,4)]]] by simp

theorem etharp_cleanup_removes_nothing_witness:
  "\<exists>g1. update_arp_entry demo_arp_env 5 (IP4_ADDR 192 168 4 2) demo_mac ETHARP_FLAG_TRY_HARD demo_net = Some (ERR_OK, g1) \<and>
     arp_state (arp_table g1 ! 0) = ETHARP_STATE_STABLE \<and> etharp_cleanup_netif 5 g1 = Some g1"
proof -
  obtain g1 where g1: "update_arp_entry demo_arp_env 5 (IP4_ADDR 192 168 4 2) demo_mac ETHARP_FLAG_TRY_HARD demo_net = Some (ERR_OK, g1)"
    "arp_state (arp_table g1 ! 0) = ETHARP_STATE_STABLE"
    using demo_learns by (auto simp: demo_boot ARP_TABLE_SIZE_def)
  then have "(arp_step demo_arp_env)\<^sup>*\<^sup>* demo_net g1" by (auto intro: arp_step.learn)
  from etharp_cleanup_removes_nothing [OF demo_arp_link demo_dhcp_keeps demo_boot this] g1 show ?thesis by blast
qed

end
