(* ===== verification/Comm_Ring.thy ===== *)
theory Comm_Ring
  imports Comm
begin

text \<open>
  The transmit ring of \<open>comm.c\<close> as a queue of frames and as a stream of bytes.  \<open>tx_queue\<close> abstracts the
  ring to the list of its live frames, \<open>tx_pending\<close> to the bytes that still have to go out.  The lemmas
  show that a commit appends one frame, that the send loop moves a prefix of the pending bytes to the
  line, that no block leaks or is read after its release, and that the full-ring test fails once the
  16-bit write index has wrapped and the read index has not.
\<close>

section \<open>Abstraction\<close>

definition ring_count :: "transmitter \<Rightarrow> nat" where
  "ring_count t = unat (buf_write_i t - buf_read_i t)"

definition ring_slots :: "transmitter \<Rightarrow> nat list" where
  "ring_slots t = map (\<lambda>k. ring_slot (buf_read_i t + of_nat k)) [0..<ring_count t]"

definition slot_frame :: "transmitter \<Rightarrow> nat \<Rightarrow> bytes" where
  "slot_frame t i = take (buf_lens t ! i) (the (bufs t ! i))"

definition tx_queue :: "transmitter \<Rightarrow> bytes list" where
  "tx_queue t = map (slot_frame t) (ring_slots t)"

definition tx_pending :: "transmitter \<Rightarrow> bytes" where
  "tx_pending t = drop (idx_in_buf t) (concat (tx_queue t))"

text \<open>The blocks that are allocated are exactly those of the queued frames, no frame is empty, and
  \<open>idx_in_buf\<close> lies inside the frame that is going out.\<close>

definition slot_ok :: "transmitter \<Rightarrow> nat \<Rightarrow> bool" where
  "slot_ok t i \<longleftrightarrow> bufs t ! i \<noteq> None \<and> 0 < buf_lens t ! i \<and> buf_lens t ! i \<le> length (the (bufs t ! i))"

definition tx_inv :: "transmitter \<Rightarrow> bool" where
  "tx_inv t \<longleftrightarrow>
     length (bufs t) = 32 \<and> length (buf_lens t) = 32 \<and> ring_count t \<le> 32 \<and>
     (\<forall>i < 32. if i \<in> set (ring_slots t) then slot_ok t i else bufs t ! i = None) \<and>
     (if ring_count t = 0 then idx_in_buf t = 0 else idx_in_buf t < length (hd (tx_queue t)))"

lemma tx_invI:
  assumes "length (bufs t) = 32" "length (buf_lens t) = 32" "ring_count t \<le> 32"
    and "\<And>i. i < 32 \<Longrightarrow> if i \<in> set (ring_slots t) then slot_ok t i else bufs t ! i = None"
    and "if ring_count t = 0 then idx_in_buf t = 0 else idx_in_buf t < length (hd (tx_queue t))"
  shows "tx_inv t"
  using assms unfolding tx_inv_def by blast

lemma ring_frame [simp]:
  "ring_count (t\<lparr>idx_in_buf := k\<rparr>) = ring_count t" "ring_slots (t\<lparr>idx_in_buf := k\<rparr>) = ring_slots t"
  "slot_ok (t\<lparr>idx_in_buf := k\<rparr>) = slot_ok t" "tx_queue (t\<lparr>idx_in_buf := k\<rparr>) = tx_queue t"
  "ring_count (t\<lparr>task_pending := p\<rparr>) = ring_count t" "ring_slots (t\<lparr>task_pending := p\<rparr>) = ring_slots t"
  "slot_ok (t\<lparr>task_pending := p\<rparr>) = slot_ok t" "tx_queue (t\<lparr>task_pending := p\<rparr>) = tx_queue t"
  "ring_count (t\<lparr>dropped_packets := d\<rparr>) = ring_count t" "ring_slots (t\<lparr>dropped_packets := d\<rparr>) = ring_slots t"
  "slot_ok (t\<lparr>dropped_packets := d\<rparr>) = slot_ok t" "tx_queue (t\<lparr>dropped_packets := d\<rparr>) = tx_queue t"
  by (auto simp: ring_count_def ring_slots_def slot_ok_def tx_queue_def slot_frame_def fun_eq_iff)

lemma tx_inv_frame [simp]:
  "tx_inv (t\<lparr>task_pending := p\<rparr>) = tx_inv t" "tx_inv (t\<lparr>dropped_packets := d\<rparr>) = tx_inv t"
  "tx_pending (t\<lparr>task_pending := p\<rparr>) = tx_pending t" "tx_pending (t\<lparr>dropped_packets := d\<rparr>) = tx_pending t"
  by (simp_all add: tx_inv_def tx_pending_def)

section \<open>Slot arithmetic\<close>

lemma ring_slot_mod: "ring_slot i = unat i mod 32"
proof -
  have "i AND (32 - 1) = take_bit 5 i" by (simp add: take_bit_eq_mask mask_numeral)
  then show ?thesis
    by (simp add: ring_slot_def TX_RING_BUFFER_MASK_def take_bit_eq_mod unat_mod_distrib)
qed

lemma ring_slot_less [simp]: "ring_slot i < 32"
  by (simp add: ring_slot_mod)

lemma ring_slot_add: "ring_slot (i + of_nat k) = (unat i + k) mod 32"
proof -
  have "unat (i + of_nat k) mod 32 = ((unat i + k) mod 65536) mod 32"
    by (simp add: unat_word_ariths unat_of_nat take_bit_eq_mod mod_add_right_eq)
  also have "\<dots> = (unat i + k) mod 32" by (rule mod_mod_cancel) simp
  finally show ?thesis by (simp add: ring_slot_mod)
qed

lemma mod32_inj_le:
  assumes "(n + j) mod 32 = (n + k) mod 32" "j \<le> k" "k < 32"
  shows "j = (k :: nat)"
proof -
  have "32 dvd (n + k) - (n + j)"
    using assms by (intro mod_eq_dvd_iff_nat [THEN iffD1]) auto
  then have "32 dvd k - j" by simp
  with assms(2,3) show ?thesis using dvd_imp_le [of 32 "k - j"] by (cases "k - j = 0") auto
qed

lemma ring_slot_inj:
  "ring_slot (i + of_nat j) = ring_slot (i + of_nat k) \<Longrightarrow> j < 32 \<Longrightarrow> k < 32 \<Longrightarrow> j = k"
  using mod32_inj_le [of "unat i" j k] mod32_inj_le [of "unat i" k j]
  by (cases "j \<le> k") (auto simp: ring_slot_add)

lemma length_ring_slots [simp]: "length (ring_slots t) = ring_count t"
  by (simp add: ring_slots_def)

lemma ring_slots_nth: "k < ring_count t \<Longrightarrow> ring_slots t ! k = ring_slot (buf_read_i t + of_nat k)"
  by (simp add: ring_slots_def)

lemma ring_slots_less: "i \<in> set (ring_slots t) \<Longrightarrow> i < 32"
  by (auto simp: ring_slots_def)

lemma ring_slots_distinct: "ring_count t \<le> 32 \<Longrightarrow> distinct (ring_slots t)"
  by (auto simp: ring_slots_def distinct_map inj_on_def dest: ring_slot_inj)

lemma ring_count_0_iff: "ring_count t = 0 \<longleftrightarrow> buf_read_i t = buf_write_i t"
  by (auto simp: ring_count_def unat_eq_0)

lemma ring_diff_count:
  "ring_diff t = (if buf_read_i t \<le> buf_write_i t then int (ring_count t) else int (ring_count t) - 65536)"
proof (cases "buf_read_i t \<le> buf_write_i t")
  case True
  then show ?thesis by (simp add: ring_diff_def ring_count_def uint_sub_lem word_le_def)
next
  case False
  then show ?thesis
    by (simp add: ring_diff_def ring_count_def uint_sub_if' word_le_def)
qed

section \<open>Commit and retire\<close>

text \<open>The ring after a store at the write index, and after the head is released.\<close>

abbreviation ring_append :: "bytes \<Rightarrow> nat \<Rightarrow> transmitter \<Rightarrow> transmitter" where
  "ring_append blk n t \<equiv>
     t\<lparr>bufs := (bufs t)[ring_slot (buf_write_i t) := Some blk],
       buf_lens := (buf_lens t)[ring_slot (buf_write_i t) := n], buf_write_i := buf_write_i t + 1\<rparr>"

lemma buf_write_i_count: "buf_write_i t = buf_read_i t + of_nat (ring_count t)"
  by (simp add: ring_count_def)

lemma ring_slots_append:
  assumes "ring_count t < 32"
  shows "ring_count (ring_append blk n t) = ring_count t + 1"
    "ring_slots (ring_append blk n t) = ring_slots t @ [ring_slot (buf_write_i t)]"
    "ring_slot (buf_write_i t) \<notin> set (ring_slots t)"
proof -
  have "unat ((buf_write_i t - buf_read_i t) + 1) = unat (buf_write_i t - buf_read_i t) + 1"
    using assms by (subst unat_add_lt) (simp_all add: ring_count_def)
  then show c: "ring_count (ring_append blk n t) = ring_count t + 1"
    by (simp add: ring_count_def algebra_simps)
  then show s: "ring_slots (ring_append blk n t) = ring_slots t @ [ring_slot (buf_write_i t)]"
    by (simp add: ring_slots_def buf_write_i_count [of t, symmetric])
  have "distinct (ring_slots (ring_append blk n t))"
    using assms c by (intro ring_slots_distinct) simp
  then show "ring_slot (buf_write_i t) \<notin> set (ring_slots t)" by (simp add: s)
qed

lemma push_commit_room:
  assumes "ring_count t < 32"
  shows "push_commit blk n t = Some (ring_append blk n t)"
  using assms by (auto simp: push_commit_def ring_diff_count Let_def split: if_splits)

lemma tx_queue_append:
  assumes "ring_count t < 32" "length (bufs t) = 32" "length (buf_lens t) = 32"
  shows "tx_queue (ring_append blk n t) = tx_queue t @ [take n blk]"
proof -
  have "slot_frame (ring_append blk n t) i = slot_frame t i" if "i \<in> set (ring_slots t)" for i
  proof -
    have "i \<noteq> ring_slot (buf_write_i t)" using that ring_slots_append(3) [OF assms(1)] by auto
    then show ?thesis by (simp add: slot_frame_def)
  qed
  then show ?thesis
    using assms by (simp add: tx_queue_def ring_slots_append) (simp add: slot_frame_def)
qed

lemma length_tx_queue [simp]: "length (tx_queue t) = ring_count t"
  by (simp add: tx_queue_def)

lemma tx_inv_append:
  assumes "tx_inv t" "ring_count t < 32" "0 < n" "n \<le> length blk"
  shows "tx_inv (ring_append blk n t)"
proof -
  let ?t = "ring_append blk n t"
  have slots: "if i \<in> set (ring_slots ?t) then slot_ok ?t i else bufs ?t ! i = None" if "i < 32" for i
    using that assms ring_slots_append(1,2) [OF assms(2), where blk = blk and n = n]
      ring_slots_append(3) [OF assms(2)]
    by (cases "i = ring_slot (buf_write_i t)") (auto simp: tx_inv_def slot_ok_def split: if_splits)
  have "idx_in_buf ?t < length (hd (tx_queue ?t))"
    using assms tx_queue_append [OF assms(2), where blk = blk and n = n]
    by (cases "tx_queue t") (auto simp: tx_inv_def simp flip: length_tx_queue)
  then show ?thesis
    using assms ring_slots_append(1) [OF assms(2), where blk = blk and n = n]
    by (intro tx_invI slots) (simp_all add: tx_inv_def)
qed

lemma tx_pending_append:
  assumes "tx_inv t" "ring_count t < 32"
  shows "tx_pending (ring_append blk n t) = tx_pending t @ take n blk"
proof -
  have "idx_in_buf t \<le> length (concat (tx_queue t))"
  proof (cases "ring_count t = 0")
    case True
    with assms(1) show ?thesis by (simp add: tx_inv_def)
  next
    case False
    then obtain q qs where "tx_queue t = q # qs"
      by (metis length_tx_queue list.size(3) neq_Nil_conv)
    with assms(1) False show ?thesis by (simp add: tx_inv_def)
  qed
  then show ?thesis
    using assms tx_queue_append [OF assms(2), where blk = blk and n = n] by (simp add: tx_pending_def tx_inv_def)
qed

lemma ring_retire_fields [simp]:
  "length (bufs (ring_retire t)) = length (bufs t)" "buf_lens (ring_retire t) = buf_lens t"
  "idx_in_buf (ring_retire t) = 0" "buf_write_i (ring_retire t) = buf_write_i t"
  "task_pending (ring_retire t) = task_pending t" "dropped_packets (ring_retire t) = dropped_packets t"
  by (simp_all add: ring_retire_def)

lemma ring_slots_retire:
  assumes "0 < ring_count t" "ring_count t \<le> 32"
  shows "ring_count (ring_retire t) = ring_count t - 1"
    "ring_slots t = ring_slot (buf_read_i t) # ring_slots (ring_retire t)"
proof -
  have "buf_write_i t - buf_read_i t \<noteq> 0" using assms(1) by (auto simp: ring_count_def)
  then have "unat ((buf_write_i t - buf_read_i t) - 1) = unat (buf_write_i t - buf_read_i t) - 1"
    by (simp add: unat_minus_one)
  then show c: "ring_count (ring_retire t) = ring_count t - 1"
    by (simp add: ring_count_def ring_retire_def algebra_simps)
  from assms(1) obtain m where m: "ring_count t = Suc m" by (cases "ring_count t") auto
  have "[0..<Suc m] = 0 # map Suc [0..<m]" by (simp add: map_Suc_upt upt_conv_Cons)
  with c m show "ring_slots t = ring_slot (buf_read_i t) # ring_slots (ring_retire t)"
    by (simp add: ring_slots_def ring_retire_def algebra_simps del: upt_Suc)
qed

lemma tx_queue_retire:
  assumes "tx_inv t" "0 < ring_count t"
  shows "tx_queue t = slot_frame t (ring_slot (buf_read_i t)) # tx_queue (ring_retire t)"
proof -
  note r = ring_slots_retire [OF assms(2)]
  have "distinct (ring_slots t)" using assms(1) by (intro ring_slots_distinct) (simp add: tx_inv_def)
  then have "ring_slot (buf_read_i t) \<notin> set (ring_slots (ring_retire t))"
    using assms(1) r(2) by (simp add: tx_inv_def)
  then have "slot_frame (ring_retire t) i = slot_frame t i" if "i \<in> set (ring_slots (ring_retire t))" for i
  proof -
    have "i \<noteq> ring_slot (buf_read_i t)"
      using that \<open>ring_slot (buf_read_i t) \<notin> set (ring_slots (ring_retire t))\<close> by auto
    then show ?thesis by (simp add: slot_frame_def ring_retire_def)
  qed
  with r(2) assms(1) show ?thesis by (simp add: tx_queue_def tx_inv_def)
qed

lemma tx_inv_retire:
  assumes "tx_inv t" "0 < ring_count t"
  shows "tx_inv (ring_retire t)"
proof -
  let ?t = "ring_retire t"
  note r = ring_slots_retire [OF assms(2)]
  have d: "distinct (ring_slots t)" using assms(1) by (intro ring_slots_distinct) (simp add: tx_inv_def)
  have slots: "if i \<in> set (ring_slots ?t) then slot_ok ?t i else bufs ?t ! i = None" if "i < 32" for i
    using that assms(1) r(2) d
    by (cases "i = ring_slot (buf_read_i t)")
      (auto simp: tx_inv_def slot_ok_def ring_retire_def split: if_splits)
  have "0 < length (hd (tx_queue ?t))" if "0 < ring_count ?t"
  proof -
    have "hd (tx_queue ?t) = slot_frame ?t (ring_slots ?t ! 0)"
      using that by (simp add: tx_queue_def hd_map hd_conv_nth flip: length_greater_0_conv)
    moreover have "ring_slots ?t ! 0 \<in> set (ring_slots ?t)" using that by simp
    ultimately show ?thesis
      using slots [of "ring_slots ?t ! 0"] ring_slots_less by (auto simp: slot_ok_def slot_frame_def)
  qed
  with slots assms(1) r(1) show ?thesis
    by (auto simp: tx_inv_def)
qed

section \<open>The send loop\<close>

definition fifo_put :: "bytes \<Rightarrow> hw \<Rightarrow> hw" where
  "fifo_put bs h =
     h\<lparr>uart0 := (uart0 h)\<lparr>tx_line := tx_line (uart0 h) @ bs, tx_cnt := tx_cnt (uart0 h) + length bs\<rparr>\<rparr>"

lemma fifo_put_simps [simp]: "fifo_put [] h = h" "fifo_put ys (fifo_put xs h) = fifo_put (xs @ ys) h"
  by (simp_all add: fifo_put_def)

lemma fifo_write: "WRITE_PERI_REG (UART_FIFO 0) (ucast c) h = fifo_put [c] h"
  using write_fifo [of UART0 c h] by (simp add: fifo_put_def)

lemma send_bytes_spec:
  assumes "idx \<le> len" "len \<le> length blk"
  shows "send_bytes blk len idx n h =
    Some (idx + min (len - idx) (unat n), n - of_nat (min (len - idx) (unat n)),
      fifo_put (take (min (len - idx) (unat n)) (drop idx blk)) h)"
  using assms
proof (induction blk len idx n h rule: send_bytes.induct)
  case (1 blk len idx n h)
  show ?case
  proof (cases "idx < len \<and> n \<noteq> 0")
    case True
    then have "0 < unat n" by (simp add: unat_gt_0)
    then have u: "unat (n - 1) = unat n - 1" using True by (simp add: unat_minus_one)
    define k where "k = min (len - (idx + 1)) (unat (n - 1))"
    have k: "min (len - idx) (unat n) = Suc k" using True u \<open>0 < unat n\<close> by (auto simp: k_def)
    have "drop idx blk = blk ! idx # drop (Suc idx) blk"
      using True "1.prems" by (simp add: Cons_nth_drop_Suc)
    moreover have "send_bytes blk len (idx + 1) (n - 1) (fifo_put [blk ! idx] h)
        = Some (idx + 1 + k, n - 1 - of_nat k, fifo_put (take k (drop (idx + 1) blk)) (fifo_put [blk ! idx] h))"
      using "1.IH" [of "blk ! idx"] True "1.prems" by (simp add: peek_def fifo_write k_def)
    ultimately show ?thesis
      using True "1.prems" unfolding k
      by (subst send_bytes.simps) (simp add: peek_def fifo_write algebra_simps)
  next
    case False
    then show ?thesis using "1.prems" by (subst send_bytes.simps) auto
  qed
qed

lemma tx_head:
  assumes "tx_inv t" "buf_read_i t \<noteq> buf_write_i t"
  defines "i \<equiv> ring_slot (buf_read_i t)"
  obtains blk where "bufs t ! i = Some blk" "buf_lens t ! i \<le> length blk" "idx_in_buf t < buf_lens t ! i"
    "tx_queue t = take (buf_lens t ! i) blk # tx_queue (ring_retire t)"
proof -
  have c: "0 < ring_count t" using assms(2) ring_count_0_iff [of t] by auto
  note q = tx_queue_retire [OF assms(1) c]
  have "i \<in> set (ring_slots t)"
    using ring_slots_retire(2) [OF c] assms(1) by (simp add: tx_inv_def i_def)
  with assms(1) have "slot_ok t i" using ring_slots_less by (auto simp: tx_inv_def)
  then obtain blk where "bufs t ! i = Some blk" "0 < buf_lens t ! i" "buf_lens t ! i \<le> length blk"
    by (auto simp: slot_ok_def)
  with that q assms(1) c show thesis by (auto simp: tx_inv_def slot_frame_def i_def)
qed

lemma send_loop_spec:
  "tx_inv t \<Longrightarrow> \<exists>n' t' s' sent. send_loop api n t h s = Some (n', t', fifo_put sent h, s') \<and> tx_inv t' \<and>
     tx_pending t = sent @ tx_pending t' \<and> unat n = length sent + unat n' \<and>
     (n' = 0 \<or> tx_pending t' = []) \<and> buf_write_i t' = buf_write_i t \<and>
     task_pending t' = task_pending t \<and> dropped_packets t' = dropped_packets t"
proof (induction api n t h s rule: send_loop.induct)
  case (1 api n t h s)
  show ?case
  proof (cases "n \<noteq> 0 \<and> buf_read_i t \<noteq> buf_write_i t")
    case False
    moreover have "buf_read_i t = buf_write_i t \<Longrightarrow> tx_pending t = []"
      using ring_count_0_iff [of t] by (simp add: tx_pending_def tx_queue_def ring_slots_def)
    ultimately show ?thesis
      using 1 by (subst send_loop.simps) (intro exI [of _ n] exI [of _ t] exI [of _ s] exI [of _ "[]"], auto)
  next
    case True
    define i where "i = ring_slot (buf_read_i t)"
    define len where "len = buf_lens t ! i"
    from True 1(2) obtain blk where blk: "bufs t ! i = Some blk" "len \<le> length blk" "idx_in_buf t < len"
      "tx_queue t = take len blk # tx_queue (ring_retire t)"
      using tx_head [of t] unfolding i_def len_def by metis
    define k where "k = min (len - idx_in_buf t) (unat n)"
    define out where "out = take k (drop (idx_in_buf t) blk)"
    have len32: "length (bufs t) = 32" "length (buf_lens t) = 32" "i < 32"
      using 1(2) by (simp_all add: tx_inv_def i_def)
    have sb: "send_bytes blk len (idx_in_buf t) n h = Some (idx_in_buf t + k, n - of_nat k, fifo_put out h)"
      using send_bytes_spec [of "idx_in_buf t" len blk n h] blk by (simp add: k_def out_def)
    have lout: "length out = k" using blk by (simp add: out_def k_def)
    have un: "unat (n - of_nat k) = unat n - k"
    proof -
      have "unat n < 2 ^ 32" by (rule order.strict_trans2 [OF unsigned_less]) simp
      then have "k < 2 ^ 32" by (simp add: k_def)
      then have "unat (of_nat k :: u32) = k" by (simp add: unat_of_nat take_bit_eq_mod)
      then show ?thesis by (subst unat_sub) (simp_all add: word_le_nat_alt k_def)
    qed
    have pend: "tx_pending t = out @ drop (idx_in_buf t + k) (take len blk) @ concat (tx_queue (ring_retire t))"
    proof -
      have "drop (idx_in_buf t) (take len blk) = out @ drop (idx_in_buf t + k) (take len blk)"
      proof -
        have "out = take k (drop (idx_in_buf t) (take len blk))" by (simp add: out_def k_def drop_take)
        then show ?thesis
          by (simp add: add.commute [of _ k] flip: drop_drop)
      qed
      with blk show ?thesis by (simp add: tx_pending_def)
    qed
    show ?thesis
    proof (cases "idx_in_buf t + k = len")
      case False
      then have k: "k = unat n" "idx_in_buf t + k < len" using blk by (auto simp: k_def)
      let ?t = "t\<lparr>idx_in_buf := idx_in_buf t + k\<rparr>"
      have "tx_inv ?t" using 1(2) k blk True ring_count_0_iff [of t] by (auto simp: tx_inv_def)
      moreover have "tx_pending t = out @ tx_pending ?t"
        using pend k blk by (simp add: tx_pending_def)
      moreover have "send_loop api n t h s = Some (n - of_nat k, ?t, fifo_put out h, s)"
        using True blk False sb len32
        by (subst send_loop.simps) (simp add: peek_def i_def [symmetric] len_def [symmetric])
      moreover have "n - of_nat k = 0" using k by simp
      ultimately show ?thesis using lout k by auto
    next
      case eq: True
      have inv: "tx_inv (ring_retire t)" 
        using 1(2) True ring_count_0_iff [of t] by (intro tx_inv_retire) auto
      have "tx_pending t = out @ tx_pending (ring_retire t)"
        using pend eq by (simp add: tx_pending_def)
      moreover have "send_loop api n t h s
          = send_loop api (n - of_nat k) (ring_retire t) (fifo_put out h) (os_free api blk s)"
        using True blk eq sb len32
        by (subst send_loop.simps) (simp add: peek_def i_def [symmetric] len_def [symmetric])
      moreover have "\<exists>n' t' s' sent. send_loop api (n - of_nat k) (ring_retire t) (fifo_put out h) (os_free api blk s)
          = Some (n', t', fifo_put sent (fifo_put out h), s') \<and> tx_inv t' \<and>
        tx_pending (ring_retire t) = sent @ tx_pending t' \<and> unat (n - of_nat k) = length sent + unat n' \<and>
        (n' = 0 \<or> tx_pending t' = []) \<and> buf_write_i t' = buf_write_i (ring_retire t) \<and>
        task_pending t' = task_pending (ring_retire t) \<and> dropped_packets t' = dropped_packets (ring_retire t)"
        using 1(1) [OF True, of i "Some blk" blk len "(len, n - of_nat k, fifo_put out h)" len
            "(n - of_nat k, fifo_put out h)" "n - of_nat k" "fifo_put out h"] inv blk sb eq len32
        by (simp add: i_def len_def peek_def)
      ultimately show ?thesis using lout un by (auto simp: k_def) (metis append_assoc)?
    qed
  qed
qed

section \<open>Sending from the ring\<close>

lemma fifo_room:
  assumes "uart_ok (uart0 h)"
  shows "\<exists>st. READ_PERI_REG (UART_STATUS 0) h = (st, h) \<and>
    126 - (drop_bit UART_TXFIFO_CNT_S st AND UART_TXFIFO_CNT) = of_nat (126 - tx_cnt (uart0 h))"
proof -
  let ?st = "of_nat (length (rx_fifo (uart0 h))) OR push_bit 16 (of_nat (tx_cnt (uart0 h))) :: u32"
  have "READ_PERI_REG (UART_STATUS 0) h = (?st, h)" using read_status [of UART0 h] by simp
  moreover have "drop_bit 16 ?st AND 0xFF = of_nat (tx_cnt (uart0 h))"
    using assms by (intro status_fields(2)) (auto simp: uart_ok_def)
  moreover have "(126 :: u32) - of_nat (tx_cnt (uart0 h)) = of_nat (126 - tx_cnt (uart0 h))"
    using assms by (simp add: of_nat_diff uart_ok_def)
  ultimately show ?thesis by (simp add: UART_TXFIFO_CNT_S_def UART_TXFIFO_CNT_def)
qed

lemma unat_of_nat_u32: "n < 2 ^ 32 \<Longrightarrow> unat (of_nat n :: u32) = n"
  by (simp add: unat_of_nat take_bit_eq_mod)

lemma tx_pending_nil_iff:
  assumes "tx_inv t"
  shows "tx_pending t = [] \<longleftrightarrow> buf_read_i t = buf_write_i t"
proof (cases "buf_read_i t = buf_write_i t")
  case True
  then have "ring_count t = 0" by (simp add: ring_count_0_iff)
  then show ?thesis using True by (simp add: tx_pending_def tx_queue_def ring_slots_def)
next
  case False
  from tx_head [OF assms False] obtain q qs where "tx_queue t = q # qs" by metis
  moreover have "idx_in_buf t < length (hd (tx_queue t))"
    using assms False ring_count_0_iff [of t] by (auto simp: tx_inv_def)
  ultimately show ?thesis using False by (simp add: tx_pending_def)
qed

lemma transmitter_send_spec:
  assumes "tx_inv (transmitter_uart0 g)" "uart_ok (uart0 (periph g))"
  shows "\<exists>t' h' s' sent. transmitter_send api g = Some (g\<lparr>transmitter_uart0 := t', periph := h', sdk := s'\<rparr>) \<and>
    tx_inv t' \<and> tx_pending (transmitter_uart0 g) = sent @ tx_pending t' \<and>
    \<not> task_pending t' \<and> dropped_packets t' = dropped_packets (transmitter_uart0 g) \<and>
    buf_write_i t' = buf_write_i (transmitter_uart0 g) \<and>
    h' \<in> {fifo_put sent (periph g), uart0_tx_intr_enable (fifo_put sent (periph g))} \<and>
    tx_cnt (uart0 (periph g)) + length sent \<le> 126 \<and>
    (tx_pending t' \<noteq> [] \<longrightarrow>
      h' = uart0_tx_intr_enable (fifo_put sent (periph g)) \<and> tx_cnt (uart0 (periph g)) + length sent = 126)"
proof -
  let ?h = "periph g" and ?t = "(transmitter_uart0 g)\<lparr>task_pending := False\<rparr>"
  let ?n = "126 - tx_cnt (uart0 ?h)"
  obtain st where st: "READ_PERI_REG (UART_STATUS 0) ?h = (st, ?h)"
    "126 - (drop_bit UART_TXFIFO_CNT_S st AND UART_TXFIFO_CNT) = of_nat ?n"
    using fifo_room [OF assms(2)] by blast
  have n: "unat (of_nat ?n :: u32) = ?n" by (rule unat_of_nat_u32) simp
  show ?thesis
  proof (cases "?n = 0")
    case True
    then have "tx_cnt (uart0 ?h) = 126" using assms(2) by (simp add: uart_ok_def)
    with True assms(1) st show ?thesis
      by (intro exI [of _ ?t] exI [of _ "uart0_tx_intr_enable ?h"] exI [of _ "sdk g"] exI [of _ "[]"])
        (simp add: transmitter_send_def Let_def)
  next
    case False
    have "tx_inv ?t" using assms(1) by simp
    from send_loop_spec [OF this, of api "of_nat ?n" ?h "sdk g"] obtain n' t' s' sent where
      loop: "send_loop api (of_nat ?n) ?t ?h (sdk g) = Some (n', t', fifo_put sent ?h, s')"
      and t': "tx_inv t'" "tx_pending ?t = sent @ tx_pending t'" "?n = length sent + unat n'"
        "n' = 0 \<or> tx_pending t' = []" "buf_write_i t' = buf_write_i ?t" "task_pending t' = task_pending ?t"
        "dropped_packets t' = dropped_packets ?t"
      unfolding n by blast
    define h' where "h' = (if n' = 0 \<and> tx_pending t' \<noteq> [] then uart0_tx_intr_enable (fifo_put sent ?h)
      else fifo_put sent ?h)"
    have "(of_nat ?n :: u32) \<noteq> 0" using False n by (metis unat_0)
    then have "drop_bit UART_TXFIFO_CNT_S st AND UART_TXFIFO_CNT \<noteq> 126" using st(2) by auto
    then have "transmitter_send api g = Some (g\<lparr>transmitter_uart0 := t', periph := h', sdk := s'\<rparr>)"
      using st loop tx_pending_nil_iff [OF t'(1)]
      by (simp add: transmitter_send_def h'_def Let_def)
    with t' assms(2) show ?thesis
      by (intro exI [of _ t'] exI [of _ h'] exI [of _ s'] exI [of _ sent])
        (auto simp: h'_def uart_ok_def)
  qed
qed


section \<open>Pushing a frame\<close>

text \<open>What the firmware relies on from \<open>os_malloc\<close>: a block that is not null has the size asked for.\<close>

definition malloc_ok :: "'s comm_api \<Rightarrow> bool" where
  "malloc_ok api \<longleftrightarrow> (\<forall>n s mem s'. os_malloc api n s = (Some mem, s') \<longrightarrow> length mem = n)"

lemma cobs_spec_length_32:
  assumes "xs \<noteq> []" "length xs < 2 ^ 31"
  shows "length (cobs_spec xs) < 2 ^ 32"
proof -
  have "length (cobs_spec xs) \<le> length xs + 2 + (length xs - 1) div 254"
    using cobs_spec_length [OF assms(1)] assms(1) by (simp add: encoded_max_size)
  then show ?thesis using assms(2) by simp
qed

text \<open>The sentinel behind the block survives the encoder, so the nested log call is never made.\<close>

lemma transmitter_push_eq:
  assumes "malloc_ok api" "data \<noteq> []" "length data < 2 ^ 31"
    and "push_precheck (system_get_free_heap_size api (sdk g)) prio (transmitter_uart0 g)"
    and "os_malloc api (COBS_ENCODED_MAX_SIZE (length data) + 1) (sdk g) = (Some mem, s)"
  shows "\<exists>blk. take (length (cobs_spec data)) blk = cobs_spec data \<and> length (cobs_spec data) \<le> length blk \<and>
    transmitter_push api data prio g =
      (case push_commit blk (length (cobs_spec data)) (transmitter_uart0 g) of
         None \<Rightarrow> Some (upd_tx drop_packet (g\<lparr>sdk := os_free api blk s\<rparr>))
       | Some t \<Rightarrow> Some (transmitter_wake_task (g\<lparr>sdk := s, transmitter_uart0 := t\<rparr>)))"
proof -
  let ?m = "COBS_ENCODED_MAX_SIZE (length data)" and ?e = "cobs_spec data"
  let ?blk = "?e @ drop (length ?e) (mem[?m := 0x55])"
  have mem: "length mem = ?m + 1" using assms(1,5) by (auto simp: malloc_ok_def)
  have e: "length ?e \<le> ?m" using assms(2) by (rule cobs_spec_length)
  have enc: "cobs_encode (mem[?m := 0x55]) data = Some (of_nat (length ?e), ?blk)"
    using assms(2) mem by (intro cobs_encode_refines) simp_all
  have u: "unat (of_nat (length ?e) :: u32) = length ?e"
    using cobs_spec_length_32 [OF assms(2,3)] by (rule unat_of_nat_u32)
  have "peek ?blk ?m = Some 0x55"
    using e mem by (simp add: peek_def nth_append)
  with enc mem assms(4,5) u e show ?thesis
    by (intro exI [of _ ?blk] conjI)
      (simp_all add: transmitter_push.simps [of api data prio g] poke_def Let_def, simp split: option.split)
qed

lemma push_precheck_room:
  assumes "push_precheck heap prio t" "ring_count t < 32 \<or> buf_read_i t \<le> buf_write_i t" "tx_inv t"
  shows "ring_count t < 32"
proof (rule ccontr)
  assume "\<not> ring_count t < 32"
  with assms(2,3) have "ring_diff t = 32" by (simp add: ring_diff_count tx_inv_def)
  with assms(1) show False by (simp add: push_precheck_def buf_used_def)
qed

section \<open>A bounded queue\<close>

text \<open>The contract of a queue with room for \<open>cap\<close> elements, and what follows for a producer and a consumer
  that share it: whatever the interleaving, the elements come out in the order they went in.\<close>

datatype 'f queue_op = Enq 'f | Deq

fun queue_run :: "('f \<Rightarrow> 'q \<Rightarrow> 'q option) \<Rightarrow> ('q \<Rightarrow> 'f) \<Rightarrow> ('q \<Rightarrow> 'q) \<Rightarrow> 'f queue_op list \<Rightarrow> 'q \<Rightarrow> ('f list \<times> 'q) option" where
  "queue_run enq first deq [] q = Some ([], q)"
| "queue_run enq first deq (Enq f # ops) q = do { q' \<leftarrow> enq f q; queue_run enq first deq ops q' }"
| "queue_run enq first deq (Deq # ops) q = do {
     (out, q') \<leftarrow> queue_run enq first deq ops (deq q);
     Some (first q # out, q')
   }"

fun queue_sched :: "nat \<Rightarrow> nat \<Rightarrow> 'f queue_op list \<Rightarrow> bool" where
  "queue_sched cap n [] \<longleftrightarrow> True"
| "queue_sched cap n (Enq f # ops) \<longleftrightarrow> n < cap \<and> queue_sched cap (n + 1) ops"
| "queue_sched cap n (Deq # ops) \<longleftrightarrow> 0 < n \<and> queue_sched cap (n - 1) ops"

fun enqueued :: "'f queue_op list \<Rightarrow> 'f list" where
  "enqueued [] = []"
| "enqueued (Enq f # ops) = f # enqueued ops"
| "enqueued (Deq # ops) = enqueued ops"

locale bounded_queue =
  fixes enq :: "'f \<Rightarrow> 'q \<Rightarrow> 'q option"
    and first :: "'q \<Rightarrow> 'f"
    and deq :: "'q \<Rightarrow> 'q"
    and contents :: "'q \<Rightarrow> 'f list"
    and inv :: "'q \<Rightarrow> bool"
    and valid :: "'f \<Rightarrow> bool"
    and cap :: nat
  assumes enq_room: "inv q \<Longrightarrow> valid f \<Longrightarrow> length (contents q) < cap \<Longrightarrow>
      \<exists>q'. enq f q = Some q' \<and> inv q' \<and> contents q' = contents q @ [f]"
    and deq_contents: "inv q \<Longrightarrow> contents q \<noteq> [] \<Longrightarrow>
      inv (deq q) \<and> contents q = first q # contents (deq q)"
begin

lemma run_fifo:
  assumes "inv q" "\<forall>f \<in> set (enqueued ops). valid f" "queue_sched cap (length (contents q)) ops"
  shows "\<exists>out q'. queue_run enq first deq ops q = Some (out, q') \<and> inv q' \<and>
    out @ contents q' = contents q @ enqueued ops"
  using assms
proof (induction ops arbitrary: q)
  case Nil
  then show ?case by simp
next
  case (Cons op ops)
  show ?case
  proof (cases op)
    case (Enq f)
    with Cons.prems obtain q1 where "enq f q = Some q1" "inv q1" "contents q1 = contents q @ [f]"
      using enq_room [of q f] by auto
    with Enq Cons.prems Cons.IH [of q1] show ?thesis by auto
  next
    case Deq
    with Cons.prems have q: "inv (deq q)" "contents q = first q # contents (deq q)"
      using deq_contents [of q] by auto
    with Deq Cons.prems Cons.IH [of "deq q"] show ?thesis by auto
  qed
qed

end

text \<open>The ring as such a queue, of blocks with the length of the frame in them.\<close>

definition ring_blocks :: "transmitter \<Rightarrow> (bytes \<times> nat) list" where
  "ring_blocks t = map (\<lambda>i. (the (bufs t ! i), buf_lens t ! i)) (ring_slots t)"

lemma ring_blocks_append:
  assumes "tx_inv t" "ring_count t < 32"
  shows "ring_blocks (ring_append blk n t) = ring_blocks t @ [(blk, n)]"
proof -
  have "(the (bufs (ring_append blk n t) ! i), buf_lens (ring_append blk n t) ! i)
      = (the (bufs t ! i), buf_lens t ! i)" if "i \<in> set (ring_slots t)" for i
  proof -
    have "i \<noteq> ring_slot (buf_write_i t)" using that ring_slots_append(3) [OF assms(2)] by auto
    then show ?thesis by simp
  qed
  then show ?thesis
    using assms by (auto simp: ring_blocks_def ring_slots_append tx_inv_def)
qed

lemma ring_blocks_retire:
  assumes "tx_inv t" "0 < ring_count t"
  shows "ring_blocks t =
    (the (bufs t ! ring_slot (buf_read_i t)), buf_lens t ! ring_slot (buf_read_i t)) # ring_blocks (ring_retire t)"
proof -
  have c: "ring_count t \<le> 32" using assms(1) by (simp add: tx_inv_def)
  note r = ring_slots_retire [OF assms(2) c]
  have "bufs (ring_retire t) ! i = bufs t ! i" if "i \<in> set (ring_slots (ring_retire t))" for i
  proof -
    have "i \<noteq> ring_slot (buf_read_i t)" using ring_slots_distinct [OF c] r(2) that by auto
    then show ?thesis by (simp add: ring_retire_def)
  qed
  with r(2) show ?thesis by (simp add: ring_blocks_def)
qed

interpretation txq: bounded_queue "\<lambda>(blk, n). push_commit blk n"
  "\<lambda>t. (the (bufs t ! ring_slot (buf_read_i t)), buf_lens t ! ring_slot (buf_read_i t))"
  ring_retire ring_blocks tx_inv "\<lambda>(blk, n). 0 < n \<and> n \<le> length blk" 32
proof unfold_locales
  fix t and f :: "bytes \<times> nat"
  assume "tx_inv t" "case f of (blk, n) \<Rightarrow> 0 < n \<and> n \<le> length blk" "length (ring_blocks t) < 32"
  then show "\<exists>t'. (case f of (blk, n) \<Rightarrow> push_commit blk n) t = Some t' \<and> tx_inv t' \<and>
      ring_blocks t' = ring_blocks t @ [f]"
    by (cases f) (auto simp: push_commit_room tx_inv_append ring_blocks_append ring_blocks_def [of t])
next
  fix t
  assume "tx_inv t" "ring_blocks t \<noteq> []"
  moreover from this have "0 < ring_count t" by (cases "ring_count t") (auto simp: ring_blocks_def ring_slots_def)
  ultimately show "tx_inv (ring_retire t) \<and> ring_blocks t =
      (the (bufs t ! ring_slot (buf_read_i t)), buf_lens t ! ring_slot (buf_read_i t)) # ring_blocks (ring_retire t)"
    by (simp add: tx_inv_retire ring_blocks_retire)
qed


section \<open>Example states\<close>

text \<open>A link before initialisation, and an SDK with a heap of 40000 bytes whose state is the number of
  live blocks.\<close>

definition comm_zero :: "nat comm" where
  "comm_zero =
     \<lparr>pbufs = Map.empty, netif_mem = Map.empty, netif_list = [], netif_default = None, netifnum = 0, raw_mem = Map.empty,
      raw_pcbs = [], ip_id = 0, current_iphdr_src = 0, current_iphdr_dest = 0, current_netif = None, current_header = None,
      dns_servers = [0, 0], arp_table = replicate ARP_TABLE_SIZE arp_empty, etharp_cached_entry = 0, igmp_mem = Map.empty,
     igmp_group_list = [], udp_mem = Map.empty, udp_pcbs = [], dhcp_pcb = Map.empty,
      sdk = 0, periph = hw_reset,
      uart_dev = \<lparr>baut_rate = 115200, data_bits = 3, exist_parity = 0, parity = 0, stop_bits = 1, TrigLvl = 1\<rparr>,
      os_posts = [], comm_queue_len = 3,
      transmitter_uart0 = \<lparr>bufs = replicate 32 None, buf_lens = replicate 32 0, buf_read_i = 0, buf_write_i = 0,
         task_pending = False, dropped_packets = 0, idx_in_buf = 0\<rparr>,
      dec_uart0 = \<lparr>proto_errors = 0, crc_errors = 0, cb_set = False\<rparr>,
      comm_loglevel = 0\<rparr>"

definition demo_api :: "nat comm_api" where
  "demo_api =
     \<lparr>system_get_free_heap_size = (\<lambda>_. 40000), os_malloc = (\<lambda>n s. (Some (replicate n 0xA5), s + 1)),
      os_free = (\<lambda>_ s. s - 1), os_sprintf = (\<lambda>fmt args. map of_char fmt), UART_CLK_FREQ = 80000000\<rparr>"

lemma demo_api_ok: "malloc_ok demo_api"
  by (auto simp: malloc_ok_def demo_api_def)

lemma tx_inv_empty:
  "length (bufs t) = 32 \<Longrightarrow> length (buf_lens t) = 32 \<Longrightarrow> buf_read_i t = buf_write_i t \<Longrightarrow>
   \<forall>i < 32. bufs t ! i = None \<Longrightarrow> idx_in_buf t = 0 \<Longrightarrow> tx_inv t"
  by (simp add: tx_inv_def ring_slots_def ring_count_def)

lemma tx_inv_zero: "tx_inv (transmitter_uart0 comm_zero)"
  by (rule tx_inv_empty) (auto simp: comm_zero_def)

section \<open>Admission by priority\<close>

lemma buf_free_count:
  assumes "tx_inv t" "buf_read_i t \<le> buf_write_i t"
  shows "buf_used t = of_nat (ring_count t)" "unat (buf_free t) = 32 - ring_count t"
proof -
  show u: "buf_used t = of_nat (ring_count t)" using assms(2) by (simp add: buf_used_def ring_diff_count)
  have "ring_count t \<le> 32" using assms(1) by (simp add: tx_inv_def)
  then have "(32 :: u32) - of_nat (ring_count t) = of_nat (32 - ring_count t)" by (simp add: of_nat_diff)
  then show "unat (buf_free t) = 32 - ring_count t" by (simp add: buf_free_def u unat_of_nat_u32)
qed

section \<open>The write index wraps\<close>

text \<open>The states the ring reaches from its initial one by commits of encoded frames and retirements of
  the head.\<close>

inductive ring_reach :: "transmitter \<Rightarrow> bool" where
  init: "length (bufs t) = 32 \<Longrightarrow> length (buf_lens t) = 32 \<Longrightarrow> \<forall>i < 32. bufs t ! i = None \<Longrightarrow>
    ring_reach (transmitter_init t)"
| push: "ring_reach t \<Longrightarrow> 0 < n \<Longrightarrow> n \<le> length blk \<Longrightarrow> push_commit blk n t = Some t' \<Longrightarrow> ring_reach t'"
| retire: "ring_reach t \<Longrightarrow> 0 < ring_count t \<Longrightarrow> ring_reach (ring_retire t)"

lemma reach_init: "\<exists>t. ring_reach t \<and> tx_inv t \<and> ring_count t = 0 \<and> buf_read_i t = 0"
proof -
  let ?t = "transmitter_uart0 comm_zero"
  have "ring_reach (transmitter_init ?t)"
    by (rule ring_reach.init) (auto simp: comm_zero_def)
  moreover have "tx_inv (transmitter_init ?t)"
    by (rule tx_inv_empty) (auto simp: comm_zero_def transmitter_init_def)
  ultimately show ?thesis by (intro exI [of _ "transmitter_init ?t"]) (simp add: transmitter_init_def ring_count_def)
qed

lemma reach_push:
  assumes "ring_reach t" "tx_inv t" "ring_count t < 32" "0 < n" "n \<le> length blk"
  shows "ring_reach (ring_append blk n t)" "tx_inv (ring_append blk n t)"
    "ring_count (ring_append blk n t) = ring_count t + 1"
  using assms ring_reach.push [OF assms(1,4,5) push_commit_room [OF assms(3)]]
  by (simp_all add: tx_inv_append ring_slots_append)

text \<open>Any position of the indices is reached: every frame is sent before the next one is pushed.\<close>

lemma reach_index:
  "\<exists>t. ring_reach t \<and> tx_inv t \<and> ring_count t = 0 \<and> buf_read_i t = of_nat k"
proof (induction k)
  case 0
  show ?case using reach_init by simp
next
  case (Suc k)
  then obtain t where t: "ring_reach t" "tx_inv t" "ring_count t = 0" "buf_read_i t = of_nat k" by blast
  let ?t = "ring_append [0] 1 t"
  have p: "ring_reach ?t" "tx_inv ?t" "ring_count ?t = 1"
    using reach_push [OF t(1,2), of 1 "[0]"] t(3) by simp_all
  then have "ring_reach (ring_retire ?t)" "tx_inv (ring_retire ?t)" "ring_count (ring_retire ?t) = 0"
    using ring_slots_retire(1) [of ?t] by (auto intro: ring_reach.retire tx_inv_retire)
  moreover have "buf_read_i (ring_retire ?t) = of_nat (Suc k)" using t(4) by (simp add: ring_retire_def)
  ultimately show ?case by blast
qed

lemma reach_fill:
  assumes "ring_reach t" "tx_inv t" "ring_count t = 0" "m \<le> 32" "blk \<noteq> []"
  shows "\<exists>t'. ring_reach t' \<and> tx_inv t' \<and> ring_count t' = m \<and> buf_read_i t' = buf_read_i t \<and>
    tx_queue t' = replicate m blk"
  using assms(4)
proof (induction m)
  case 0
  have "tx_queue t = []" using assms(3) by (simp add: tx_queue_def ring_slots_def)
  then show ?case using assms by auto
next
  case (Suc m)
  then obtain t' where t': "ring_reach t'" "tx_inv t'" "ring_count t' = m" "buf_read_i t' = buf_read_i t"
    "tx_queue t' = replicate m blk" by auto
  have "tx_queue (ring_append blk (length blk) t') = replicate (Suc m) blk"
    using t' Suc.prems tx_queue_append [of t' "length blk" blk] by (simp add: tx_inv_def replicate_append_same)
  with reach_push [OF t'(1,2), of "length blk" blk] t' Suc.prems assms(5) show ?case
    by (intro exI [of _ "ring_append blk (length blk) t'"]) auto
qed

section \<open>Properties\<close>

text \<open>C8: functional: as long as the ring is not both full and split by a wrapped write index,
  \<open>transmitter_push\<close> on a non-empty message returns and keeps the ring invariant (every live slot owns a
  block, no other slot does); a message that passes the priority check and for which a block is
  available is appended to the queue in COBS form, the other frames unchanged, and the sending task is
  posted unless it already is; a message that fails the check only counts as dropped; without memory
  nothing changes.\<close>

theorem transmitter_push_correct:
  assumes "malloc_ok api" "data \<noteq> []" "length data < 2 ^ 31"
    and "tx_inv (transmitter_uart0 g)"
    and "ring_count (transmitter_uart0 g) < 32 \<or> buf_read_i (transmitter_uart0 g) \<le> buf_write_i (transmitter_uart0 g)"
  shows "\<exists>g'. transmitter_push api data prio g = Some g' \<and> tx_inv (transmitter_uart0 g') \<and>
    (if push_precheck (system_get_free_heap_size api (sdk g)) prio (transmitter_uart0 g)
     then (case os_malloc api (COBS_ENCODED_MAX_SIZE (length data) + 1) (sdk g) of
        (None, s) \<Rightarrow> g' = g\<lparr>sdk := s\<rparr>
      | (Some mem, s) \<Rightarrow>
          tx_queue (transmitter_uart0 g') = tx_queue (transmitter_uart0 g) @ [cobs_spec data] \<and>
          tx_pending (transmitter_uart0 g') = tx_pending (transmitter_uart0 g) @ cobs_spec data \<and>
          dropped_packets (transmitter_uart0 g') = dropped_packets (transmitter_uart0 g) \<and>
          task_pending (transmitter_uart0 g') \<and>
          os_posts g' = os_posts g @ (if task_pending (transmitter_uart0 g) then [] else [DO_TX]) \<and>
          periph g' = periph g \<and> dec_uart0 g' = dec_uart0 g)
     else g' = upd_tx (\<lambda>t. t\<lparr>dropped_packets := dropped_packets t + 1\<rparr>) g)"
proof (cases "push_precheck (system_get_free_heap_size api (sdk g)) prio (transmitter_uart0 g)")
  case False
  then show ?thesis
    using assms(4) by (simp add: transmitter_push.simps [of api data prio g] drop_packet_def)
next
  case True
  then have room: "ring_count (transmitter_uart0 g) < 32" using assms(4,5) by (blast intro: push_precheck_room)
  obtain mem s where m: "os_malloc api (COBS_ENCODED_MAX_SIZE (length data) + 1) (sdk g) = (mem, s)" by force
  show ?thesis
  proof (cases mem)
    case None
    with True m assms(4) show ?thesis by (simp add: transmitter_push.simps [of api data prio g])
  next
    case (Some blk)
    obtain b where b: "take (length (cobs_spec data)) b = cobs_spec data" "length (cobs_spec data) \<le> length b"
      "transmitter_push api data prio g = Some (transmitter_wake_task
         (g\<lparr>sdk := s, transmitter_uart0 := ring_append b (length (cobs_spec data)) (transmitter_uart0 g)\<rparr>))"
      using transmitter_push_eq [OF assms(1-3) True m [unfolded Some]] push_commit_room [OF room] by auto
    moreover have "length (bufs (transmitter_uart0 g)) = 32" "length (buf_lens (transmitter_uart0 g)) = 32"
      using assms(4) by (simp_all add: tx_inv_def)
    ultimately show ?thesis
      using True m Some assms(4) room
      by (simp add: transmitter_wake_task_def tx_inv_append tx_queue_append tx_pending_append)
  qed
qed


theorem transmitter_push_correct_witness:
  "\<exists>g'. transmitter_push demo_api [9, 0, 8] COMM_TX_PRIO_LOW comm_zero = Some g' \<and>
    tx_queue (transmitter_uart0 g') = [[2, 9, 2, 8, 0]] \<and> os_posts g' = [DO_TX]"
proof -
  have "push_precheck 40000 COMM_TX_PRIO_LOW (transmitter_uart0 comm_zero)"
    by (simp add: push_precheck_def buf_used_def buf_free_def ring_diff_def comm_zero_def)
  then show ?thesis
    using transmitter_push_correct [OF demo_api_ok, of "[9, 0, 8]" comm_zero COMM_TX_PRIO_LOW] tx_inv_zero
    by (auto simp: demo_api_def cobs_spec_def comm_zero_def ring_count_def tx_queue_def ring_slots_def)
qed


text \<open>C7: safety and functional: a run of \<open>transmitter_send\<close> on a valid ring, with a transmit FIFO of at
  most 126 bytes, returns (no block is read after its release or beyond its length), keeps the ring
  invariant, puts exactly the next pending bytes of the stream on the line without overfilling the FIFO,
  and re-arms the task: if bytes remain then the FIFO is full to 126 bytes and the transmit interrupt is
  enabled.\<close>

theorem transmitter_send_correct:
  assumes "tx_inv (transmitter_uart0 g)" "uart_ok (uart0 (periph g))"
  shows "\<exists>g' sent. transmitter_send api g = Some g' \<and> tx_inv (transmitter_uart0 g') \<and>
    tx_line (uart0 (periph g')) = tx_line (uart0 (periph g)) @ sent \<and>
    tx_pending (transmitter_uart0 g) = sent @ tx_pending (transmitter_uart0 g') \<and>
    uart_ok (uart0 (periph g')) \<and> \<not> task_pending (transmitter_uart0 g') \<and>
    (tx_pending (transmitter_uart0 g') \<noteq> [] \<longrightarrow>
      tx_cnt (uart0 (periph g')) = 126 \<and> int_ena (uart0 (periph g')) AND UART_TXFIFO_EMPTY_INT \<noteq> 0)"
proof -
  from transmitter_send_spec [OF assms, of api] obtain t' h' s' sent where
    r: "transmitter_send api g = Some (g\<lparr>transmitter_uart0 := t', periph := h', sdk := s'\<rparr>)"
      "tx_inv t'" "tx_pending (transmitter_uart0 g) = sent @ tx_pending t'" "\<not> task_pending t'"
    and h: "h' = fifo_put sent (periph g) \<or> h' = uart0_tx_intr_enable (fifo_put sent (periph g))"
      "tx_cnt (uart0 (periph g)) + length sent \<le> 126"
      "tx_pending t' \<noteq> [] \<longrightarrow>
        h' = uart0_tx_intr_enable (fifo_put sent (periph g)) \<and> tx_cnt (uart0 (periph g)) + length sent = 126"
    by blast
  have en: "(x OR 2) AND 2 \<noteq> 0" for x :: u32
  proof -
    have "bit ((x OR 2) AND 2) 1" by (simp add: bit_simps)
    then show ?thesis by auto
  qed
  have line: "tx_line (uart0 h') = tx_line (uart0 (periph g)) @ sent" "uart_ok (uart0 h')"
    "tx_cnt (uart0 h') = tx_cnt (uart0 (periph g)) + length sent"
    using h(1,2) assms(2) by (auto simp: uart_int_masks fifo_put_def uart_ok_def)
  have "int_ena (uart0 h') AND UART_TXFIFO_EMPTY_INT \<noteq> 0" if "tx_pending t' \<noteq> []"
    using h(3) that en by (simp add: uart_int_masks fifo_put_def uart_bit_defs)
  with r line h(3) show ?thesis by auto
qed

lemma push_demo:
  "\<exists>g. transmitter_push demo_api [9, 0, 8] COMM_TX_PRIO_LOW comm_zero = Some g \<and>
     tx_inv (transmitter_uart0 g) \<and> tx_pending (transmitter_uart0 g) = [2, 9, 2, 8, 0] \<and> periph g = hw_reset"
proof -
  have "push_precheck 40000 COMM_TX_PRIO_LOW (transmitter_uart0 comm_zero)"
    by (simp add: push_precheck_def buf_used_def buf_free_def ring_diff_def comm_zero_def)
  moreover have room: "ring_count (transmitter_uart0 comm_zero) < 32"
    by (simp add: comm_zero_def ring_count_def)
  moreover have "tx_pending (transmitter_uart0 comm_zero) = []"
    by (simp add: comm_zero_def tx_pending_def tx_queue_def ring_slots_def ring_count_def)
  ultimately show ?thesis
    using transmitter_push_eq [OF demo_api_ok, of "[9, 0, 8]" comm_zero COMM_TX_PRIO_LOW]
      push_commit_room [OF room] tx_inv_append [OF tx_inv_zero room]
      tx_pending_append [OF tx_inv_zero room]
    by (auto simp: demo_api_def cobs_spec_def transmitter_wake_task_def) (simp_all add: comm_zero_def)
qed

theorem transmitter_send_correct_witness:
  "\<exists>g g'. transmitter_push demo_api [9, 0, 8] COMM_TX_PRIO_LOW comm_zero = Some g \<and>
    transmitter_send demo_api g = Some g' \<and> tx_line (uart0 (periph g')) = [2, 9, 2, 8, 0] \<and>
    tx_pending (transmitter_uart0 g') = []"
proof -
  obtain g where g: "transmitter_push demo_api [9, 0, 8] COMM_TX_PRIO_LOW comm_zero = Some g"
    "tx_inv (transmitter_uart0 g)" "tx_pending (transmitter_uart0 g) = [2, 9, 2, 8, 0]" "periph g = hw_reset"
    using push_demo by blast
  have ok: "uart_ok (uart0 (periph g))" by (simp add: g(4) hw_reset_def uart_ok_def Let_def)
  obtain g' sent where g': "transmitter_send demo_api g = Some g'"
    "tx_line (uart0 (periph g')) = tx_line (uart0 (periph g)) @ sent"
    "tx_pending (transmitter_uart0 g) = sent @ tx_pending (transmitter_uart0 g')"
    "tx_pending (transmitter_uart0 g') \<noteq> [] \<longrightarrow> tx_cnt (uart0 (periph g')) = 126"
    and cnt: "uart_ok (uart0 (periph g'))"
    using transmitter_send_correct [OF g(2) ok, of demo_api] by blast
  have "tx_cnt (uart0 (periph g')) \<le> 5"
    using transmitter_send_spec [OF g(2) ok, of demo_api] g'(1,3) g(3,4)
    by (auto simp: fifo_put_def uart_int_masks hw_reset_def Let_def dest!: arg_cong [where f = length])
  then have "tx_pending (transmitter_uart0 g') = []" using g'(4) by auto
  with g g' show ?thesis by (auto simp: hw_reset_def Let_def)
qed


text \<open>Functional: while the write index has not wrapped past the read index, a message is admitted
  by its priority exactly as the thresholds say: high priority needs one free slot and 2000 bytes of
  heap, medium priority 10 slots and 10000 bytes, low priority 15 slots and 20000 bytes.\<close>

theorem push_precheck_thresholds:
  assumes "tx_inv t" "buf_read_i t \<le> buf_write_i t"
  shows "(push_precheck heap COMM_TX_PRIO_HIGH t \<longleftrightarrow> ring_count t \<le> 31 \<and> 2000 \<le> unat heap) \<and>
    (push_precheck heap COMM_TX_PRIO_MEDIUM t \<longleftrightarrow> ring_count t \<le> 22 \<and> 10000 \<le> unat heap) \<and>
    (push_precheck heap COMM_TX_PRIO_LOW t \<longleftrightarrow> ring_count t \<le> 17 \<and> 20000 \<le> unat heap)"
proof -
  have c: "ring_count t \<le> 32" using assms(1) by (simp add: tx_inv_def)
  then have "buf_used t = 32 \<longleftrightarrow> ring_count t = 32"
    using buf_free_count(1) [OF assms] by (simp add: word_unat_eq_iff unat_of_nat_u32)
  with c buf_free_count(2) [OF assms] show ?thesis
    by (auto simp: push_precheck_def word_less_nat_alt not_less)
qed

theorem push_precheck_thresholds_witness:
  "push_precheck 15000 COMM_TX_PRIO_MEDIUM (transmitter_uart0 comm_zero) \<and>
    \<not> push_precheck 15000 COMM_TX_PRIO_LOW (transmitter_uart0 comm_zero)"
  using push_precheck_thresholds [OF tx_inv_zero, of 15000]
  by (simp add: comm_zero_def ring_count_def)



text \<open>C26: error: the two full-ring tests compare an \<open>int\<close> difference of \<open>uint16_t\<close> indices with 32, so
  they miss a full ring once the write index has wrapped and the read index has not: a state with 32
  queued frames is reachable in which a message of the lowest priority passes the check and the commit
  stores it in the slot of the oldest unsent frame, whose block is lost.\<close>

theorem ring_wrap_overwrites:
  "\<exists>t t'. ring_reach t \<and> tx_inv t \<and> ring_count t = 32 \<and> tx_queue t = replicate 32 [1, 0] \<and>
     push_precheck 20000 COMM_TX_PRIO_LOW t \<and> push_commit [2, 9, 0] 3 t = Some t' \<and>
     slot_frame t (ring_slot (buf_read_i t)) = [1, 0] \<and>
     slot_frame t' (ring_slot (buf_read_i t')) = [2, 9, 0] \<and> \<not> tx_inv t'"
proof -
  obtain t0 where "ring_reach t0" "tx_inv t0" "ring_count t0 = 0" "buf_read_i t0 = of_nat 65520"
    using reach_index by blast
  then obtain t where t: "ring_reach t" "tx_inv t" "ring_count t = 32" "buf_read_i t = 65520"
    "tx_queue t = replicate 32 [1, 0]"
    using reach_fill [of t0 32 "[1, 0]"] by auto
  have w: "buf_write_i t = 16" using buf_write_i_count [of t] t(3,4) by simp
  let ?t = "ring_append [2, 9, 0] 3 t"
  have d: "ring_diff t = - 65504" by (simp add: ring_diff_def w t(4))
  then have "push_precheck 20000 COMM_TX_PRIO_LOW t"
    by (simp add: push_precheck_def buf_used_def buf_free_def)
  moreover have "push_commit [2, 9, 0] 3 t = Some ?t" by (simp add: push_commit_def d Let_def)
  moreover have "ring_slot (buf_read_i t) = 16" "ring_slot (buf_write_i t) = 16"
    by (simp_all add: ring_slot_mod t(4) w)
  moreover have "slot_frame t (ring_slot (buf_read_i t)) = [1, 0]"
    using tx_queue_retire [OF t(2)] t(3,5) by (simp add: replicate_Suc numeral_eq_Suc)
  moreover have "slot_frame ?t 16 = [2, 9, 0]"
    using t(2) \<open>ring_slot (buf_write_i t) = 16\<close> by (simp add: slot_frame_def tx_inv_def)
  moreover have "ring_count ?t = 33" by (simp add: ring_count_def w t(4))
  then have "\<not> tx_inv ?t" unfolding tx_inv_def by simp
  ultimately show ?thesis using t by (intro exI [of _ t] exI [of _ ?t]) simp
qed

end
