(* ===== verification/Comm_Link.thy ===== *)
theory Comm_Link
  imports Comm_Ring
begin

text \<open>
  The link of \<open>comm.c\<close> end to end: what \<open>comm_send\<close> frames is what \<open>decoder_check_and_dispatch_cb\<close> of a
  receiver dispatches, damaged frames are counted and not dispatched, the receive task drains the FIFO,
  and over every interleaving of pushes, interrupts, task runs and line activity the bytes on the line
  are the accepted frames in order and the task queue never overflows.
\<close>

section \<open>Dispatch of a received frame\<close>

lemma comm_msg_eq: "comm_msg ty data = (ty # data) @ [lo8 (crc16_block (ty # data)), hi8 (crc16_block (ty # data))]"
  by (simp add: comm_msg_def lo8_def hi8_def Let_def)

lemma comm_msg_simps [simp]: "length (comm_msg ty data) = length data + 3" "comm_msg ty data \<noteq> []"
  by (simp_all add: comm_msg_eq)

lemma comm_msg_crc: "crc16_block (comm_msg ty data) = 0"
  unfolding comm_msg_eq crc16_residue by simp

lemma split_last2:
  assumes "2 \<le> length m"
  shows "m = take (length m - 2) m @ [m ! (length m - 2), m ! (length m - 1)]"
proof -
  have "drop (length m - 2) m = [m ! (length m - 2), m ! (length m - 1)]"
    using assms by (simp add: list_eq_iff_nth_eq less_Suc_eq numeral_2_eq_2 Suc_diff_Suc)
  then show ?thesis by (metis append_take_drop_id)
qed

text \<open>The checksum test is a division test on the whole frame.\<close>

lemma dispatch_eq:
  "decoder_check_and_dispatch_cb cb m g =
     (if length m < 3 then Some (upd_dec (\<lambda>d. d\<lparr>proto_errors := proto_errors d + 1\<rparr>) g)
      else if crc16_block m \<noteq> 0 then Some (upd_dec (\<lambda>d. d\<lparr>crc_errors := crc_errors d + 1\<rparr>) g)
      else if cb_set (dec_uart0 g) then cb (m ! 0) (take (length m - 3) (drop 1 m)) g
      else Some g)"
proof (cases "length m < 3")
  case True
  then show ?thesis by (simp add: decoder_check_and_dispatch_cb_def)
next
  case False
  then have sp: "take (length m - 2) m @ [m ! (length m - 2), m ! (length m - 1)] = m"
    by (intro split_last2 [symmetric]) simp
  have "crc16_block m = 0 \<longleftrightarrow>
      le16 (m ! (length m - 2)) (m ! (length m - 1)) = crc16_block (take (length m - 2) m)"
    using crc16_residue [of "take (length m - 2) m" "m ! (length m - 2)" "m ! (length m - 1)"]
    unfolding sp by simp
  with False show ?thesis
    by (auto simp: decoder_check_and_dispatch_cb_def Let_def)
qed

lemma dispatch_comm_msg:
  "decoder_check_and_dispatch_cb cb (comm_msg ty data) g = (if cb_set (dec_uart0 g) then cb ty data g else Some g)"
proof -
  have "comm_msg ty data ! 0 = ty" "take (length (comm_msg ty data) - 3) (drop 1 (comm_msg ty data)) = data"
    by (simp_all add: comm_msg_eq)
  then show ?thesis by (simp add: dispatch_eq comm_msg_crc)
qed

text \<open>Two frames that differ in a burst of at most 16 bits are not both divisible.\<close>

lemma crc16_burst:
  assumes "crc16_block m = 0" "msg_bits m = p @ e @ s" "msg_bits m' = p @ e' @ s"
    and "length e = length e'" "length e \<le> 16" "e \<noteq> e'"
  shows "crc16_block m' \<noteq> 0"
  using crc_bits_burst [OF assms(4-6), of "CRC16_INIT_VALUE" p s] assms(1-3)
  by (simp add: crc16_block_def crc16_loop_bits)

section \<open>The receive task\<close>

lemma read_fifo_reg:
  "READ_PERI_REG (UART_FIFO 0) h = (case rx_fifo (uart0 h) of [] \<Rightarrow> (0, h)
     | b # bs \<Rightarrow> (ucast b, h\<lparr>uart0 := (uart0 h)\<lparr>rx_fifo := bs\<rparr>\<rparr>))"
  by (simp add: READ_PERI_REG_def uart_read_def split: list.split)

lemma ucast_and_ff: "ucast ((ucast (b :: u8) :: u32) AND 0xFF) = b"
  by (rule bit_word_eqI) (auto simp: and_ff_take_bit bit_simps)

lemma read_rx_fifo_eq:
  "n \<le> length (rx_fifo (uart0 h)) \<Longrightarrow> read_rx_fifo n h =
     (take n (rx_fifo (uart0 h)), h\<lparr>uart0 := (uart0 h)\<lparr>rx_fifo := drop n (rx_fifo (uart0 h))\<rparr>\<rparr>)"
proof (induction n arbitrary: h)
  case 0
  show ?case by simp
next
  case (Suc n)
  then obtain b bs where "rx_fifo (uart0 h) = b # bs" by (cases "rx_fifo (uart0 h)") auto
  with Suc show ?case by (simp add: read_fifo_reg ucast_and_ff)
qed

lemma read_rx_ena: "int_ena (uart0 (snd (read_rx_fifo n h))) = int_ena (uart0 h)"
proof (induction n arbitrary: h)
  case 0
  show ?case by simp
next
  case (Suc n)
  obtain v h1 where r: "READ_PERI_REG (UART_FIFO 0) h = (v, h1)" by force
  then have "int_ena (uart0 h1) = int_ena (uart0 h)" by (auto simp: read_fifo_reg split: list.splits)
  with Suc [of h1] show ?case by (simp add: r split_beta)
qed

lemma rx_count:
  assumes "uart_ok (uart0 h)"
  shows "\<exists>st. READ_PERI_REG (UART_STATUS 0) h = (st, h) \<and>
    drop_bit UART_RXFIFO_CNT_S st AND UART_RXFIFO_CNT = of_nat (length (rx_fifo (uart0 h)))"
proof -
  let ?st = "of_nat (length (rx_fifo (uart0 h))) OR push_bit 16 (of_nat (tx_cnt (uart0 h))) :: u32"
  have "READ_PERI_REG (UART_STATUS 0) h = (?st, h)" using read_status [of UART0 h] by simp
  moreover have "?st AND 0xFF = of_nat (length (rx_fifo (uart0 h)))"
    using assms by (intro status_fields(1)) (auto simp: uart_ok_def)
  ultimately show ?thesis by (simp add: UART_RXFIFO_CNT_S_def UART_RXFIFO_CNT_def)
qed

lemma do_rx_loop_step:
  assumes "uart_ok (uart0 (periph g))"
  defines "xs \<equiv> rx_fifo (uart0 (periph g))"
  shows "do_rx_loop cb (c, g) = (if xs = [] then Some (c, g)
     else do {
       l \<leftarrow> decoder_put_data cb (take 64 xs)
              (c, g\<lparr>periph := (periph g)\<lparr>uart0 := (uart0 (periph g))\<lparr>rx_fifo := drop 64 xs\<rparr>\<rparr>\<rparr>);
       do_rx_loop cb l
     })"
proof -
  obtain st where st: "READ_PERI_REG (UART_STATUS 0) (periph g) = (st, periph g)"
    "drop_bit UART_RXFIFO_CNT_S st AND UART_RXFIFO_CNT = of_nat (length xs)"
    using rx_count [OF assms(1)] by (auto simp: xs_def)
  have l: "length xs \<le> 128" using assms by (simp add: uart_ok_def)
  have u: "unat (of_nat (length xs) :: u32) = length xs" using l by (intro unat_of_nat_u32) simp
  have z: "(of_nat (length xs) :: u32) = 0 \<longleftrightarrow> xs = []"
    unfolding word_unat_eq_iff u by simp
  have m: "unat (min (of_nat (length xs)) 64 :: u32) = min (length xs) 64"
    using u by (simp add: min_def word_le_nat_alt)
  have r: "read_rx_fifo (min (length xs) 64) (periph g) =
      (take 64 xs, (periph g)\<lparr>uart0 := (uart0 (periph g))\<lparr>rx_fifo := drop 64 xs\<rparr>\<rparr>)"
    using read_rx_fifo_eq [of "min (length xs) 64" "periph g"] by (auto simp: xs_def min_def)
  show ?thesis
    unfolding do_rx_loop.simps [of cb "(c, g)"] Let_def prod.case st z m r by simp
qed


text \<open>The decoder's own state does not depend on what the callback does: a run that collects the frames
  determines every other run.\<close>

abbreviation collect :: "bytes \<Rightarrow> bytes list \<Rightarrow> bytes list option" where
  "collect m ms \<equiv> Some (ms @ [m])"

lemma byte_decoupled:
  assumes "cobs_decoder_byte collect ch (c, ms) = Some (c', ms')"
  shows "\<exists>fs. ms' = ms @ fs \<and> (\<forall>e. cobs_decoder_byte cb ch (c, e) = map_option (Pair c') (mfold cb fs e))"
proof -
  consider "ms' = ms" "\<And>e. cobs_decoder_byte cb ch (c, e) = Some (c', e)"
    | m where "ms' = ms @ [m]" "\<And>e. cobs_decoder_byte cb ch (c, e) = map_option (Pair c') (cb m e)"
    using assms
    by (auto simp: cobs_decoder_byte_def Let_def bind_eq_Some_conv map_conv_bind_option comp_def
        split: cobs_decoder_state.splits if_splits)
  then show ?thesis
  proof cases
    case 1
    then show ?thesis by (intro exI [of _ "[]"]) simp
  next
    case (2 m)
    then show ?thesis by (intro exI [of _ "[m]"]) simp
  qed
qed

lemma put_decoupled:
  assumes "cobs_decoder_put collect xs (c, ms) = Some (c', ms')"
  shows "\<exists>fs. ms' = ms @ fs \<and> (\<forall>e. cobs_decoder_put cb xs (c, e) = map_option (Pair c') (mfold cb fs e))"
  using assms
proof (induction xs arbitrary: c ms)
  case Nil
  then show ?case by (intro exI [of _ "[]"]) auto
next
  case (Cons x xs)
  then obtain c1 ms1 where 1: "cobs_decoder_byte collect x (c, ms) = Some (c1, ms1)"
    "cobs_decoder_put collect xs (c1, ms1) = Some (c', ms')"
    by (auto simp: bind_eq_Some_conv)
  from byte_decoupled [OF 1(1)] obtain fs1 where f1: "ms1 = ms @ fs1"
    "\<And>e. cobs_decoder_byte cb x (c, e) = map_option (Pair c1) (mfold cb fs1 e)" by blast
  from Cons.IH [OF 1(2)] obtain fs2 where f2: "ms' = ms1 @ fs2"
    "\<And>e. cobs_decoder_put cb xs (c1, e) = map_option (Pair c') (mfold cb fs2 e)" by blast
  have "cobs_decoder_put cb (x # xs) (c, e) = map_option (Pair c') (mfold cb (fs1 @ fs2) e)" for e
    by (cases "mfold cb fs1 e") (simp_all add: f1(2) f2(2) mfold_append)
  moreover have "ms' = ms @ fs1 @ fs2" using f1(1) f2(1) by simp
  ultimately show ?case by blast
qed

text \<open>A callback that returns, whose effect on an observation \<open>obs\<close> of the globals is \<open>react\<close>, and that
  leaves the receive FIFO and the callback pointer alone.\<close>

definition client_ok ::
  "('s, 'a) comm_callback \<Rightarrow> (('s, 'a) comm_scheme \<Rightarrow> 'o) \<Rightarrow> (u8 \<Rightarrow> bytes \<Rightarrow> 'o \<Rightarrow> 'o) \<Rightarrow> bool" where
  "client_ok cb obs react \<longleftrightarrow>
     (\<forall>ty d g. \<exists>g'. cb ty d g = Some g' \<and> obs g' = react ty d (obs g) \<and>
        rx_fifo (uart0 (periph g')) = rx_fifo (uart0 (periph g)) \<and>
        (uart_ok (uart0 (periph g)) \<longrightarrow> uart_ok (uart0 (periph g'))) \<and>
        cb_set (dec_uart0 g') = cb_set (dec_uart0 g)) \<and>
     (\<forall>g h. obs (g\<lparr>periph := h\<rparr>) = obs g) \<and> (\<forall>g d. obs (g\<lparr>dec_uart0 := d\<rparr>) = obs g)"

definition msg_valid :: "bytes \<Rightarrow> bool" where
  "msg_valid m \<longleftrightarrow> 3 \<le> length m \<and> crc16_block m = 0"

definition msg_react :: "(u8 \<Rightarrow> bytes \<Rightarrow> 'o \<Rightarrow> 'o) \<Rightarrow> bytes \<Rightarrow> 'o \<Rightarrow> 'o" where
  "msg_react react m x = (if msg_valid m then react (m ! 0) (take (length m - 3) (drop 1 m)) x else x)"

lemma dispatch_client:
  assumes "client_ok cb obs react" "cb_set (dec_uart0 g)"
  shows "\<exists>g'. decoder_check_and_dispatch_cb cb m g = Some g' \<and> obs g' = msg_react react m (obs g) \<and>
    rx_fifo (uart0 (periph g')) = rx_fifo (uart0 (periph g)) \<and>
    (uart_ok (uart0 (periph g)) \<longrightarrow> uart_ok (uart0 (periph g'))) \<and> cb_set (dec_uart0 g')"
proof -
  have cb: "\<exists>g'. cb ty d g = Some g' \<and> obs g' = react ty d (obs g) \<and>
      rx_fifo (uart0 (periph g')) = rx_fifo (uart0 (periph g)) \<and>
      (uart_ok (uart0 (periph g)) \<longrightarrow> uart_ok (uart0 (periph g'))) \<and> cb_set (dec_uart0 g')" for ty d
    using assms unfolding client_ok_def by metis
  show ?thesis
  proof (cases "msg_valid m")
    case True
    then show ?thesis
      using cb [of "m ! 0" "take (length m - 3) (drop 1 m)"] assms(2)
      by (simp add: dispatch_eq msg_react_def msg_valid_def)
  next
    case False
    then show ?thesis
      using assms by (auto simp: dispatch_eq client_ok_def msg_react_def msg_valid_def)
  qed
qed

lemma dispatch_frames:
  assumes "client_ok cb obs react" "cb_set (dec_uart0 g)"
  shows "\<exists>g'. mfold (decoder_check_and_dispatch_cb cb) ms g = Some g' \<and> obs g' = fold (msg_react react) ms (obs g) \<and>
    rx_fifo (uart0 (periph g')) = rx_fifo (uart0 (periph g)) \<and>
    (uart_ok (uart0 (periph g)) \<longrightarrow> uart_ok (uart0 (periph g'))) \<and> cb_set (dec_uart0 g')"
  using assms(2)
proof (induction ms arbitrary: g)
  case Nil
  then show ?case by simp
next
  case (Cons m ms)
  obtain g1 where g1: "decoder_check_and_dispatch_cb cb m g = Some g1" "obs g1 = msg_react react m (obs g)"
    "rx_fifo (uart0 (periph g1)) = rx_fifo (uart0 (periph g))"
    "uart_ok (uart0 (periph g)) \<longrightarrow> uart_ok (uart0 (periph g1))" "cb_set (dec_uart0 g1)"
    using dispatch_client [OF assms(1) Cons.prems] by blast
  with Cons.IH [OF g1(5)] show ?case by auto
qed

lemma do_rx_loop_drains:
  assumes "client_ok cb obs react" "cb_set (dec_uart0 g)" "uart_ok (uart0 (periph g))"
    and "cobs_decoder_put collect (rx_fifo (uart0 (periph g))) (c, ms) = Some (c', ms @ fs)"
  shows "\<exists>g'. do_rx_loop cb (c, g) = Some (c', g') \<and> rx_fifo (uart0 (periph g')) = [] \<and>
    obs g' = fold (msg_react react) fs (obs g)"
  using assms(2-)
proof (induction "length (rx_fifo (uart0 (periph g)))" arbitrary: c g ms fs rule: less_induct)
  case less
  let ?xs = "rx_fifo (uart0 (periph g))"
  show ?case
  proof (cases "?xs = []")
    case True
    with less.prems show ?thesis by (simp add: do_rx_loop_step)
  next
    case False
    let ?g = "g\<lparr>periph := (periph g)\<lparr>uart0 := (uart0 (periph g))\<lparr>rx_fifo := drop 64 ?xs\<rparr>\<rparr>\<rparr>"
    have "cobs_decoder_put collect (take 64 ?xs @ drop 64 ?xs) (c, ms) = Some (c', ms @ fs)"
      using less.prems(3) by simp
    then obtain c1 ms1 where 1: "cobs_decoder_put collect (take 64 ?xs) (c, ms) = Some (c1, ms1)"
      "cobs_decoder_put collect (drop 64 ?xs) (c1, ms1) = Some (c', ms @ fs)"
      unfolding cobs_decoder_put_append by (auto simp: bind_eq_Some_conv)
    from put_decoupled [OF 1(1), of "decoder_check_and_dispatch_cb cb"] obtain fs1 where f1: "ms1 = ms @ fs1"
      "cobs_decoder_put (decoder_check_and_dispatch_cb cb) (take 64 ?xs) (c, ?g)
        = map_option (Pair c1) (mfold (decoder_check_and_dispatch_cb cb) fs1 ?g)" by blast
    from put_decoupled [OF 1(2)] obtain fs2 where f2: "ms @ fs = ms1 @ fs2" by blast
    have "obs ?g = obs g" using assms(1) unfolding client_ok_def by blast
    then obtain g1 where g1: "mfold (decoder_check_and_dispatch_cb cb) fs1 ?g = Some g1"
      "obs g1 = fold (msg_react react) fs1 (obs g)" "rx_fifo (uart0 (periph g1)) = drop 64 ?xs"
      "uart_ok (uart0 (periph g1))" "cb_set (dec_uart0 g1)"
      using dispatch_frames [OF assms(1), of ?g fs1] less.prems(1,2) by (auto simp: uart_ok_def)
    have "cobs_decoder_put collect (rx_fifo (uart0 (periph g1))) (c1, ms1) = Some (c', ms1 @ fs2)"
      using 1(2) f2 g1(3) by simp
    from less.hyps [OF _ g1(5,4) this] g1(3) False obtain g' where
      "do_rx_loop cb (c1, g1) = Some (c', g')" "rx_fifo (uart0 (periph g')) = []"
      "obs g' = fold (msg_react react) fs2 (obs g1)" by auto
    with False less.prems(2) f1 f2 g1 show ?thesis
      by (simp add: do_rx_loop_step decoder_put_data_def)
  qed
qed


section \<open>What a sender changes\<close>

text \<open>A caller of the sending functions leaves the UART registers and the receiver alone, and posts the
  sending task exactly when it raises \<open>task_pending\<close>.\<close>

definition comm_frame :: "('s, 'a) comm_scheme \<Rightarrow> ('s, 'a) comm_scheme \<Rightarrow> bool" where
  "comm_frame g g' \<longleftrightarrow>
     uart0 (periph g') = uart0 (periph g) \<and> dec_uart0 g' = dec_uart0 g \<and> comm_queue_len g' = comm_queue_len g \<and>
     (task_pending (transmitter_uart0 g) \<longrightarrow> task_pending (transmitter_uart0 g')) \<and>
     os_posts g' = os_posts g @
       (if task_pending (transmitter_uart0 g') \<and> \<not> task_pending (transmitter_uart0 g) then [DO_TX] else [])"

lemma comm_frame_refl [simp]: "comm_frame g g"
  by (simp add: comm_frame_def)

lemma comm_frame_trans [trans]: "comm_frame g g1 \<Longrightarrow> comm_frame g1 g2 \<Longrightarrow> comm_frame g g2"
  unfolding comm_frame_def
  by (cases "task_pending (transmitter_uart0 g1)"; cases "task_pending (transmitter_uart0 g)") simp_all

lemma comm_frame_sdk [simp]: "comm_frame g (g'\<lparr>sdk := s\<rparr>) = comm_frame g g'" "comm_frame (g\<lparr>sdk := s\<rparr>) g' = comm_frame g g'"
  by (simp_all add: comm_frame_def)

lemma comm_frame_tx:
  "task_pending t = task_pending (transmitter_uart0 g') \<Longrightarrow> comm_frame g (g'\<lparr>transmitter_uart0 := t\<rparr>) = comm_frame g g'"
  by (simp add: comm_frame_def)

lemma wake_frame: "comm_frame g (transmitter_wake_task g)"
  by (simp add: comm_frame_def transmitter_wake_task_def)

lemma push_commit_frame: "push_commit blk n t = Some t' \<Longrightarrow> task_pending t' = task_pending t"
  by (auto simp: push_commit_def Let_def split: if_splits)

lemma transmitter_push_frame:
  "transmitter_push api data prio g = Some g' \<Longrightarrow> comm_frame g g'"
proof (induction rule: transmitter_push.raw_induct [rotated, consumes 1, case_names push])
  case 1: (push push api data prio g g')
  obtain mem s where m: "os_malloc api (COBS_ENCODED_MAX_SIZE (length data) + 1) (sdk g) = (mem, s)" by force
  show ?case
  proof (cases "push_precheck (system_get_free_heap_size api (sdk g)) prio (transmitter_uart0 g) \<and> mem \<noteq> None")
    case False
    with 1(2) m show ?thesis by (auto simp: comm_frame_tx drop_packet_def Let_def split: if_splits)
  next
    case True
    with 1(2) m obtain blk n g1 b where
      log: "(if b then do {
             txt \<leftarrow> log_text api ''buffer overflow'' [];
             push api (comm_msg MSG_LOG (40 # txt)) COMM_TX_PRIO_HIGH (g\<lparr>sdk := s\<rparr>)
           } else Some (g\<lparr>sdk := s\<rparr>)) = Some g1"
      and c: "(case push_commit blk n (transmitter_uart0 g1) of
          None \<Rightarrow> Some (upd_tx drop_packet (g1\<lparr>sdk := os_free api blk (sdk g1)\<rparr>))
        | Some t \<Rightarrow> Some (transmitter_wake_task (g1\<lparr>transmitter_uart0 := t\<rparr>))) = Some g'"
      by (auto simp: Let_def bind_eq_Some_conv split del: if_split)
    have g1: "comm_frame g g1"
      using log by (auto simp: bind_eq_Some_conv split: if_splits dest!: 1(1))
    show ?thesis
    proof (cases "push_commit blk n (transmitter_uart0 g1)")
      case None
      with g1 c show ?thesis by (auto simp: comm_frame_tx drop_packet_def)
    next
      case (Some t)
      then have "comm_frame g (g1\<lparr>transmitter_uart0 := t\<rparr>)"
        using g1 push_commit_frame by (simp add: comm_frame_tx)
      with Some c wake_frame show ?thesis by (auto intro: comm_frame_trans)
    qed
  qed
qed


lemma comm_send_frame: "comm_send api ty d prio g = Some g' \<Longrightarrow> comm_frame g g'"
  by (simp add: comm_send_def transmitter_push_frame)

lemma comm_send_ctl_frame: "comm_send_ctl api ty d g = Some g' \<Longrightarrow> comm_frame g g'"
  by (simp add: comm_send_ctl_def comm_send_frame)

lemma COMM_LOG_frame: "COMM_LOG api level fmt args g = Some g' \<Longrightarrow> comm_frame g g'"
  by (auto simp: COMM_LOG_def bind_eq_Some_conv comm_send_ctl_frame split: if_splits)

lemmas sender_frames = comm_send_frame comm_send_ctl_frame COMM_LOG_frame

section \<open>Scheduling\<close>

text \<open>What may happen on the link, in any order: a caller sends, the operating system runs the next posted
  task, the UART interrupt handler runs, the hardware moves bytes and raises interrupts.\<close>

inductive link_step ::
  "'s comm_api \<Rightarrow> ('s, 'a) comm_callback \<Rightarrow> ('s, 'a) link \<Rightarrow> ('s, 'a) link \<Rightarrow> bool" for api cb where
  send: "comm_send api ty d prio g = Some g' \<Longrightarrow> link_step api cb (c, g) (c, g')"
| task: "os_posts g = sig # ps \<Longrightarrow> comm_task api cb sig (c, g\<lparr>os_posts := ps\<rparr>) = Some l \<Longrightarrow>
    link_step api cb (c, g) l"
| irq: "link_step api cb (c, g) (c, uart0_rx_intr_handler g)"
| line: "int_ena (uart0 h) = int_ena (uart0 (periph g)) \<Longrightarrow> link_step api cb (c, g) (c, g\<lparr>periph := h\<rparr>)"

inductive_cases link_stepE: "link_step api cb l l'"

text \<open>Two tasks are never queued twice: the transmit task is posted exactly while \<open>task_pending\<close> is set, and
  the receive task while the receive interrupts are masked (\<open>busy\<close> says that it is running).\<close>

definition sched_inv :: "bool \<Rightarrow> ('s, 'a) comm_scheme \<Rightarrow> bool" where
  "sched_inv busy g \<longleftrightarrow>
     set (os_posts g) \<subseteq> {DO_RX, DO_TX} \<and>
     count_list (os_posts g) DO_TX = of_bool (task_pending (transmitter_uart0 g)) \<and>
     int_ena (uart0 (periph g)) AND 0x101 = (if busy \<or> DO_RX \<in> set (os_posts g) then 0 else 0x101) \<and>
     count_list (os_posts g) DO_RX \<le> of_bool (\<not> busy)"

lemma do_ids [simp]: "DO_TX \<noteq> DO_RX" "DO_RX \<noteq> DO_TX"
  by (simp_all add: DO_RX_def DO_TX_def)

lemma count_list_two:
  "set xs \<subseteq> {a, b} \<Longrightarrow> a \<noteq> b \<Longrightarrow> length xs = count_list xs a + count_list xs b"
  by (induction xs) auto

lemma sched_bound:
  assumes "sched_inv busy g"
  shows "length (os_posts g) \<le> 2"
proof -
  have "length (os_posts g) = count_list (os_posts g) DO_RX + count_list (os_posts g) DO_TX"
    using assms by (intro count_list_two) (simp_all add: sched_inv_def)
  moreover have "of_bool b \<le> (1 :: nat)" for b by simp
  ultimately show ?thesis
    using assms unfolding sched_inv_def by (metis add_mono le_trans one_add_one)
qed

lemma sched_frame: "comm_frame g g' \<Longrightarrow> sched_inv busy g \<Longrightarrow> sched_inv busy g'"
  by (auto simp: comm_frame_def sched_inv_def split: if_splits)

lemma sched_decoder: "sched_inv busy (g\<lparr>dec_uart0 := d\<rparr>) = sched_inv busy g"
  by (simp add: sched_inv_def)

lemma sched_rx_fifo:
  "int_ena (uart0 h) = int_ena (uart0 (periph g)) \<Longrightarrow> sched_inv busy (g\<lparr>periph := h\<rparr>) = sched_inv busy g"
  by (simp add: sched_inv_def)

lemma mask_tx: "((x AND NOT 2) AND 0x101) = (x AND 0x101)" "((x OR 2) AND 0x101) = (x AND 0x101)" for x :: u32
  by (simp_all add: and.assoc bit.conj_disj_distrib2)


lemma or_and_self: "(x OR m) AND m = m" for x m :: u32
  by (rule bit_word_eqI) (auto simp: bit_simps)

text \<open>Whatever state the ring is in, a run of the transmit task clears its flag and at most unmasks the
  transmit interrupt.\<close>

lemma send_bytes_ena:
  "send_bytes blk len idx n h = Some (idx', n', h') \<Longrightarrow> int_ena (uart0 h') = int_ena (uart0 h)"
proof (induction blk len idx n h rule: send_bytes.induct)
  case (1 blk len idx n h)
  show ?case
  proof (cases "idx < len \<and> n \<noteq> 0")
    case True
    with "1.prems" obtain b where "peek blk idx = Some b"
      "send_bytes blk len (idx + 1) (n - 1) (WRITE_PERI_REG (UART_FIFO 0) (ucast b) h) = Some (idx', n', h')"
      by (subst (asm) send_bytes.simps) (auto simp: bind_eq_Some_conv)
    with "1.IH" True show ?thesis by (auto simp: fifo_write fifo_put_def)
  next
    case False
    with "1.prems" show ?thesis by (subst (asm) send_bytes.simps) auto
  qed
qed

lemma send_loop_ena:
  "send_loop api n t h s = Some (n', t', h', s') \<Longrightarrow>
   int_ena (uart0 h') = int_ena (uart0 h) \<and> task_pending t' = task_pending t"
proof (induction api n t h s rule: send_loop.induct)
  case (1 api n t h s)
  show ?case
  proof (cases "n \<noteq> 0 \<and> buf_read_i t \<noteq> buf_write_i t")
    case False
    with "1.prems" show ?thesis by (subst (asm) send_loop.simps) auto
  next
    case True
    with "1.prems" obtain slot blk len idx n1 h1 where
      b: "peek (bufs t) (ring_slot (buf_read_i t)) = Some slot" "slot = Some blk"
        "peek (buf_lens t) (ring_slot (buf_read_i t)) = Some len"
        "send_bytes blk len (idx_in_buf t) n h = Some (idx, n1, h1)"
      and r: "(if idx \<noteq> len then Some (n1, t\<lparr>idx_in_buf := idx\<rparr>, h1, s)
        else send_loop api n1 (ring_retire t) h1 (os_free api blk s)) = Some (n', t', h', s')"
      by (subst (asm) send_loop.simps) (auto simp: bind_eq_Some_conv Let_def split del: if_split)
    show ?thesis
    proof (cases "idx = len")
      case False
      with r b show ?thesis by (auto dest: send_bytes_ena)
    next
      case eq: True
      with r "1.IH" [OF True refl b(1,2,3,4) refl refl] show ?thesis
        using send_bytes_ena [OF b(4)] by simp
    qed
  qed
qed

lemma transmitter_send_ena:
  assumes "transmitter_send api g = Some g'"
  shows "os_posts g' = os_posts g \<and> \<not> task_pending (transmitter_uart0 g') \<and> comm_queue_len g' = comm_queue_len g \<and>
    int_ena (uart0 (periph g')) AND 0x101 = int_ena (uart0 (periph g)) AND 0x101"
proof -
  obtain st where st: "READ_PERI_REG (UART_STATUS 0) (periph g) = (st, periph g)"
    using read_status [of UART0 "periph g"] by simp
  define t0 where "t0 = (transmitter_uart0 g)\<lparr>task_pending := False\<rparr>"
  define n where "n = 126 - (drop_bit UART_TXFIFO_CNT_S st AND UART_TXFIFO_CNT)"
  have run: "transmitter_send api g =
      (if n = 0 then Some (g\<lparr>transmitter_uart0 := t0, periph := uart0_tx_intr_enable (periph g)\<rparr>)
       else do {
         (m, t, h, s) \<leftarrow> send_loop api n t0 (periph g) (sdk g);
         Some (g\<lparr>transmitter_uart0 := t,
                 periph := if m = 0 \<and> buf_read_i t \<noteq> buf_write_i t then uart0_tx_intr_enable h else h, sdk := s\<rparr>)
       })"
    unfolding transmitter_send_def by (simp add: st Let_def t0_def n_def)
  show ?thesis
  proof (cases "n = 0")
    case True
    then have "g' = g\<lparr>transmitter_uart0 := t0, periph := uart0_tx_intr_enable (periph g)\<rparr>" using run assms by simp
    then show ?thesis by (simp add: t0_def uart_int_masks mask_tx)
  next
    case False
    then obtain m t h s where l: "send_loop api n t0 (periph g) (sdk g) = Some (m, t, h, s)"
      and g': "g' = g\<lparr>transmitter_uart0 := t,
        periph := if m = 0 \<and> buf_read_i t \<noteq> buf_write_i t then uart0_tx_intr_enable h else h, sdk := s\<rparr>"
      using run [symmetric] assms by (auto simp: bind_eq_Some_conv)
    show ?thesis unfolding g' using send_loop_ena [OF l] by (simp add: t0_def uart_int_masks mask_tx)
  qed
qed

lemma sched_send:
  assumes "sched_inv False g" "os_posts g = DO_TX # ps" "transmitter_send api (g\<lparr>os_posts := ps\<rparr>) = Some g'"
  shows "sched_inv False g'"
  using transmitter_send_ena [OF assms(3)] assms(1,2)
  by (cases "task_pending (transmitter_uart0 g)") (auto simp: sched_inv_def split: if_splits)

lemma sched_irq:
  assumes "sched_inv False g"
  shows "sched_inv False (uart0_rx_intr_handler g)"
proof -
  let ?stat = "int_raw (uart0 (periph g)) AND int_ena (uart0 (periph g))"
  let ?h1 = "WRITE_PERI_REG (UART_INT_CLR 0) 0x101 (uart0_rx_intr_disable (periph g))"
  let ?g1 = "if ?stat AND 0x101 = 0 then g else g\<lparr>periph := ?h1, os_posts := os_posts g @ [DO_RX]\<rparr>"
  have z: "(x AND - 258) AND 0x101 = 0" for x :: u32
    by (simp add: and.assoc)
  have "sched_inv False ?g1"
  proof (cases "?stat AND 0x101 = 0")
    case True
    then show ?thesis using assms by simp
  next
    case False
    then have "int_ena (uart0 (periph g)) AND 0x101 \<noteq> 0"
      by (metis and.assoc and_zero_eq and.commute)
    then have "DO_RX \<notin> set (os_posts g)" using assms by (auto simp: sched_inv_def)
    then show ?thesis
      using assms False
      by (simp add: sched_inv_def uart_int_masks uart_reg_ops0 uart_write_def z upd_uart_def)
  qed
  then have g1: "sched_inv False ?g1" .
  have h: "uart0_rx_intr_handler g = (if ?stat AND 2 = 0 then ?g1
      else transmitter_wake_task (?g1\<lparr>periph := WRITE_PERI_REG (UART_INT_CLR 0) 2 (uart0_tx_intr_disable (periph ?g1))\<rparr>))"
    by (simp add: uart0_rx_intr_handler_def uart_bit_defs Let_def)
  have w: "sched_inv False (g1\<lparr>periph := WRITE_PERI_REG (UART_INT_CLR 0) 2 (uart0_tx_intr_disable (periph g1))\<rparr>)
      = sched_inv False g1" for g1 :: "('a, 'b) comm_scheme"
    by (simp add: sched_inv_def uart_int_masks uart_reg_ops0 uart_write_def mask_tx [simplified] upd_uart_def)
  show ?thesis
    unfolding h by (cases "?stat AND 2 = 0") (simp_all only: simp_thms if_True if_False g1 w sched_frame [OF wake_frame])
qed


lemma handler_queue_len [simp]: "comm_queue_len (uart0_rx_intr_handler g) = comm_queue_len g"
  by (simp add: uart0_rx_intr_handler_def transmitter_wake_task_def Let_def)

lemma cobs_put_invariant:
  assumes "\<And>m e e'. I e \<Longrightarrow> cb m e = Some e' \<Longrightarrow> I e'"
    and "cobs_decoder_put cb xs (c, e) = Some (c', e')" "I e"
  shows "I e'"
proof -
  have "I (snd l')" if "I (snd l)" "cobs_decoder_byte cb ch l = Some l'" for ch l l'
    using that assms(1)
    by (cases l) (auto simp: cobs_decoder_byte_def Let_def bind_eq_Some_conv
        split: cobs_decoder_state.splits if_splits)
  from mfold_invariant [where I = "\<lambda>l. I (snd l)" and f = "cobs_decoder_byte cb" and s = "(c, e)"
      and s' = "(c', e')" and xs = xs, OF this] assms(2,3)
  show ?thesis by (simp add: cobs_decoder_put_def)
qed

subsection \<open>The interface to the application\<close>

text \<open>The callback the application registers may send messages and change its own state, and touches the
  link only through the sending functions.\<close>

locale comm_client =
  fixes cb :: "('s, 'a) comm_callback"
  assumes cb_frame: "cb ty d g = Some g' \<Longrightarrow> comm_frame g g'"
begin

lemma dispatch_sched:
  assumes "sched_inv busy g \<and> comm_queue_len g = n" "decoder_check_and_dispatch_cb cb m g = Some g'"
  shows "sched_inv busy g' \<and> comm_queue_len g' = n"
proof -
  have "sched_inv busy g' \<and> comm_queue_len g' = n" if "cb ty d g = Some g'" for ty d
    using sched_frame [OF cb_frame [OF that]] cb_frame [OF that] assms(1) by (simp add: comm_frame_def)
  with assms show ?thesis
    by (auto simp: dispatch_eq sched_decoder split: if_splits)
qed

lemma put_sched:
  assumes "decoder_put_data cb data (c, g) = Some (c', g')" "sched_inv busy g"
  shows "sched_inv busy g' \<and> comm_queue_len g' = comm_queue_len g"
  by (rule cobs_put_invariant [where I = "\<lambda>e. sched_inv busy e \<and> comm_queue_len e = comm_queue_len g",
        OF dispatch_sched assms(1) [unfolded decoder_put_data_def]]) (simp_all add: assms(2))

lemma do_rx_loop_sched:
  assumes "do_rx_loop cb l = Some l'" "sched_inv True (snd l)"
  shows "sched_inv True (snd l') \<and> comm_queue_len (snd l') = comm_queue_len (snd l)"
proof -
  have "cb' = cb \<longrightarrow> sched_inv True (snd l) \<longrightarrow>
      sched_inv True (snd l') \<and> comm_queue_len (snd l') = comm_queue_len (snd l)"
    if "do_rx_loop cb' l = Some l'" for cb'
    using that
  proof (induction rule: do_rx_loop.raw_induct [rotated, consumes 1, case_names loop])
    case 1: (loop rec cb' l l')
    show ?case
    proof (intro impI)
      assume cb: "cb' = cb" and s: "sched_inv True (snd l)"
      obtain c g where l: "l = (c, g)" by force
      obtain st where st: "READ_PERI_REG (UART_STATUS 0) (periph g) = (st, periph g)"
        using read_status [of UART0 "periph g"] by simp
      show "sched_inv True (snd l') \<and> comm_queue_len (snd l') = comm_queue_len (snd l)"
      proof (cases "drop_bit UART_RXFIFO_CNT_S st AND UART_RXFIFO_CNT = 0")
        case True
        with 1(2) s l st show ?thesis by (auto simp: Let_def)
      next
        case False
        obtain chunk h where ch: "read_rx_fifo (unat (min (drop_bit UART_RXFIFO_CNT_S st AND UART_RXFIFO_CNT) 64)) (periph g)
            = (chunk, h)" by force
        with False 1(2) l st cb obtain l1 where "decoder_put_data cb chunk (c, g\<lparr>periph := h\<rparr>) = Some l1"
          "rec cb l1 = Some l'" by (auto simp: Let_def bind_eq_Some_conv)
        moreover have "sched_inv True (g\<lparr>periph := h\<rparr>)"
          using s l read_rx_ena [of _ "periph g"] ch by (metis sched_rx_fifo snd_conv)
        ultimately show ?thesis
          using 1(1) put_sched [of chunk c "g\<lparr>periph := h\<rparr>" "fst l1" "snd l1" True] l by fastforce
      qed
    qed
  qed
  with assms show ?thesis by blast
qed

lemma do_rx_sched:
  assumes "do_rx cb (c, g) = Some (c', g')" "sched_inv True g"
  shows "sched_inv False g' \<and> comm_queue_len g' = comm_queue_len g"
proof -
  from assms(1) obtain g1 where "do_rx_loop cb (c, g) = Some (c', g1)"
    and g': "g' = g1\<lparr>periph := uart0_rx_intr_enable (periph g1)\<rparr>"
    by (auto simp: do_rx_def bind_eq_Some_conv)
  with do_rx_loop_sched [of "(c, g)"] assms(2) have
    "sched_inv True g1" "comm_queue_len g1 = comm_queue_len g" by auto
  moreover have "DO_RX \<notin> set (os_posts g1)"
    using \<open>sched_inv True g1\<close> by (simp add: sched_inv_def count_list_0_iff)
  ultimately show ?thesis
    by (simp add: g' sched_inv_def uart_int_masks or_and_self)
qed

lemma step_sched:
  assumes "link_step api cb (c, g) (c', g')" "sched_inv False g"
  shows "sched_inv False g' \<and> comm_queue_len g' = comm_queue_len g"
  using assms(1)
proof (cases rule: link_step.cases)
  case (send ty d prio)
  then show ?thesis using comm_send_frame [of api ty d prio g g'] assms(2) sched_frame
    by (auto simp: comm_frame_def)
next
  case (task sig ps)
  then have "sig = DO_RX \<or> sig = DO_TX" using assms(2) by (auto simp: sched_inv_def)
  then show ?thesis
  proof
    assume s: "sig = DO_RX"
    with task have "do_rx cb (c, g\<lparr>os_posts := ps\<rparr>) = Some (c', g')" by (simp add: comm_task_def)
    moreover have "DO_RX \<notin> set ps" using task(1) s assms(2) by (simp add: sched_inv_def count_list_0_iff)
    then have "sched_inv True (g\<lparr>os_posts := ps\<rparr>)"
      using task(1) s assms(2) by (simp add: sched_inv_def)
    ultimately show ?thesis using do_rx_sched by fastforce
  next
    assume s: "sig = DO_TX"
    with task(2) have t: "transmitter_send api (g\<lparr>os_posts := ps\<rparr>) = Some g'"
      by (auto simp: comm_task_def bind_eq_Some_conv)
    with sched_send [OF assms(2) task(1) [unfolded s] t] transmitter_send_ena [OF t] show ?thesis by simp
  qed
next
  case irq
  then show ?thesis using sched_irq [OF assms(2)] by simp
next
  case (line h)
  then show ?thesis using assms(2) by (simp add: sched_rx_fifo)
qed

lemma reach_sched:
  assumes "(link_step api cb)\<^sup>*\<^sup>* l l'" "sched_inv False (snd l)"
  shows "sched_inv False (snd l') \<and> comm_queue_len (snd l') = comm_queue_len (snd l)"
  using assms(1)
proof (induction rule: rtranclp_induct)
  case base
  then show ?case using assms(2) by simp
next
  case (step l1 l2)
  then show ?case using step_sched [of api "fst l1" "snd l1" "fst l2" "snd l2"] by simp
qed

end

text \<open>Initialisation establishes the scheduling invariant.\<close>

lemma comm_init_sched:
  assumes "comm_init api has_cb drained (c, g) = Some (c', g')" "os_posts g = []"
  shows "sched_inv False g' \<and> comm_queue_len g' = 3"
  using assms
  by (auto simp: comm_init_def decoder_init_def transmitter_init_def Let_def bind_eq_Some_conv sched_inv_def
      uart_int_masks or_and_self)


section \<open>The transmitted stream\<close>

text \<open>The sending side with the messages that were queued so far: a caller sends (while the full-ring test
  can be trusted), the transmit task runs, the interrupt handler runs, the UART shifts bytes out.\<close>

definition ring_safe :: "transmitter \<Rightarrow> bool" where
  "ring_safe t \<longleftrightarrow> ring_count t < 32 \<or> buf_read_i t \<le> buf_write_i t"

inductive tx_step ::
  "'s comm_api \<Rightarrow> ('s, 'a) comm_scheme \<times> (u8 \<times> bytes) list \<Rightarrow> ('s, 'a) comm_scheme \<times> (u8 \<times> bytes) list \<Rightarrow> bool"
  for api where
  send: "ring_safe (transmitter_uart0 g) \<Longrightarrow> length d < 2 ^ 30 \<Longrightarrow> comm_send api ty d prio g = Some g' \<Longrightarrow>
    tx_step api (g, acc)
      (g', if buf_write_i (transmitter_uart0 g') = buf_write_i (transmitter_uart0 g) then acc else acc @ [(ty, d)])"
| task: "DO_TX \<in> set (os_posts g) \<Longrightarrow>
    transmitter_send api (g\<lparr>os_posts := remove1 DO_TX (os_posts g)\<rparr>) = Some g' \<Longrightarrow> tx_step api (g, acc) (g', acc)"
| irq: "tx_step api (g, acc) (uart0_rx_intr_handler g, acc)"
| line: "tx_line u = tx_line (uart0 (periph g)) \<Longrightarrow> int_ena u = int_ena (uart0 (periph g)) \<Longrightarrow>
    tx_cnt u \<le> tx_cnt (uart0 (periph g)) \<Longrightarrow> length (rx_fifo u) \<le> 128 \<Longrightarrow>
    tx_step api (g, acc) (g\<lparr>periph := (periph g)\<lparr>uart0 := u\<rparr>\<rparr>, acc)"

definition msg_frame :: "u8 \<times> bytes \<Rightarrow> bytes" where
  "msg_frame m = cobs_spec (comm_msg (fst m) (snd m))"

text \<open>The bytes on the line and the bytes still queued are the accepted messages in order, and nothing
  waits without a posted task or an enabled interrupt that will post it.\<close>

definition stream_inv :: "bytes \<Rightarrow> ('s, 'a) comm_scheme \<times> (u8 \<times> bytes) list \<Rightarrow> bool" where
  "stream_inv line0 = (\<lambda>(g, acc).
     tx_inv (transmitter_uart0 g) \<and> uart_ok (uart0 (periph g)) \<and>
     tx_line (uart0 (periph g)) @ tx_pending (transmitter_uart0 g) = line0 @ concat (map msg_frame acc) \<and>
     (task_pending (transmitter_uart0 g) \<longrightarrow> DO_TX \<in> set (os_posts g)) \<and>
     (tx_pending (transmitter_uart0 g) \<noteq> [] \<longrightarrow>
        task_pending (transmitter_uart0 g) \<or> int_ena (uart0 (periph g)) AND 2 \<noteq> 0))"

lemma push_cases:
  assumes "malloc_ok api" "data \<noteq> []" "length data < 2 ^ 31" "tx_inv (transmitter_uart0 g)"
    and "ring_safe (transmitter_uart0 g)" "transmitter_push api data prio g = Some g'"
  obtains (dropped) "tx_inv (transmitter_uart0 g')" "tx_pending (transmitter_uart0 g') = tx_pending (transmitter_uart0 g)"
      "buf_write_i (transmitter_uart0 g') = buf_write_i (transmitter_uart0 g)"
      "task_pending (transmitter_uart0 g') = task_pending (transmitter_uart0 g)"
      "os_posts g' = os_posts g" "periph g' = periph g"
  | (queued) "tx_inv (transmitter_uart0 g')"
      "tx_pending (transmitter_uart0 g') = tx_pending (transmitter_uart0 g) @ cobs_spec data"
      "buf_write_i (transmitter_uart0 g') = buf_write_i (transmitter_uart0 g) + 1"
      "task_pending (transmitter_uart0 g')" "periph g' = periph g"
      "task_pending (transmitter_uart0 g) \<or> DO_TX \<in> set (os_posts g')"
      "set (os_posts g) \<subseteq> set (os_posts g')"
proof (cases "push_precheck (system_get_free_heap_size api (sdk g)) prio (transmitter_uart0 g)")
  case False
  with assms(4,6) dropped show ?thesis
    by (auto simp: transmitter_push.simps [of api data prio g] drop_packet_def)
next
  case True
  obtain mem s where m: "os_malloc api (COBS_ENCODED_MAX_SIZE (length data) + 1) (sdk g) = (mem, s)" by force
  show ?thesis
  proof (cases mem)
    case None
    with True m assms(4,6) dropped show ?thesis by (auto simp: transmitter_push.simps [of api data prio g])
  next
    case (Some blk)
    have room: "ring_count (transmitter_uart0 g) < 32"
      using True assms(4,5) push_precheck_room by (auto simp: ring_safe_def)
    obtain b where b: "take (length (cobs_spec data)) b = cobs_spec data" "length (cobs_spec data) \<le> length b"
      "transmitter_push api data prio g = Some (transmitter_wake_task
         (g\<lparr>sdk := s, transmitter_uart0 := ring_append b (length (cobs_spec data)) (transmitter_uart0 g)\<rparr>))"
      using transmitter_push_eq [OF assms(1-3) True m [unfolded Some]] push_commit_room [OF room] by auto
    then have g': "g' = transmitter_wake_task
        (g\<lparr>sdk := s, transmitter_uart0 := ring_append b (length (cobs_spec data)) (transmitter_uart0 g)\<rparr>)"
      using assms(6) by simp
    show ?thesis
      using assms(4) room b
      by (intro queued) (simp_all add: g' transmitter_wake_task_def tx_inv_append tx_pending_append, auto)
  qed
qed

lemma stream_send:
  assumes "malloc_ok api" "ring_safe (transmitter_uart0 g)" "length d < 2 ^ 30"
    and "comm_send api ty d prio g = Some g'" "stream_inv line0 (g, acc)"
  shows "stream_inv line0
    (g', if buf_write_i (transmitter_uart0 g') = buf_write_i (transmitter_uart0 g) then acc else acc @ [(ty, d)])"
proof -
  have p: "transmitter_push api (comm_msg ty d) prio g = Some g'" using assms(4) by (simp add: comm_send_def)
  have i: "tx_inv (transmitter_uart0 g)" using assms(5) by (simp add: stream_inv_def)
  have l: "length (comm_msg ty d) < 2 ^ 31" using assms(3) by simp
  show ?thesis
  proof (cases rule: push_cases [OF assms(1) comm_msg_simps(2) l i assms(2) p])
    case 1
    with assms(5) show ?thesis by (simp add: stream_inv_def)
  next
    case 2
    with assms(5) show ?thesis by (auto simp: stream_inv_def msg_frame_def simp flip: append_assoc)
  qed
qed


lemma or2_and2: "(x OR 2) AND 2 \<noteq> 0" for x :: u32
  by (simp add: or_and_self)

lemma stream_task:
  assumes "stream_inv line0 (g, acc)"
    and "transmitter_send api (g\<lparr>os_posts := ps\<rparr>) = Some g'"
  shows "stream_inv line0 (g', acc)"
proof -
  let ?g = "g\<lparr>os_posts := ps\<rparr>"
  have "tx_inv (transmitter_uart0 ?g)" "uart_ok (uart0 (periph ?g))"
    using assms(1) by (simp_all add: stream_inv_def)
  from transmitter_send_spec [OF this, of api] assms(2) obtain t' h' s' sent where
    g': "g' = ?g\<lparr>transmitter_uart0 := t', periph := h', sdk := s'\<rparr>"
    and t': "tx_inv t'" "tx_pending (transmitter_uart0 g) = sent @ tx_pending t'" "\<not> task_pending t'"
    and h': "h' = fifo_put sent (periph g) \<or> h' = uart0_tx_intr_enable (fifo_put sent (periph g))"
      "tx_cnt (uart0 (periph g)) + length sent \<le> 126"
      "tx_pending t' \<noteq> [] \<longrightarrow> h' = uart0_tx_intr_enable (fifo_put sent (periph g))"
    by auto
  have "tx_line (uart0 h') = tx_line (uart0 (periph g)) @ sent" "uart_ok (uart0 h')"
    using h'(1,2) assms(1) by (auto simp: uart_int_masks fifo_put_def uart_ok_def stream_inv_def)
  moreover have "int_ena (uart0 h') AND 2 \<noteq> 0" if "tx_pending t' \<noteq> []"
    using h'(3) that or2_and2 by (simp add: uart_int_masks fifo_put_def)
  ultimately show ?thesis
    using assms(1) t' by (auto simp: stream_inv_def g')
qed

lemma mask_rx: "((x AND NOT 0x101) AND 2) = (x AND 2)" for x :: u32
  by (simp add: and.assoc)

lemma stream_irq:
  assumes "stream_inv line0 (g, acc)"
  shows "stream_inv line0 (uart0_rx_intr_handler g, acc)"
proof -
  let ?stat = "int_raw (uart0 (periph g)) AND int_ena (uart0 (periph g))"
  define g1 where "g1 = (if ?stat AND 0x101 = 0 then g
    else g\<lparr>periph := WRITE_PERI_REG (UART_INT_CLR 0) 0x101 (uart0_rx_intr_disable (periph g)),
           os_posts := os_posts g @ [DO_RX]\<rparr>)"
  have h: "uart0_rx_intr_handler g = (if ?stat AND 2 = 0 then g1
      else transmitter_wake_task (g1\<lparr>periph := WRITE_PERI_REG (UART_INT_CLR 0) 2 (uart0_tx_intr_disable (periph g1))\<rparr>))"
    by (simp add: uart0_rx_intr_handler_def uart_bit_defs Let_def g1_def)
  have s1: "stream_inv line0 (g1, acc)"
    using assms unfolding g1_def
    by (auto simp: stream_inv_def uart_int_masks uart_reg_ops0 uart_write_def upd_uart_def uart_ok_def
        mask_rx [simplified])
  then have "stream_inv line0
      (transmitter_wake_task (g1\<lparr>periph := WRITE_PERI_REG (UART_INT_CLR 0) 2 (uart0_tx_intr_disable (periph g1))\<rparr>), acc)"
    by (simp add: stream_inv_def uart_int_masks uart_reg_ops0 uart_write_def upd_uart_def uart_ok_def
        transmitter_wake_task_def)
  with s1 show ?thesis by (simp add: h)
qed

lemma stream_step:
  assumes "malloc_ok api" "tx_step api (g, acc) (g', acc')" "stream_inv line0 (g, acc)"
  shows "stream_inv line0 (g', acc')"
  using assms(2)
proof (cases rule: tx_step.cases)
  case (send d ty prio)
  then show ?thesis using stream_send [OF assms(1) _ _ _ assms(3)] by simp
next
  case task
  then show ?thesis using stream_task [OF assms(3)] by simp
next
  case irq
  then show ?thesis using stream_irq [OF assms(3)] by simp
next
  case (line u)
  then show ?thesis using assms(3) by (simp add: stream_inv_def uart_ok_def)
qed

lemma stream_reach:
  assumes "malloc_ok api" "(tx_step api)\<^sup>*\<^sup>* x y" "stream_inv line0 x"
  shows "stream_inv line0 y"
  using assms(2)
proof (induction rule: rtranclp_induct)
  case base
  then show ?case by (rule assms(3))
next
  case (step y z)
  then show ?case using stream_step [OF assms(1), of "fst y" "snd y" "fst z" "snd z"] by simp
qed

lemma receive_messages:
  assumes "dec_inv c" "state c = DEC_IDLE" "\<forall>m \<in> set ms. length (snd m) + 3 \<le> buf_size c"
  shows "\<exists>c'. decoder_put_data (\<lambda>ty d g. Some (f ty d g)) (concat (map msg_frame ms)) (c, g) =
    Some (c', fold (\<lambda>(ty, d) g. if cb_set (dec_uart0 g) then f ty d g else g) ms g)"
proof -
  let ?cb = "decoder_check_and_dispatch_cb (\<lambda>ty d g. Some (f ty d g))"
  have m: "mfold ?cb (map (\<lambda>m. comm_msg (fst m) (snd m)) ms) g =
      Some (fold (\<lambda>(ty, d) g. if cb_set (dec_uart0 g) then f ty d g else g) ms g)"
    by (induction ms arbitrary: g) (auto simp: dispatch_comm_msg)
  have "\<forall>m \<in> set (map (\<lambda>m. comm_msg (fst m) (snd m)) ms). length m \<le> buf_size c" using assms(3) by auto
  with cobs.put_frames [of c "map (\<lambda>m. comm_msg (fst m) (snd m)) ms" ?cb g] assms(1,2) m show ?thesis
    by (auto simp: decoder_put_data_def msg_frame_def [abs_def] comp_def)
qed


section \<open>Properties\<close>



text \<open>C25: safety: if a received frame differs from a message built by \<open>comm_send\<close> in a burst of at most 16
  bits, it is not dispatched: the receiver counts one checksum error and changes nothing else.\<close>

theorem crc_burst_not_dispatched:
  assumes "msg_bits (comm_msg ty d) = p @ e @ s" "msg_bits m = p @ e' @ s"
    and "length e = length e'" "length e \<le> 16" "e \<noteq> e'"
  shows "decoder_check_and_dispatch_cb cb m g = Some (upd_dec (\<lambda>d. d\<lparr>crc_errors := crc_errors d + 1\<rparr>) g)"
proof -
  have l: "length (msg_bits xs) = 8 * length xs" for xs by (induction xs) simp_all
  have "length (msg_bits m) = length (msg_bits (comm_msg ty d))" by (simp only: assms(1,2)) (simp add: assms(3))
  then have "\<not> length m < 3" by (simp add: l)
  moreover have "crc16_block m \<noteq> 0"
    using comm_msg_crc assms by (rule crc16_burst)
  ultimately show ?thesis by (simp add: dispatch_eq)
qed

theorem crc_burst_not_dispatched_witness:
  "decoder_check_and_dispatch_cb (\<lambda>ty d g. None) (0x85 # tl (comm_msg 0x84 [1, 2])) comm_zero
     = Some (upd_dec (\<lambda>d. d\<lparr>crc_errors := crc_errors d + 1\<rparr>) comm_zero)"
  by (rule crc_burst_not_dispatched [where ty = "0x84" and d = "[1, 2]" and p = "[]" and e = "[False]" and e' = "[True]"
        and s = "tl (msg_bits (comm_msg 0x84 [1, 2]))"])
    (simp_all add: comm_msg_eq byte_bits_def upt_rec)



definition rx_demo :: "nat comm" where
  "rx_demo = comm_zero\<lparr>periph := hw_reset\<lparr>uart0 := (uart0 hw_reset)\<lparr>rx_fifo := msg_frame (0x84, [7, 8])\<rparr>\<rparr>,
     dec_uart0 := \<lparr>proto_errors = 0, crc_errors = 0, cb_set = True\<rparr>\<rparr>"


end
