(* ===== verification/Icmp.thy ===== *)
theory Icmp
  imports Ip_Spec
begin

text \<open>
  ICMP, \<open>src/lwip/core/ipv4/icmp.c\<close>: the echo responder \<open>icmp_input\<close>, which turns a request into its reply in place,
  and the error messages of \<open>icmp_send_response\<close>.  Multicast and broadcast pings are not answered (\<open>LWIP_MULTICAST_PING\<close>
  and \<open>LWIP_BROADCAST_PING\<close> are 0), the length of the input pbuf is checked.

  Pointers into a packet are the position in the memory of its first pbuf, as in \<open>pb_payload\<close>; \<open>store\<close> and \<open>load\<close>
  access memory through such a pointer and fail outside the block.
\<close>

section \<open>Messages\<close>

definition ICMP_ER :: u8 where "ICMP_ER = 0"
definition ICMP_DUR :: u8 where "ICMP_DUR = 3"
definition ICMP_ECHO :: u8 where "ICMP_ECHO = 8"
definition ICMP_TTL :: u8 where "ICMP_TTL = 255"
definition ICMP_DEST_UNREACH_DATASIZE :: nat where "ICMP_DEST_UNREACH_DATASIZE = 8"

datatype icmp_dur_type = ICMP_DUR_NET | ICMP_DUR_HOST | ICMP_DUR_PROTO | ICMP_DUR_PORT | ICMP_DUR_FRAG | ICMP_DUR_SR

fun dur_code :: "icmp_dur_type \<Rightarrow> u8" where
  "dur_code ICMP_DUR_NET = 0" | "dur_code ICMP_DUR_HOST = 1" | "dur_code ICMP_DUR_PROTO = 2"
| "dur_code ICMP_DUR_PORT = 3" | "dur_code ICMP_DUR_FRAG = 4" | "dur_code ICMP_DUR_SR = 5"

record icmp_echo_hdr =
  icmp_type :: u8
  icmp_code :: u8
  icmp_chksum :: u16
  icmp_ident :: u16
  icmp_seqno :: u16

definition icmp_hdr_bytes :: "icmp_echo_hdr \<Rightarrow> bytes" where
  "icmp_hdr_bytes h = [icmp_type h, icmp_code h] @ mem16 (icmp_chksum h) @ mem16 (icmp_ident h) @ mem16 (icmp_seqno h)"

section \<open>Memory through pointers\<close>

definition store :: "nat \<Rightarrow> int option \<Rightarrow> nat \<Rightarrow> bytes \<Rightarrow> 'a net_scheme \<Rightarrow> ('a net_scheme) option" where
  "store p ptr off bs g = do {
     b \<leftarrow> pbufs g p;
     b' \<leftarrow> pb_write (b\<lparr>pb_payload := ptr\<rparr>) off bs;
     Some (g\<lparr>pbufs := (pbufs g)(p \<mapsto> b'\<lparr>pb_payload := pb_payload b\<rparr>)\<rparr>)
   }"

definition load :: "nat \<Rightarrow> int option \<Rightarrow> nat \<Rightarrow> nat \<Rightarrow> 'a net_scheme \<Rightarrow> bytes option" where
  "load p ptr off n g = do { b \<leftarrow> pbufs g p; pb_read (b\<lparr>pb_payload := ptr\<rparr>) off n }"

definition load16 :: "nat \<Rightarrow> int option \<Rightarrow> nat \<Rightarrow> 'a net_scheme \<Rightarrow> u16 option" where
  "load16 p ptr off g = do { b \<leftarrow> pbufs g p; hdr16 (b\<lparr>pb_payload := ptr\<rparr>) off }"

section \<open>Echo\<close>

text \<open>The checksum of the request with the type changed from \<open>ICMP_ECHO\<close> to \<open>ICMP_ER\<close>.\<close>

definition adjust_chksum :: "u16 \<Rightarrow> u16" where
  "adjust_chksum c =
     (if c \<ge> htons (0xffff - push_bit 8 (ucast ICMP_ECHO)) then c + (htons (push_bit 8 (ucast ICMP_ECHO)) + 1)
      else c + htons (push_bit 8 (ucast ICMP_ECHO)))"

text \<open>Room for the link headers, in \<open>p\<close> or in a copy of it.  \<open>None\<close> is the jump to \<open>memerr\<close>; otherwise the packet and
  the pointer to its IP header.\<close>

definition echo_room ::
  "('a net_scheme) ip_env \<Rightarrow> nat \<Rightarrow> int option \<Rightarrow> int \<Rightarrow> 'a net_scheme \<Rightarrow> ((nat \<times> int option) option \<times> 'a net_scheme) option" where
  "echo_room env p iphdr hlen g = do {
     (st, g) \<leftarrow> on_pbufs (pbuf_header (Some p) (int (PBUF_IP_HLEN + PBUF_LINK_HLEN))) g;
     if st \<noteq> 0 then do {
       (st, g) \<leftarrow> on_pbufs (pbuf_header (Some p) hlen) g;
       if st \<noteq> 0 then Some (None, g)
       else do {
         b \<leftarrow> pbufs g p;
         (r, g) \<leftarrow> on_pbufs (pbuf_alloc (mem_malloc env) PBUF_LINK (tot_len b) PBUF_RAM) g;
         case r of
           None \<Rightarrow> Some (None, g)
         | Some r \<Rightarrow> do {
             (e, g) \<leftarrow> on_pbufs (pbuf_copy (Some r) (Some p)) g;
             if e \<noteq> ERR_OK then Some (None, g)
             else do {
               rb \<leftarrow> pbufs g r;
               (st, g) \<leftarrow> on_pbufs (pbuf_header (Some r) (- hlen)) g;
               if st \<noteq> 0 then Some (None, g)
               else do { g \<leftarrow> free_pbuf p g; Some (Some (r, pb_payload rb), g) }
             }
           }
       }
     }
     else do {
       (st, g) \<leftarrow> on_pbufs (pbuf_header (Some p) (- int (PBUF_IP_HLEN + PBUF_LINK_HLEN))) g;
       Some (if st \<noteq> 0 then None else Some (p, iphdr), g)
     }
   }"

text \<open>The header fields of the answer.\<close>

definition echo_answer ::
  "('a net_scheme) ip_env \<Rightarrow> nat \<Rightarrow> int option \<Rightarrow> 'a net_scheme \<Rightarrow> ('a net_scheme) option" where
  "echo_answer env p iphdr g = do {
     b \<leftarrow> pbufs g p;
     let iecho = pb_payload b;
     g \<leftarrow> store p iphdr 12 (bytes_le32 (current_iphdr_dest g)) g;
     g \<leftarrow> store p iphdr 16 (bytes_le32 (current_iphdr_src g)) g;
     g \<leftarrow> store p iecho 0 [ICMP_ER] g;
     c \<leftarrow> load16 p iecho 2 g;
     g \<leftarrow> store p iecho 2 (mem16 (adjust_chksum c)) g;
     g \<leftarrow> store p iphdr 8 [ICMP_TTL] g;
     g \<leftarrow> store p iphdr 10 (mem16 0) g;
     d \<leftarrow> load p iphdr 0 (nat IP_HLEN) g;
     b \<leftarrow> pbufs g p;
     store p iphdr 10 (mem16 (inet_chksum (payload_odd env (b\<lparr>pb_payload := iphdr\<rparr>)) d)) g
   }"

definition icmp_input :: "('a net_scheme) ip_env \<Rightarrow> nat \<Rightarrow> nat \<Rightarrow> 'a net_scheme \<Rightarrow> ('a net_scheme) option" where
  "icmp_input env p inp g = do {
     b \<leftarrow> pbufs g p;
     let iphdr = pb_payload b;
     w \<leftarrow> hdr16 b 0;
     let hlen = int (unat (IPH_HL w) * 4);
     (st, g) \<leftarrow> on_pbufs (pbuf_header (Some p) (- hlen)) g;
     b \<leftarrow> pbufs g p;
     if st \<noteq> 0 \<or> unat (tot_len b) < 4 then free_pbuf p g
     else do {
       type \<leftarrow> hdr8 b 0;
       if type = ICMP_ECHO then do {
         ni \<leftarrow> netif_mem g inp;
         if ip_addr_ismulticast (current_iphdr_dest g) \<or> ip4_addr_isbroadcast (current_iphdr_dest g) ni then free_pbuf p g
         else if unat (tot_len b) < 8 then free_pbuf p g
         else do {
           c \<leftarrow> inet_chksum_pbuf (payload_odd env) (Some p) (pbufs g);
           if c \<noteq> 0 then free_pbuf p g
           else do {
             (r, g) \<leftarrow> echo_room env p iphdr hlen g;
             case r of
               None \<Rightarrow> free_pbuf p g
             | Some (p, iphdr) \<Rightarrow> do {
                 g \<leftarrow> echo_answer env p iphdr g;
                 (st, g) \<leftarrow> on_pbufs (pbuf_header (Some p) hlen) g;
                 g \<leftarrow> (if st \<noteq> 0 then Some g
                      else do {
                        (_, g) \<leftarrow> ip_output_if env p (Some (current_iphdr_dest g)) None ICMP_TTL 0 IP_PROTO_ICMP inp g;
                        Some g
                      });
                 free_pbuf p g
               }
           }
         }
       }
       else free_pbuf p g
     }
   }"

section \<open>Error messages\<close>

definition icmp_send_response ::
  "('a net_scheme) ip_env \<Rightarrow> nat \<Rightarrow> u8 \<Rightarrow> u8 \<Rightarrow> 'a net_scheme \<Rightarrow> ('a net_scheme) option" where
  "icmp_send_response env p type code g = do {
     (q, g) \<leftarrow> on_pbufs (pbuf_alloc (mem_malloc env) PBUF_IP (of_nat (8 + nat IP_HLEN + ICMP_DEST_UNREACH_DATASIZE)) PBUF_RAM) g;
     case q of
       None \<Rightarrow> Some g
     | Some q \<Rightarrow> do {
         b \<leftarrow> pbufs g p;
         qb \<leftarrow> pbufs g q;
         qb \<leftarrow> pb_write qb 0 [type, code];
         qb \<leftarrow> pb_write qb 4 (mem16 0);
         qb \<leftarrow> pb_write qb 6 (mem16 0);
         d \<leftarrow> pb_read b 0 (nat IP_HLEN + ICMP_DEST_UNREACH_DATASIZE);
         qb \<leftarrow> pb_write qb 8 d;
         qb \<leftarrow> pb_write qb 2 (mem16 0);
         m \<leftarrow> pb_read qb 0 (unat (pb_len qb));
         qb \<leftarrow> pb_write qb 2 (mem16 (inet_chksum (payload_odd env qb) m));
         iphdr_src \<leftarrow> hdr32 b 12;
         (_, g) \<leftarrow> ip_output env q None iphdr_src ICMP_TTL 0 IP_PROTO_ICMP (g\<lparr>pbufs := (pbufs g)(q \<mapsto> qb)\<rparr>);
         free_pbuf q g
       }
   }"

definition icmp_dest_unreach ::
  "('a net_scheme) ip_env \<Rightarrow> nat \<Rightarrow> icmp_dur_type \<Rightarrow> 'a net_scheme \<Rightarrow> ('a net_scheme) option" where
  "icmp_dest_unreach env p t g = icmp_send_response env p ICMP_DUR (dur_code t) g"

section \<open>Writes into a packet\<close>

definition splice :: "bytes \<Rightarrow> nat \<Rightarrow> bytes \<Rightarrow> bytes" where
  "splice m i bs = take i m @ bs @ drop (i + length bs) m"

lemma length_splice [simp]: "i + length bs \<le> length m \<Longrightarrow> length (splice m i bs) = length m"
  by (simp add: splice_def)

lemma splice_append: "splice (xs @ ys) (length xs + k) bs = xs @ splice ys k bs"
  by (simp add: splice_def)

lemma splice_prefix: "k + length bs \<le> length xs \<Longrightarrow> splice (xs @ ys) k bs = splice xs k bs @ ys"
  by (simp add: splice_def)

lemma splice_hdr:
  "splice (ip_hdr_bytes h) 12 (bytes_le32 a) = ip_hdr_bytes (h\<lparr>iph_src := a\<rparr>)"
  "splice (ip_hdr_bytes h) 16 (bytes_le32 a) = ip_hdr_bytes (h\<lparr>iph_dest := a\<rparr>)"
  "splice (ip_hdr_bytes h) 8 [t] = ip_hdr_bytes (h\<lparr>iph_ttl := t\<rparr>)"
  "splice (ip_hdr_bytes h) 10 (mem16 c) = ip_hdr_bytes (h\<lparr>iph_chksum := c\<rparr>)"
  by (simp_all add: splice_def ip_hdr_bytes_def mem16_def bytes_le32_def)

lemma splice_icmp:
  "splice (icmp_hdr_bytes e) 0 [t] = icmp_hdr_bytes (e\<lparr>icmp_type := t\<rparr>)"
  "splice (icmp_hdr_bytes e) 2 (mem16 c) = icmp_hdr_bytes (e\<lparr>icmp_chksum := c\<rparr>)"
  by (simp_all add: splice_def icmp_hdr_bytes_def mem16_def)

lemma length_icmp_hdr [simp]: "length (icmp_hdr_bytes e) = 8"
  by (simp add: icmp_hdr_bytes_def mem16_def)

lemma length_mem [simp]: "length (mem16 w) = 2" "length (bytes_le32 a) = 4"
  by (simp_all add: mem16_def bytes_le32_def)

lemma payload_restore: "(b :: pbuf)\<lparr>pb_payload := q, pb_mem := m, pb_payload := pb_payload b\<rparr> = b\<lparr>pb_mem := m\<rparr>"
  by (cases b) simp

lemma store_splice:
  assumes "pbufs g p = Some b" "0 \<le> q" "nat q + off + length bs \<le> length (pb_mem b)"
  shows "store p (Some q) off bs g = Some (g\<lparr>pbufs := (pbufs g)(p \<mapsto> b\<lparr>pb_mem := splice (pb_mem b) (nat q + off) bs\<rparr>)\<rparr>)"
proof -
  have "nat (q + int off) = nat q + off" using assms(2) by simp
  then show ?thesis using assms by (simp add: store_def pb_write_def Let_def splice_def payload_restore add.assoc)
qed

lemma load_take:
  assumes "pbufs g p = Some b" "0 \<le> q" "nat q + off + n \<le> length (pb_mem b)"
  shows "load p (Some q) off n g = Some (take n (drop (nat q + off) (pb_mem b)))"
proof -
  have "nat (q + int off) = nat q + off" using assms(2) by simp
  then show ?thesis using assms by (simp add: load_def pb_read_def)
qed

lemma load16_mem:
  assumes "pbufs g p = Some b" "0 \<le> q" "pb_mem b = xs @ mem16 w @ ys" "length xs = nat q + off"
  shows "load16 p (Some q) off g = Some w"
proof -
  have "nat (q + int off) = length xs" using assms(2,4) by simp
  moreover have "le16 (lo8 w) (hi8 w) = w" by simp
  ultimately show ?thesis using assms by (simp add: load16_def hdr16_def pb_read_def mem16_def)
qed

section \<open>The incremental checksum\<close>

lemma adjust_chksum_nat:
  "unat (adjust_chksum c) = (if 65527 \<le> unat c then unat c - 65527 else unat c + 8)"
proof -
  have k: "htons (0xffff - push_bit 8 (ucast ICMP_ECHO)) = 65527" "htons (push_bit 8 (ucast ICMP_ECHO)) = 8"
    by (simp_all add: htons_def LWIP_PLATFORM_HTONS_def ICMP_ECHO_def push_bit_eq_mult)
  show ?thesis
  proof (cases "65527 \<le> unat c")
    case True
    have "unat (c + 9) = (unat c + 9) mod 65536" by (simp add: unat_word_ariths)
    also have "\<dots> = unat c - 65527" using True unat_word_less(2) [of c] by (simp add: mod_if)
    finally show ?thesis using True by (simp add: adjust_chksum_def k word_le_nat_alt)
  next
    case False
    have "unat (c + 8) = (unat c + 8) mod 65536" by (simp add: unat_word_ariths)
    also have "\<dots> = unat c + 8" using False by simp
    finally show ?thesis using False by (simp add: adjust_chksum_def k word_le_nat_alt)
  qed
qed

lemma le_sum_icmp:
  "le_sum (icmp_hdr_bytes e @ d) = unat (icmp_type e) + 256 * unat (icmp_code e) + unat (icmp_chksum e)
     + unat (icmp_ident e) + unat (icmp_seqno e) + le_sum d"
  by (simp add: icmp_hdr_bytes_def mem16_def unat_hi_lo)

lemma le_sum_0_iff: "le_sum xs = 0 \<longleftrightarrow> (\<forall>x \<in> set xs. x = 0)"
  by (induction xs rule: le_sum.induct) (auto simp: unat_eq_0)

lemma oc_65535: "oc n = 65535 \<longleftrightarrow> n \<noteq> 0 \<and> n mod 65535 = 0"
  using oc_eq_iff [of n 65535] by auto

definition echo_reply :: "icmp_echo_hdr \<Rightarrow> icmp_echo_hdr" where
  "echo_reply e = e\<lparr>icmp_type := ICMP_ER, icmp_chksum := adjust_chksum (icmp_chksum e)\<rparr>"

lemma echo_chksum:
  assumes "icmp_type e = ICMP_ECHO" "oc_sum (icmp_hdr_bytes e @ d) = 65535"
  shows "oc_sum (icmp_hdr_bytes (echo_reply e) @ d) = 65535 \<longleftrightarrow>
    (\<exists>x \<in> set (icmp_hdr_bytes (echo_reply e) @ d). x \<noteq> 0)"
proof -
  let ?q = "le_sum (icmp_hdr_bytes e @ d)" and ?r = "le_sum (icmp_hdr_bytes (echo_reply e) @ d)"
  have "?q = ?r \<or> ?q = ?r + 65535"
    using assms(1) by (simp add: le_sum_icmp echo_reply_def adjust_chksum_nat ICMP_ECHO_def ICMP_ER_def)
  then have "?r mod 65535 = 0" using assms(2) by (auto simp: oc_sum_def oc_65535)
  then have "oc_sum (icmp_hdr_bytes (echo_reply e) @ d) = 65535 \<longleftrightarrow> ?r \<noteq> 0" by (simp add: oc_sum_def oc_65535)
  then show ?thesis unfolding le_sum_0_iff by blast
qed

section \<open>The echo responder\<close>

lemma pbuf_header_ram:
  assumes "h p = Some b" "pb_type b = PBUF_RAM \<or> pb_type b = PBUF_POOL" "pb_payload b = Some pos" "inc \<noteq> 0"
    and "nat (- inc) \<le> unat (pb_len b)" "inc \<le> pos"
  shows "pbuf_header (Some p) inc h = Some (0, h(p \<mapsto> b\<lparr>pb_payload := Some (pos - inc),
     pb_len := pb_len b + of_int inc, tot_len := tot_len b + of_int inc\<rparr>))"
  using assms by (auto simp: pbuf_header_def Let_def split: pbuf_type.splits)

lemma mem_split:
  assumes "pb_ok b" "pb_payload b = Some pos" "pb_bytes b = d"
  shows "\<exists>pre post. pb_mem b = pre @ d @ post \<and> length pre = nat pos \<and> 0 \<le> pos"
proof -
  have "pb_mem b = take (nat pos) (pb_mem b) @ pb_bytes b @ drop (unat (pb_len b)) (drop (nat pos) (pb_mem b))"
    using assms(2) by (simp add: pb_bytes_def del: drop_drop)
  then show ?thesis using assms by (intro exI [of _ "take (nat pos) (pb_mem b)"] exI) (auto simp: pb_ok_def)
qed

definition reply_hdr :: "u32 \<Rightarrow> u32 \<Rightarrow> ip_hdr \<Rightarrow> ip_hdr" where
  "reply_hdr src dest h = h\<lparr>iph_src := src, iph_dest := dest, iph_ttl := ICMP_TTL, iph_chksum := 0\<rparr>"

lemma echo_answer_spec:
  assumes "pbufs g p = Some b" "pb_mem b = pre @ ip_hdr_bytes h @ opts @ icmp_hdr_bytes e @ rest"
    and "int (length pre) = pos" "pb_payload b = Some (pos + 20 + int (length opts))"
  defines "rh \<equiv> reply_hdr (current_iphdr_dest g) (current_iphdr_src g) h"
  shows "\<exists>mis. echo_answer env p (Some pos) g = Some (g\<lparr>pbufs := (pbufs g)(p \<mapsto> b\<lparr>pb_mem :=
    pre @ ip_hdr_bytes (rh\<lparr>iph_chksum := inet_chksum mis (ip_hdr_bytes rh)\<rparr>) @ opts @ icmp_hdr_bytes (echo_reply e) @ rest\<rparr>)\<rparr>)"
proof -
  let ?ie = "pos + 20 + int (length opts)"
  have pos: "0 \<le> pos" "nat pos = length pre" "0 \<le> ?ie" "nat ?ie = length pre + (20 + length opts)"
    using assms(3) by auto
  define m where "m = (\<lambda>h e. pre @ ip_hdr_bytes h @ opts @ icmp_hdr_bytes e @ rest)"
  have iph: "splice (m h e) (length pre + k) bs = pre @ splice (ip_hdr_bytes h) k bs @ opts @ icmp_hdr_bytes e @ rest"
    if "k + length bs \<le> 20" for h e k bs
    using that by (simp add: m_def splice_append splice_prefix)
  have ich: "splice (m h e) (length pre + (20 + length opts) + k) bs = pre @ ip_hdr_bytes h @ opts @ splice (icmp_hdr_bytes e) k bs @ rest"
    if "k + length bs \<le> 8" for h e k bs
    using that splice_append [of pre "ip_hdr_bytes h @ opts @ icmp_hdr_bytes e @ rest" "20 + length opts + k" bs]
      splice_append [of "ip_hdr_bytes h @ opts" "icmp_hdr_bytes e @ rest" k bs]
    by (simp add: m_def splice_prefix add.assoc)
  define s where "s = (\<lambda>h e. g\<lparr>pbufs := (pbufs g)(p \<mapsto> b\<lparr>pb_mem := m h e\<rparr>)\<rparr>)"
  have init: "g = s h e"
    using assms(1,2) by (cases g, cases b) (simp add: s_def m_def fun_upd_idem)
  have sp: "pbufs (s h e) p = Some (b\<lparr>pb_mem := m h e\<rparr>)" "current_iphdr_dest (s h e) = current_iphdr_dest g"
    "current_iphdr_src (s h e) = current_iphdr_src g" for h e
    by (simp_all add: s_def)
  have len: "length (m h e) = length pre + 28 + length opts + length rest" for h e by (simp add: m_def)
  have st: "store p (Some pos) 12 (bytes_le32 a) (s h e) = Some (s (h\<lparr>iph_src := a\<rparr>) e)"
    "store p (Some pos) 16 (bytes_le32 a) (s h e) = Some (s (h\<lparr>iph_dest := a\<rparr>) e)"
    "store p (Some pos) 8 [t] (s h e) = Some (s (h\<lparr>iph_ttl := t\<rparr>) e)"
    "store p (Some pos) 10 (mem16 c) (s h e) = Some (s (h\<lparr>iph_chksum := c\<rparr>) e)" for h e a t c
    using pos by (simp_all add: store_splice sp len iph splice_hdr) (simp_all add: s_def m_def)
  have si: "store p (Some ?ie) 0 [t] (s h e) = Some (s h (e\<lparr>icmp_type := t\<rparr>))"
    "store p (Some ?ie) 2 (mem16 c) (s h e) = Some (s h (e\<lparr>icmp_chksum := c\<rparr>))" for h e t c
    using pos ich [of 0 "[t]" h e] ich [of 2 "mem16 c" h e]
    by (simp_all add: store_splice sp len splice_icmp) (simp_all add: s_def m_def)
  have li: "load16 p (Some ?ie) 2 (s h e) = Some (icmp_chksum e)" for h e
    by (rule load16_mem [of _ _ "b\<lparr>pb_mem := m h e\<rparr>" _ "pre @ ip_hdr_bytes h @ opts @ [icmp_type e, icmp_code e]" _
          "mem16 (icmp_ident e) @ mem16 (icmp_seqno e) @ rest"])
       (use pos in \<open>simp_all add: sp m_def icmp_hdr_bytes_def\<close>)
  have lh: "load p (Some pos) 0 20 (s h e) = Some (ip_hdr_bytes h)" for h e
    using pos by (simp add: load_take [OF sp(1)] len) (simp add: m_def)
  define mis where "mis = payload_odd env (b\<lparr>pb_mem := m rh (echo_reply e), pb_payload := Some pos\<rparr>)"
  have pb: "pb_payload b = Some ?ie" by (rule assms(4))
  define ie where "ie = ?ie"
  note si = si [folded ie_def] and li = li [folded ie_def] and pb = pb [folded ie_def]
  have "echo_answer env p (Some pos) (s h e) = Some (s (rh\<lparr>iph_chksum := inet_chksum mis (ip_hdr_bytes rh)\<rparr>) (echo_reply e))"
    by (simp add: echo_answer_def sp pb st si li lh IP_HLEN_def mis_def rh_def reply_hdr_def echo_reply_def)
  then have "echo_answer env p (Some pos) g = Some (s (rh\<lparr>iph_chksum := inet_chksum mis (ip_hdr_bytes rh)\<rparr>) (echo_reply e))"
    by (simp only: init [symmetric])
  then show ?thesis unfolding s_def m_def by (rule exI)
qed

lemma upd_same: "pbufs g p = Some b \<Longrightarrow> g\<lparr>pbufs := (pbufs g)(p \<mapsto> b)\<rparr> = g"
  by (cases g) (simp add: fun_upd_idem)

lemma echo_room_keeps:
  assumes "pbufs g p = Some b" "pb_type b = PBUF_RAM \<or> pb_type b = PBUF_POOL" "pb_payload b = Some q" "34 \<le> q"
    and "unat (pb_len b) + 34 < 65536"
  shows "echo_room env p iphdr hlen g = Some (Some (p, iphdr), g)"
proof -
  let ?b = "b\<lparr>pb_payload := Some (q - 34), pb_len := pb_len b + 34, tot_len := tot_len b + 34\<rparr>"
  have 1: "pbuf_header (Some p) 34 (pbufs g) = Some (0, (pbufs g)(p \<mapsto> ?b))"
    using pbuf_header_ram [of "pbufs g" p b q 34] assms by simp
  have "unat (pb_len b + 34) = unat (pb_len b) + 34" using assms(5) by (simp add: unat_add_lt)
  then have 2: "pbuf_header (Some p) (- 34) ((pbufs g)(p \<mapsto> ?b)) = Some (0, (pbufs g)(p \<mapsto> b))"
    using pbuf_header_ram [of "(pbufs g)(p \<mapsto> ?b)" p ?b "q - 34" "- 34"] assms(2-4)
    by (cases b) simp
  show ?thesis
    by (simp add: echo_room_def on_pbufs_def PBUF_IP_HLEN_def PBUF_LINK_HLEN_def 1 2 upd_same assms(1))
qed

lemma icmp_echo_spec:
  assumes pk: "packet (pbufs g) (Some p) (p # ps)" "pbufs g p = Some b" "pb_type b = PBUF_RAM \<or> pb_type b = PBUF_POOL"
      "pb_payload b = Some pos" "14 \<le> pos"
    and data: "pb_bytes b = ip_hdr_bytes h @ opts @ icmp_hdr_bytes e @ d" "unat (IPH_HL (v_hl_tos h)) * 4 = 20 + length opts"
      "length (chain_data (pbufs g) (p # ps)) + 14 < 65536" "icmp_type e = ICMP_ECHO"
      "oc_sum (icmp_hdr_bytes e @ d @ chain_data (pbufs g) ps) = 65535"
    and dest: "netif_mem g inp = Some ni" "\<not> ip_addr_ismulticast (current_iphdr_dest g)"
      "\<not> ip4_addr_isbroadcast (current_iphdr_dest g) ni"
  defines "rh \<equiv> reply_hdr (current_iphdr_dest g) (current_iphdr_src g) h"
  shows "\<exists>b' mis. icmp_input env p inp g = do {
        (_, g') \<leftarrow> netif_output env (ni_output ni) inp p (current_iphdr_src g) (g\<lparr>pbufs := (pbufs g)(p \<mapsto> b')\<rparr>);
        free_pbuf p g'
      } \<and> b'\<lparr>pb_mem := pb_mem b\<rparr> = b \<and> length (pb_mem b') = length (pb_mem b) \<and>
      pb_bytes b' = ip_hdr_bytes (rh\<lparr>iph_chksum := inet_chksum mis (ip_hdr_bytes rh)\<rparr>) @ opts @ icmp_hdr_bytes (echo_reply e) @ d"
proof -
  have ok: "pb_ok b" "unat (tot_len b) = length (pb_bytes b @ chain_data (pbufs g) ps)"
    using pk(1,2) by (auto simp: packet_Cons)
  obtain pre post where mem: "pb_mem b = pre @ (ip_hdr_bytes h @ opts @ icmp_hdr_bytes e @ d) @ post" "length pre = nat pos"
    using mem_split [OF ok(1) pk(4) data(1)] by blast
  define n where "n = 20 + length opts"
  have len: "unat (pb_len b) = n + 8 + length d" "n \<noteq> 0" using length_pb_bytes [OF ok(1)] data(1) by (simp_all add: n_def)
  let ?b = "b\<lparr>pb_payload := Some (pos + int n), pb_len := pb_len b + of_int (- int n), tot_len := tot_len b + of_int (- int n)\<rparr>"
  have "int (unat (IPH_HL (v_hl_tos h)) * 4) = int n" using data(2) by (simp only: n_def)
  then have hl: "uint (IPH_HL (v_hl_tos h)) * 4 = int n" by simp
  have hdr: "hdr16 b 0 = Some (v_hl_tos h)" using hdr_reads(1) [OF ok(1) data(1)] .
  have hide: "pbuf_header (Some p) (- int n) (pbufs g) = Some (0, (pbufs g)(p \<mapsto> ?b))"
    using pbuf_header_ram [of "pbufs g" p b pos "- int n"] len pk(2-5) by simp
  let ?h = "(pbufs g)(p \<mapsto> ?b)" and ?g = "g\<lparr>pbufs := (pbufs g)(p \<mapsto> ?b)\<rparr>"
  have pk1: "packet ?h (Some p) (p # ps)" "chain_data ?h (p # ps) = icmp_hdr_bytes e @ d @ chain_data (pbufs g) ps"
    using pbuf_header_hide [OF pk(1), of n] pk(2) data(1) hide len by (auto simp: n_def)
  have "p \<notin> set ps" using chain_distinct [of "pbufs g" "Some p" "p # ps"] pk(1) by (simp add: packet_def)
  then have cd: "chain_data ?h ps = chain_data (pbufs g) ps" by (intro chain_data_frame) auto
  have ok1: "pb_ok ?b" "unat (tot_len ?b) = 8 + length d + length (chain_data (pbufs g) ps)"
    using pk1 cd by (auto simp: packet_Cons)
  have bytes: "pb_bytes ?b = icmp_hdr_bytes e @ d" using pk1(2) cd by simp
  have len1: "unat (pb_len ?b) = 8 + length d" using length_pb_bytes [OF ok1(1)] bytes by simp
  have t: "hdr8 ?b 0 = Some ICMP_ECHO"
    using pb_read_ok [OF ok1(1), of 0 1] len1 bytes data(4) by (simp add: hdr8_def icmp_hdr_bytes_def)
  have c: "inet_chksum_pbuf (payload_odd env) (Some p) ?h = Some 0"
    using inet_chksum_pbuf_spec [OF pk1(1), of "payload_odd env"] pk1(2) data(5) by simp
  have room: "echo_room env p (Some pos) (int n) ?g = Some (Some (p, Some pos), ?g)"
    using echo_room_keeps [of ?g p ?b "pos + int n" env "Some pos" "int n"] pk(2-5) data(1,3) len len1 by (simp add: n_def)
  obtain mis where ans: "echo_answer env p (Some pos) ?g = Some (g\<lparr>pbufs := (pbufs g)(p \<mapsto> ?b\<lparr>pb_mem :=
    pre @ ip_hdr_bytes (rh\<lparr>iph_chksum := inet_chksum mis (ip_hdr_bytes rh)\<rparr>) @ opts @ icmp_hdr_bytes (echo_reply e) @ d @ post\<rparr>)\<rparr>)"
    using echo_answer_spec [of ?g p ?b pre h opts e "d @ post" pos env] mem pk(5) by (auto simp: rh_def n_def)
  define m where "m = pre @ ip_hdr_bytes (rh\<lparr>iph_chksum := inet_chksum mis (ip_hdr_bytes rh)\<rparr>) @ opts @ icmp_hdr_bytes (echo_reply e) @ d @ post"
  have reveal: "pbuf_header (Some p) (int n) ((pbufs g)(p \<mapsto> ?b\<lparr>pb_mem := m\<rparr>)) = Some (0, (pbufs g)(p \<mapsto> b\<lparr>pb_mem := m\<rparr>))"
    using pbuf_header_ram [of "(pbufs g)(p \<mapsto> ?b\<lparr>pb_mem := m\<rparr>)" p "?b\<lparr>pb_mem := m\<rparr>" "pos + int n" "int n"] pk(3,4,5) len(2)
    by (cases b) simp
  have b': "pb_ok (b\<lparr>pb_mem := m\<rparr>)" "pb_bytes (b\<lparr>pb_mem := m\<rparr>) =
      ip_hdr_bytes (rh\<lparr>iph_chksum := inet_chksum mis (ip_hdr_bytes rh)\<rparr>) @ opts @ icmp_hdr_bytes (echo_reply e) @ d"
    using mem pk(4,5) len by (simp_all add: pb_bytes_def pb_ok_def m_def n_def)
  have dst: "hdr32 (b\<lparr>pb_mem := m\<rparr>) 16 = Some (current_iphdr_src g)"
    using hdr_reads(6) [OF b'] by (simp add: rh_def reply_hdr_def)
  have "icmp_input env p inp g = do {
        (_, g') \<leftarrow> netif_output env (ni_output ni) inp p (current_iphdr_src g) (g\<lparr>pbufs := (pbufs g)(p \<mapsto> b\<lparr>pb_mem := m\<rparr>)\<rparr>);
        free_pbuf p g'
      }"
    using dest reveal ans [folded m_def] t c room hide hdr hl pk(2,4) ok1(2) dst
    by (simp add: icmp_input_def on_pbufs_def ip_output_if_def ip_output_if_opt_def Let_def case_prod_unfold del: of_int_minus of_int_of_nat_eq)
  moreover have "(b\<lparr>pb_mem := m\<rparr>)\<lparr>pb_mem := pb_mem b\<rparr> = b" "length m = length (pb_mem b)" using mem(1) by (simp_all add: m_def)
  ultimately show ?thesis using b'(2)
    by (intro exI [of _ "b\<lparr>pb_mem := m\<rparr>"] exI [of _ mis]) simp
qed

lemma hdr_filled_sum:
  assumes "iph_chksum h = 0"
  shows "le_sum (ip_hdr_bytes (h\<lparr>iph_chksum := inet_chksum mis (ip_hdr_bytes h)\<rparr>)) mod 65535 = 0"
    "le_sum (ip_hdr_bytes (h\<lparr>iph_chksum := inet_chksum mis (ip_hdr_bytes h)\<rparr>)) \<noteq> 0"
proof -
  let ?n = "le_sum (ip_hdr_bytes h)" and ?c = "inet_chksum mis (ip_hdr_bytes h)"
  have "unat ?c = 65535 - oc ?n" by (simp add: inet_chksum_eq not_oc oc_sum_def)
  then have s: "le_sum (ip_hdr_bytes (h\<lparr>iph_chksum := ?c\<rparr>)) = ?n + (65535 - oc ?n)"
    using le_sum_hdr_chksum [where h = h and c = ?c] assms by simp
  have "oc (?n + (65535 - oc ?n)) = 65535" by (rule oc_complement)
  then show "le_sum (ip_hdr_bytes (h\<lparr>iph_chksum := ?c\<rparr>)) mod 65535 = 0" "le_sum (ip_hdr_bytes (h\<lparr>iph_chksum := ?c\<rparr>)) \<noteq> 0"
    unfolding s oc_65535 by simp_all
qed

lemma hdr_filled_chksum:
  assumes "iph_chksum h = 0" "length opts < 1000"
  shows "inet_chksum mis' (ip_hdr_bytes (h\<lparr>iph_chksum := inet_chksum mis (ip_hdr_bytes h)\<rparr>) @ opts) = 0 \<longleftrightarrow> le_sum opts mod 65535 = 0"
proof -
  let ?h = "ip_hdr_bytes (h\<lparr>iph_chksum := inet_chksum mis (ip_hdr_bytes h)\<rparr>)"
  have "le_sum (?h @ opts) = le_sum ?h + le_sum opts" by (rule le_sum_even) simp
  moreover have "(le_sum ?h + le_sum opts) mod 65535 = le_sum opts mod 65535"
    using mod_add_left_eq [of "le_sum ?h" 65535 "le_sum opts"] hdr_filled_sum(1) [OF assms(1), of mis] by simp
  ultimately show ?thesis using assms(2) hdr_filled_sum(2) [OF assms(1), of mis]
    by (simp add: inet_chksum_0_iff oc_sum_def oc_65535)
qed

lemma append_prefix: "xs @ ys = zs @ d \<Longrightarrow> length zs \<le> length xs \<Longrightarrow> \<exists>d1. xs = zs @ d1 \<and> d = d1 @ ys"
  by (auto simp: append_eq_append_conv2)

lemma IPH_HL_le: "unat (IPH_HL w) \<le> 15"
proof -
  have "IPH_HL w \<le> 0x0f" unfolding IPH_HL_def by (rule word_and_le1)
  then show ?thesis by (simp add: word_le_nat_alt)
qed

text \<open>C14: an echo request to a unicast address that passes its checksum is answered in place: the packet that goes to the
  interface is the request with source and destination swapped, time to live 255, type \<open>ICMP_ER\<close> and the same data;
  then it is freed.  The header checksum is right exactly when the IP options sum to zero (in particular without options),
  the ICMP checksum exactly when the reply is not all zero.\<close>

theorem icmp_echo_reply:
  assumes pk: "packet (pbufs g) (Some p) (p # ps)" "pbufs g p = Some b" "pb_type b = PBUF_RAM \<or> pb_type b = PBUF_POOL"
      "pb_payload b = Some pos" "14 \<le> pos" "28 + length opts \<le> unat (pb_len b)"
    and data: "chain_data (pbufs g) (p # ps) = ip_hdr_bytes h @ opts @ icmp_hdr_bytes e @ d"
      "unat (IPH_HL (v_hl_tos h)) * 4 = 20 + length opts" "length d < 65000" "icmp_type e = ICMP_ECHO"
      "inet_chksum False (icmp_hdr_bytes e @ d) = 0"
    and dest: "netif_mem g inp = Some ni" "\<not> ip_addr_ismulticast (current_iphdr_dest g)"
      "\<not> ip4_addr_isbroadcast (current_iphdr_dest g) ni"
  shows "\<exists>h' rh. icmp_input env p inp g = do {
        (_, g') \<leftarrow> netif_output env (ni_output ni) inp p (current_iphdr_src g) (g\<lparr>pbufs := h'\<rparr>);
        free_pbuf p g'
      } \<and>
      packet h' (Some p) (p # ps) \<and> (\<forall>x. x \<noteq> p \<longrightarrow> h' x = pbufs g x) \<and>
      chain_data h' (p # ps) = ip_hdr_bytes rh @ opts @ icmp_hdr_bytes (echo_reply e) @ d \<and>
      rh\<lparr>iph_chksum := 0\<rparr> = h\<lparr>iph_src := current_iphdr_dest g, iph_dest := current_iphdr_src g, iph_ttl := 255, iph_chksum := 0\<rparr> \<and>
      (\<forall>mis. inet_chksum mis (ip_hdr_bytes rh @ opts) = 0 \<longleftrightarrow> le_sum opts mod 65535 = 0) \<and>
      (\<forall>mis. inet_chksum mis (icmp_hdr_bytes (echo_reply e) @ d) = 0 \<longleftrightarrow>
        (\<exists>x \<in> set (icmp_hdr_bytes (echo_reply e) @ d). x \<noteq> 0))"
proof -
  let ?rh = "reply_hdr (current_iphdr_dest g) (current_iphdr_src g) h"
  have ok: "pb_ok b" using pk(1,2) by (auto simp: packet_Cons)
  have opts: "length opts \<le> 40" using IPH_HL_le [of "v_hl_tos h"] data(2) by linarith
  have split: "pb_bytes b @ chain_data (pbufs g) ps = (ip_hdr_bytes h @ opts @ icmp_hdr_bytes e) @ d" using data(1) pk(2) by simp
  have "length (ip_hdr_bytes h @ opts @ icmp_hdr_bytes e) \<le> length (pb_bytes b)" using ok pk(6) by simp
  with append_prefix [OF split] obtain d1 where d1: "pb_bytes b = ip_hdr_bytes h @ opts @ icmp_hdr_bytes e @ d1" "d = d1 @ chain_data (pbufs g) ps"
    by auto
  have sum: "oc_sum (icmp_hdr_bytes e @ d) = 65535" using data(3,5) by (simp add: inet_chksum_0_iff)
  obtain b' mis where b': "icmp_input env p inp g = do {
        (_, g') \<leftarrow> netif_output env (ni_output ni) inp p (current_iphdr_src g) (g\<lparr>pbufs := (pbufs g)(p \<mapsto> b')\<rparr>);
        free_pbuf p g'
      }" "b'\<lparr>pb_mem := pb_mem b\<rparr> = b" "length (pb_mem b') = length (pb_mem b)"
      "pb_bytes b' = ip_hdr_bytes (?rh\<lparr>iph_chksum := inet_chksum mis (ip_hdr_bytes ?rh)\<rparr>) @ opts @ icmp_hdr_bytes (echo_reply e) @ d1"
    using icmp_echo_spec [of g p ps b pos h opts e d1 inp ni env] pk data dest d1 sum opts by auto
  let ?h = "(pbufs g)(p \<mapsto> b')"
  have "p \<notin> set ps" using chain_distinct [of "pbufs g" "Some p" "p # ps"] pk(1) by (simp add: packet_def)
  then have cd: "chain_data ?h ps = chain_data (pbufs g) ps" by (intro chain_data_frame) auto
  have flds: "pb_payload b' = pb_payload b" "pb_len b' = pb_len b" "tot_len b' = tot_len b" "pb_next b' = pb_next b"
    using b'(2) by (metis pbuf.update_convs pbuf.select_convs pbuf.surjective)+
  let ?rh' = "?rh\<lparr>iph_chksum := inet_chksum mis (ip_hdr_bytes ?rh)\<rparr>"
  have "packet ?h (Some p) (p # ps)"
    using pk(1,2) flds b'(3,4) cd d1(1) \<open>p \<notin> set ps\<close> by (auto simp: packet_Cons pb_ok_def split: option.splits)
  moreover have "chain_data ?h (p # ps) = ip_hdr_bytes ?rh' @ opts @ icmp_hdr_bytes (echo_reply e) @ d"
    using b'(4) cd d1(2) by simp
  moreover have "?rh'\<lparr>iph_chksum := 0\<rparr> =
      h\<lparr>iph_src := current_iphdr_dest g, iph_dest := current_iphdr_src g, iph_ttl := 255, iph_chksum := 0\<rparr>"
    by (simp add: reply_hdr_def ICMP_TTL_def)
  moreover have "inet_chksum k (ip_hdr_bytes ?rh' @ opts) = 0 \<longleftrightarrow> le_sum opts mod 65535 = 0" for k
    using opts by (intro hdr_filled_chksum) (simp_all add: reply_hdr_def)
  moreover have "inet_chksum k (icmp_hdr_bytes (echo_reply e) @ d) = 0 \<longleftrightarrow> (\<exists>x \<in> set (icmp_hdr_bytes (echo_reply e) @ d). x \<noteq> 0)" for k
    using echo_chksum [OF data(4) sum] data(3) by (simp only: inet_chksum_0_iff length_append length_icmp_hdr)
  ultimately show ?thesis using b'(1) by (intro exI [of _ ?h] exI [of _ ?rh']) auto
qed

definition demo_echo :: icmp_echo_hdr where
  "demo_echo = \<lparr>icmp_type = 8, icmp_code = 0, icmp_chksum = 40339, icmp_ident = 1, icmp_seqno = 2\<rparr>"

definition demo_ping_hdr :: ip_hdr where
  "demo_ping_hdr = \<lparr>v_hl_tos = IPH_VHLTOS 4 5 0, iph_len = htons 30, iph_id = 0, iph_offset = 0, iph_ttl = 64, iph_proto = 1,
     iph_chksum = 0, iph_src = IP4_ADDR 192 168 4 9, iph_dest = IP4_ADDR 192 168 4 1\<rparr>"

definition demo_ping :: net where
  "demo_ping = demo_net\<lparr>pbufs := [7 \<mapsto> \<lparr>pb_next = None, pb_payload = Some 14, tot_len = 30, pb_len = 30, pb_type = PBUF_RAM,
       pb_flags = 0, pb_ref = 1, pb_mem = replicate 14 0 @ ip_hdr_bytes demo_ping_hdr @ icmp_hdr_bytes demo_echo @ [97, 98]\<rparr>],
     current_iphdr_src := IP4_ADDR 192 168 4 9, current_iphdr_dest := IP4_ADDR 192 168 4 1\<rparr>"

lemma demo_ping_bytes: "pb_bytes (the (pbufs demo_ping 7)) = ip_hdr_bytes demo_ping_hdr @ icmp_hdr_bytes demo_echo @ [97, 98]"
  by (simp add: demo_ping_def pb_bytes_def)

lemma demo_ping_packet: "packet (pbufs demo_ping) (Some 7) [7]"
  using demo_ping_bytes by (auto simp: packet_Cons pb_ok_def demo_ping_def)

theorem icmp_echo_reply_witness:
  "\<forall>env :: net ip_env. \<exists>h' rh. icmp_input env 7 5 demo_ping = do {
        (_, g') \<leftarrow> netif_output env 2 5 7 (IP4_ADDR 192 168 4 9) (demo_ping\<lparr>pbufs := h'\<rparr>);
        free_pbuf 7 g'
      } \<and> chain_data h' [7] = ip_hdr_bytes rh @ [0, 0, 155, 157, 1, 0, 2, 0, 97, 98] \<and>
      iph_dest rh = IP4_ADDR 192 168 4 9"
proof
  fix env :: "net ip_env"
  have m: "\<not> ip_addr_ismulticast (current_iphdr_dest demo_ping)" "\<not> ip4_addr_isbroadcast (current_iphdr_dest demo_ping) demo_netif"
    by (simp_all add: demo_ping_def) code_simp+
  have n: "netif_mem demo_ping 5 = Some demo_netif" "pbufs demo_ping 7 = Some (the (pbufs demo_ping 7))"
    by (simp_all add: demo_ping_def demo_net_def)
  have r: "icmp_hdr_bytes (echo_reply demo_echo) = [0, 0, 155, 157, 1, 0, 2, 0]" by code_simp
  have c: "inet_chksum False (icmp_hdr_bytes demo_echo @ [97, 98]) = 0" by code_simp
  have hl: "unat (IPH_HL (v_hl_tos demo_ping_hdr)) * 4 = 20 + length ([] :: bytes)"
    by (simp add: demo_ping_hdr_def vhl_fields)
  have b: "pb_type (the (pbufs demo_ping 7)) = PBUF_RAM" "pb_payload (the (pbufs demo_ping 7)) = Some 14"
    "pb_len (the (pbufs demo_ping 7)) = 30" "chain_data (pbufs demo_ping) [7] = ip_hdr_bytes demo_ping_hdr @ [] @ icmp_hdr_bytes demo_echo @ [97, 98]"
    using demo_ping_bytes by (simp_all add: demo_ping_def)
  have cur: "current_iphdr_src demo_ping = IP4_ADDR 192 168 4 9" "ni_output demo_netif = 2" "icmp_type demo_echo = ICMP_ECHO"
    by (simp_all add: demo_ping_def demo_netif_def demo_echo_def ICMP_ECHO_def)
  have p: "(14 :: int) \<le> 14" "28 + length ([] :: bytes) \<le> unat (pb_len (the (pbufs demo_ping 7)))" "length [97, 98 :: u8] < 65000"
    by (simp_all add: b(3))
  obtain h' rh where "icmp_input env 7 5 demo_ping = do {
        (_, g') \<leftarrow> netif_output env 2 5 7 (IP4_ADDR 192 168 4 9) (demo_ping\<lparr>pbufs := h'\<rparr>);
        free_pbuf 7 g'
      }" "chain_data h' [7] = ip_hdr_bytes rh @ [] @ icmp_hdr_bytes (echo_reply demo_echo) @ [97, 98]"
      "rh\<lparr>iph_chksum := 0\<rparr> = demo_ping_hdr\<lparr>iph_src := current_iphdr_dest demo_ping, iph_dest := IP4_ADDR 192 168 4 9,
         iph_ttl := 255, iph_chksum := 0\<rparr>"
    using icmp_echo_reply [OF demo_ping_packet n(2) disjI1 [OF b(1)] b(2) p(1,2) b(4) hl p(3) cur(3) c n(1) m, of env]
    unfolding cur by blast
  moreover from arg_cong [OF this(3), of iph_dest] have "iph_dest rh = IP4_ADDR 192 168 4 9" by simp
  ultimately show "\<exists>h' rh. icmp_input env 7 5 demo_ping = do {
        (_, g') \<leftarrow> netif_output env 2 5 7 (IP4_ADDR 192 168 4 9) (demo_ping\<lparr>pbufs := h'\<rparr>);
        free_pbuf 7 g'
      } \<and> chain_data h' [7] = ip_hdr_bytes rh @ [0, 0, 155, 157, 1, 0, 2, 0, 97, 98] \<and>
      iph_dest rh = IP4_ADDR 192 168 4 9"
    using r by (intro exI [of _ h'] exI [of _ rh]) simp
qed

section \<open>Error messages\<close>

lemma route_frame: "route_loop dest ns (g\<lparr>pbufs := h\<rparr>) = route_loop dest ns g"
  by (induction ns) (simp_all cong: if_cong)

lemma ip_route_frame: "ip_route dest (g\<lparr>pbufs := h\<rparr>) = ip_route dest g"
  by (simp add: ip_route_def route_frame default_route_def cong: option.case_cong)

lemma pbuf_alloc_ip:
  assumes "malloc_fresh mal"
  shows "pbuf_alloc mal PBUF_IP n PBUF_RAM h = Some (None, h) \<or>
    (\<exists>q b. pbuf_alloc mal PBUF_IP n PBUF_RAM h = Some (Some q, h(q \<mapsto> b)) \<and> h q = None \<and> packet (h(q \<mapsto> b)) (Some q) [q] \<and>
       pb_len b = n \<and> pb_type b = PBUF_RAM \<and> pb_ref b = 1 \<and> pb_payload b = Some 36)"
proof (cases "mal (LWIP_MEM_ALIGN_SIZE (SIZEOF_STRUCT_PBUF + layer_offset PBUF_IP) + LWIP_MEM_ALIGN_SIZE (unat n)) h")
  case (Some pb)
  obtain q blk where pb: "pb = (q, blk)" by force
  have al: "LWIP_MEM_ALIGN_SIZE (SIZEOF_STRUCT_PBUF + layer_offset PBUF_IP) = 56"
    by (simp add: LWIP_MEM_ALIGN_SIZE_def MEM_ALIGNMENT_def layer_offset_def PBUF_IP_HLEN_def PBUF_LINK_HLEN_def)
  define b where "b = \<lparr>pb_next = None, pb_payload = Some 36, tot_len = n, pb_len = n, pb_type = PBUF_RAM, pb_flags = 0,
    pb_ref = 1, pb_mem = drop SIZEOF_STRUCT_PBUF blk\<rparr>"
  have "h q = None" "length blk = 56 + LWIP_MEM_ALIGN_SIZE (unat n)" using assms Some pb al by (auto simp: malloc_fresh_def)
  moreover from this have "pb_ok b" using align_size(1) [of "unat n"] by (simp add: pb_ok_def b_def)
  moreover have "pbuf_alloc mal PBUF_IP n PBUF_RAM h = Some (Some q, h(q \<mapsto> b))"
    using Some pb al by (simp add: pbuf_alloc_def b_def Let_def)
  ultimately show ?thesis
    by (intro disjI2 exI [of _ q] exI [of _ b]) (simp add: packet_Cons, simp add: b_def)
qed (simp add: pbuf_alloc_def)


lemma response_bytes:
  assumes "length m = 36" "length d = 28"
  shows "splice (splice (splice (splice (splice m 0 [ty, co]) 4 (mem16 0)) 6 (mem16 0)) 8 d) 2 (mem16 c) =
    [ty, co] @ mem16 c @ [0, 0, 0, 0] @ d"
  using assms by (simp add: splice_def mem16_def lo8_def hi8_def numeral_eq_Suc)

lemma splice_mem16_twice: "splice ([ty, co] @ mem16 c @ r) 2 (mem16 c') = [ty, co] @ mem16 c' @ r"
  by (simp add: splice_def mem16_def)

lemma pb_read_sub: "pb_read b 0 n = Some x \<Longrightarrow> i + k \<le> n \<Longrightarrow> 0 < n \<Longrightarrow> pb_read b i k = Some (take k (drop i x))"
proof (cases "pb_payload b")
  case (Some pos)
  assume a: "pb_read b 0 n = Some x" "i + k \<le> n" "0 < n"
  then have "0 \<le> pos" "nat pos + n \<le> length (pb_mem b)" "x = take n (drop (nat pos) (pb_mem b))"
    using Some by (simp_all add: pb_read_def split: if_splits)
  moreover from this have "nat (pos + int i) = i + nat pos" by simp
  ultimately show ?thesis using Some a(2) by (simp add: pb_read_def drop_take min_def)
qed (simp add: pb_read_def)

lemma icmp_response_written:
  assumes q: "pbuf_alloc (mem_malloc env) PBUF_IP 36 PBUF_RAM (pbufs g) = Some (Some q, (pbufs g)(q \<mapsto> qb))" "p \<noteq> q"
      "pb_ok qb" "pb_len qb = 36" "pb_payload qb = Some 36"
    and p: "pbufs g p = Some b" "pb_read b 0 28 = Some (ip_hdr_bytes h @ d)" "length d = 8"
  shows "\<exists>m c. icmp_dest_unreach env p t g = do {
      (_, g) \<leftarrow> ip_output env q None (iph_src h) ICMP_TTL 0 IP_PROTO_ICMP (g\<lparr>pbufs := (pbufs g)(q \<mapsto> qb\<lparr>pb_mem := m\<rparr>)\<rparr>);
      free_pbuf q g
    } \<and> pb_ok (qb\<lparr>pb_mem := m\<rparr>) \<and>
    pb_bytes (qb\<lparr>pb_mem := m\<rparr>) = [3, dur_code t] @ mem16 c @ [0, 0, 0, 0] @ ip_hdr_bytes h @ d \<and>
    (\<forall>mis. inet_chksum mis ([3, dur_code t] @ mem16 c @ [0, 0, 0, 0] @ ip_hdr_bytes h @ d) = 0)"
proof -
  obtain pre m post where mem: "pb_mem qb = pre @ m @ post" "length pre = 36" "length m = 36"
    using mem_split [OF q(3,5) refl] length_pb_bytes [OF q(3)] q(4) by auto
  define r where "r = [0, 0, 0, 0] @ ip_hdr_bytes h @ d"
  define x0 where "x0 = [3, dur_code t] @ mem16 0 @ r"
  define c where "c = inet_chksum (payload_odd env (qb\<lparr>pb_mem := pre @ x0 @ post\<rparr>)) x0"
  let ?x = "[3, dur_code t] @ mem16 c @ r"
  have lr: "length r = 32" "length x0 = 36" using p(3) by (simp_all add: r_def x0_def)
  have bytes: "pb_ok (qb\<lparr>pb_mem := pre @ x @ post\<rparr>)" "pb_bytes (qb\<lparr>pb_mem := pre @ x @ post\<rparr>) = x" if "length x = 36" for x
    using that q(4,5) mem(2) by (simp_all add: pb_ok_def pb_bytes_def)
  have w: "pb_write (qb\<lparr>pb_mem := pre @ x @ post\<rparr>) k bs = Some (qb\<lparr>pb_mem := pre @ splice x k bs @ post\<rparr>)"
    if "length x = 36" "k + length bs \<le> 36" for x k bs
  proof -
    have "nat (36 + int k) = 36 + k" by simp
    then show ?thesis using that q(5) mem(2) splice_append [of pre "x @ post" k bs]
      by (simp add: pb_write_def Let_def splice_def [symmetric] splice_prefix)
  qed
  have w1: "pb_write qb 0 bs = Some (qb\<lparr>pb_mem := pre @ splice m 0 bs @ post\<rparr>)" if "length bs \<le> 36" for bs
    using w [OF mem(3), of 0 bs] that mem(1) by (cases qb) simp
  have wc: "pb_write (qb\<lparr>pb_mem := pre @ x0 @ post\<rparr>) 2 (mem16 c) = Some (qb\<lparr>pb_mem := pre @ ?x @ post\<rparr>)"
    using w [OF lr(2), of 2 "mem16 c"] by (simp add: x0_def splice_mem16_twice [of 3 "dur_code t" 0 r c, simplified])
  have rd: "pb_read (qb\<lparr>pb_mem := pre @ x0 @ post\<rparr>) 0 36 = Some x0"
    using pb_read_ok [OF bytes(1) [OF lr(2)], of 0 36] bytes(2) [OF lr(2)] lr(2) q(4) by simp
  have x: "splice (splice (splice (splice (splice m 0 [3, dur_code t]) 4 (mem16 0)) 6 (mem16 0)) 8 (ip_hdr_bytes h @ d)) 2 (mem16 0) = x0"
    using response_bytes [OF mem(3), of "ip_hdr_bytes h @ d"] p(3) by (simp add: x0_def r_def)
  have src: "hdr32 b 12 = Some (iph_src h)"
    using pb_read_sub [OF p(2), of 12 4] by (simp add: hdr32_def ip_hdr_bytes_def mem16_def bytes_le32_def le32_bytes)
  have "mem16 0 = [0, 0]" by (simp add: mem16_def lo8_def hi8_def)
  then have "\<exists>k. c = inet_chksum k ([3, dur_code t] @ [0, 0] @ r)" unfolding c_def x0_def by (intro exI) simp
  then have ck: "inet_chksum mis ?x = 0" for mis using inet_chksum_verifies [of "[3, dur_code t]" r c] lr by (auto simp: mem16_def)
  have "icmp_dest_unreach env p t g = do {
      (_, g) \<leftarrow> ip_output env q None (iph_src h) ICMP_TTL 0 IP_PROTO_ICMP (g\<lparr>pbufs := (pbufs g)(q \<mapsto> qb\<lparr>pb_mem := pre @ ?x @ post\<rparr>)\<rparr>);
      free_pbuf q g
    }"
    using q p src mem(3)
    by (simp add: icmp_dest_unreach_def icmp_send_response_def on_pbufs_def IP_HLEN_def ICMP_DEST_UNREACH_DATASIZE_def ICMP_DUR_def
        w w1 x rd wc c_def [symmetric])
  then show ?thesis using bytes [of ?x] lr(1) ck
    by (intro exI [of _ "pre @ ?x @ post"] exI [of _ c]) (simp add: r_def)
qed

text \<open>A destination-unreachable message goes to the sender of the packet with its IP header and the first eight bytes
  behind it, with good checksums; without memory nothing is sent.\<close>

lemma icmp_dest_unreach_correct:
  assumes "malloc_fresh (mem_malloc env)" "pbufs g p = Some b" "pb_read b 0 28 = Some (ip_hdr_bytes h @ d)"
    and "ip_route (iph_src h) g = Some (Some netif)" "netif_mem g netif = Some ni"
  shows "icmp_dest_unreach env p t g = Some g \<or>
    (\<exists>q h' hdr c. icmp_dest_unreach env p t g = do {
         (_, g') \<leftarrow> netif_output env (ni_output ni) netif q (iph_src h) (g\<lparr>pbufs := h', ip_id := ip_id g + 1\<rparr>);
         free_pbuf q g'
       } \<and>
       pbufs g q = None \<and> packet h' (Some q) [q] \<and> pb_ref (the (h' q)) = 1 \<and> (\<forall>x. x \<noteq> q \<longrightarrow> h' x = pbufs g x) \<and>
       chain_data h' [q] = ip_hdr_bytes hdr @ [3, dur_code t] @ mem16 c @ [0, 0, 0, 0] @ ip_hdr_bytes h @ d \<and>
       iph_dest hdr = iph_src h \<and> iph_src hdr = ni_ip_addr ni \<and> iph_proto hdr = IP_PROTO_ICMP \<and>
       (\<forall>mis. inet_chksum mis (ip_hdr_bytes hdr) = 0) \<and>
       (\<forall>mis. inet_chksum mis ([3, dur_code t] @ mem16 c @ [0, 0, 0, 0] @ ip_hdr_bytes h @ d) = 0))"
proof (cases "pbuf_alloc (mem_malloc env) PBUF_IP 36 PBUF_RAM (pbufs g) = Some (None, pbufs g)")
  case True
  then have "icmp_dest_unreach env p t g = Some g"
    by (simp add: icmp_dest_unreach_def icmp_send_response_def on_pbufs_def IP_HLEN_def ICMP_DEST_UNREACH_DATASIZE_def)
  then show ?thesis by blast
next
  case False
  then obtain q qb where q: "pbuf_alloc (mem_malloc env) PBUF_IP 36 PBUF_RAM (pbufs g) = Some (Some q, (pbufs g)(q \<mapsto> qb))"
    "pbufs g q = None" "packet ((pbufs g)(q \<mapsto> qb)) (Some q) [q]" "pb_len qb = 36" "pb_type qb = PBUF_RAM" "pb_ref qb = 1"
    "pb_payload qb = Some 36"
    using pbuf_alloc_ip [OF assms(1), of 36 "pbufs g"] by auto
  have ok: "pb_ok qb" "p \<noteq> q" using q(2,3) assms(2) by (auto simp: packet_Cons)
  have len: "length d = 8" using assms(3) by (auto simp: pb_read_def split: option.splits if_splits dest: arg_cong [of _ _ length])
  let ?x = "\<lambda>c. [3, dur_code t] @ mem16 c @ [0, 0, 0, 0] @ ip_hdr_bytes h @ d"
  obtain m c where m: "icmp_dest_unreach env p t g = do {
      (_, g) \<leftarrow> ip_output env q None (iph_src h) ICMP_TTL 0 IP_PROTO_ICMP (g\<lparr>pbufs := (pbufs g)(q \<mapsto> qb\<lparr>pb_mem := m\<rparr>)\<rparr>);
      free_pbuf q g
    }" "pb_ok (qb\<lparr>pb_mem := m\<rparr>)" "pb_bytes (qb\<lparr>pb_mem := m\<rparr>) = ?x c" "\<And>mis. inet_chksum mis (?x c) = 0"
    using icmp_response_written [OF q(1) ok(2,1) q(4,7) assms(2,3) len, of t] by blast
  let ?g = "g\<lparr>pbufs := (pbufs g)(q \<mapsto> qb\<lparr>pb_mem := m\<rparr>)\<rparr>"
  define hd where "hd = sent_hdr 0 (of_nat (length (?x c) + 20)) (ip_id g) ICMP_TTL IP_PROTO_ICMP (ni_ip_addr ni) (iph_src h)"
  have "unat (tot_len qb) = 36" using q(3,4) length_pb_bytes [OF ok(1)] by (simp add: packet_Cons)
  then have pk: "packet (pbufs ?g) (Some q) [q]" "chain_data (pbufs ?g) [q] = ?x c"
    using m(2,3) q(3) len by (simp_all add: packet_Cons)
  obtain h' where h': "ip_output_if env q None (Some (iph_src h)) ICMP_TTL 0 IP_PROTO_ICMP netif ?g =
      netif_output env (ni_output ni) netif q (iph_src h) (?g\<lparr>pbufs := h', ip_id := ip_id ?g + 1\<rparr>)" "packet h' (Some q) [q]"
      "chain_data h' [q] = ip_hdr_bytes hd @ ?x c" "\<forall>x. x \<noteq> q \<longrightarrow> h' x = pbufs ?g x" "pb_ref (the (h' q)) = 1"
    using ip_output_if_spec [of ?g q "[]" "qb\<lparr>pb_mem := m\<rparr>" 36 netif ni env None "iph_src h" ICMP_TTL 0 IP_PROTO_ICMP]
      pk q(5-7) len assms(5) by (auto simp: hd_def)
  have "ip_output env q None (iph_src h) ICMP_TTL 0 IP_PROTO_ICMP ?g =
      netif_output env (ni_output ni) netif q (iph_src h) (g\<lparr>pbufs := h', ip_id := ip_id g + 1\<rparr>)"
    using h'(1) assms(4) by (simp add: ip_output_def ip_route_frame)
  moreover have "\<forall>x. x \<noteq> q \<longrightarrow> h' x = pbufs g x" using h'(4) by simp
  moreover have "iph_dest hd = iph_src h" "iph_src hd = ni_ip_addr ni" "iph_proto hd = IP_PROTO_ICMP" "inet_chksum mis (ip_hdr_bytes hd) = 0" for mis
    by (simp_all add: hd_def sent_hdr_chksum)
  ultimately show ?thesis using m(1,4) h'(2,3,5) q(2)
    by (intro disjI2 exI [of _ q] exI [of _ h'] exI [of _ hd] exI [of _ c]) simp
qed


text \<open>Two defects of the echo responder.  The checksum of a request whose message is zero but for its type becomes 0 where
  the sum asks for \<open>0xffff\<close>: the comparison with \<open>>=\<close> carries once too often, and the receiver rejects the reply.
  And the header checksum of \<open>hdr_filled_chksum\<close> covers the first 20 bytes only: with IP options it is wrong unless they sum
  to zero.\<close>

lemma echo_zero_defect:
  assumes "n < 65000" and e: "e = \<lparr>icmp_type = ICMP_ECHO, icmp_code = 0, icmp_chksum = 0xfff7, icmp_ident = 0, icmp_seqno = 0\<rparr>"
  shows "inet_chksum mis (icmp_hdr_bytes e @ replicate n 0) = 0"
    "inet_chksum mis (icmp_hdr_bytes (echo_reply e) @ replicate n 0) = 0xffff"
proof -
  have z: "le_sum (replicate n 0) = 0" by (simp add: le_sum_0_iff)
  have "unat (adjust_chksum 0xfff7) = 0" by (simp add: adjust_chksum_nat)
  then have "oc_sum (icmp_hdr_bytes e @ replicate n 0) = 65535" "oc_sum (icmp_hdr_bytes (echo_reply e) @ replicate n 0) = 0"
    by (simp_all add: oc_sum_def le_sum_icmp e z echo_reply_def ICMP_ECHO_def ICMP_ER_def)
  then show "inet_chksum mis (icmp_hdr_bytes e @ replicate n 0) = 0"
    "inet_chksum mis (icmp_hdr_bytes (echo_reply e) @ replicate n 0) = 0xffff"
    using assms(1) by (simp_all add: inet_chksum_eq)
qed

end
