(* ===== verification/Igmp.thy ===== *)
theory Igmp
  imports Icmp
begin

text \<open>
  Group membership, \<open>src/lwip/core/ipv4/igmp.c\<close> (IGMP version 2).  The groups are in \<open>igmp_mem\<close>, linked in the order of
  \<open>igmp_group_list\<close>.  The random numbers, the MAC filter of the driver and the allocation of a group are the parameter
  \<open>igmp_env\<close>; sending goes through \<open>ip_env\<close>.  \<open>igmp_lookfor_group\<close> is in theory \<open>Ip\<close>.
\<close>

section \<open>Constants\<close>

definition IGMP_TTL :: u8 where "IGMP_TTL = 1"
definition IGMP_MINLEN :: nat where "IGMP_MINLEN = 8"
definition ROUTER_ALERT :: u16 where "ROUTER_ALERT = 0x9404"
definition IGMP_MEMB_QUERY :: u8 where "IGMP_MEMB_QUERY = 0x11"
definition IGMP_V2_MEMB_REPORT :: u8 where "IGMP_V2_MEMB_REPORT = 0x16"
definition IGMP_LEAVE_GROUP :: u8 where "IGMP_LEAVE_GROUP = 0x17"
definition IGMP_TMR_INTERVAL :: nat where "IGMP_TMR_INTERVAL = 100"
definition IGMP_V1_DELAYING_MEMBER_TMR :: u8 where "IGMP_V1_DELAYING_MEMBER_TMR = of_nat (1000 div IGMP_TMR_INTERVAL)"
definition IGMP_JOIN_DELAYING_MEMBER_TMR :: u8 where "IGMP_JOIN_DELAYING_MEMBER_TMR = of_nat (500 div IGMP_TMR_INTERVAL)"

text \<open>The two addresses that \<open>igmp_init\<close> sets.\<close>

definition allsystems :: u32 where "allsystems = IP4_ADDR 224 0 0 1"
definition allrouters :: u32 where "allrouters = IP4_ADDR 224 0 0 2"

record 'g igmp_env =
  lwip_rand :: "'g \<Rightarrow> nat \<times> 'g"
  mac_filter :: "nat \<Rightarrow> nat \<Rightarrow> u32 \<Rightarrow> bool \<Rightarrow> 'g \<Rightarrow> 'g option"
  group_malloc :: "'g \<Rightarrow> nat option"

definition upd_group :: "nat \<Rightarrow> (igmp_group \<Rightarrow> igmp_group) \<Rightarrow> 'a net_scheme \<Rightarrow> ('a net_scheme) option" where
  "upd_group grp f g = do { gr \<leftarrow> igmp_mem g grp; Some (g\<lparr>igmp_mem := (igmp_mem g)(grp \<mapsto> f gr)\<rparr>) }"

section \<open>Sending\<close>

definition igmp_ip_output_if ::
  "('a net_scheme) ip_env \<Rightarrow> nat \<Rightarrow> u32 \<Rightarrow> u32 \<Rightarrow> nat \<Rightarrow> 'a net_scheme \<Rightarrow> (err \<times> 'a net_scheme) option" where
  "igmp_ip_output_if env p src dest netif g =
     ip_output_if_opt env p (Some src) (Some dest) IGMP_TTL 0 IP_PROTO_IGMP netif (mem16 (htons ROUTER_ALERT) @ mem16 0) g"

text \<open>The message in the pbuf \<open>p\<close>.\<close>

definition send_to :: "('a net_scheme) ip_env \<Rightarrow> nat \<Rightarrow> u8 \<Rightarrow> nat \<Rightarrow> 'a net_scheme \<Rightarrow> ('a net_scheme) option" where
  "send_to env grp type p g = do {
     gr \<leftarrow> igmp_mem g grp;
     ni \<leftarrow> netif_mem g (grp_netif gr);
     let src = ni_ip_addr ni;
     g \<leftarrow> (if type = IGMP_V2_MEMB_REPORT \<or> type = IGMP_LEAVE_GROUP then do {
            b \<leftarrow> pbufs g p;
            b \<leftarrow> pb_write b 4 (bytes_le32 (group_address gr));
            g \<leftarrow> (if type = IGMP_V2_MEMB_REPORT then upd_group grp (\<lambda>gr. gr\<lparr>last_reporter_flag := 1\<rparr>) g else Some g);
            let dest = (if type = IGMP_V2_MEMB_REPORT then group_address gr else allrouters);
            b \<leftarrow> pb_write b 0 [type];
            b \<leftarrow> pb_write b 1 [0];
            b \<leftarrow> pb_write b 2 (mem16 0);
            d \<leftarrow> pb_read b 0 IGMP_MINLEN;
            b \<leftarrow> pb_write b 2 (mem16 (inet_chksum (payload_odd env b) d));
            (_, g) \<leftarrow> igmp_ip_output_if env p src dest (grp_netif gr) (g\<lparr>pbufs := (pbufs g)(p \<mapsto> b)\<rparr>);
            Some g
          }
          else Some g);
     free_pbuf p g
   }"

definition igmp_send :: "('a net_scheme) ip_env \<Rightarrow> nat \<Rightarrow> u8 \<Rightarrow> 'a net_scheme \<Rightarrow> ('a net_scheme) option" where
  "igmp_send env grp type g = do {
     (p, g) \<leftarrow> on_pbufs (pbuf_alloc (mem_malloc env) PBUF_TRANSPORT (of_nat IGMP_MINLEN) PBUF_RAM) g;
     case p of None \<Rightarrow> Some g | Some p \<Rightarrow> send_to env grp type p g
   }"

section \<open>Timers of a group\<close>

text \<open>\<open>LWIP_RAND() % (max_time - 1)\<close> divides by zero for \<open>max_time\<close> 0 and 1.\<close>

definition igmp_start_timer :: "('a net_scheme) igmp_env \<Rightarrow> nat \<Rightarrow> u8 \<Rightarrow> 'a net_scheme \<Rightarrow> ('a net_scheme) option" where
  "igmp_start_timer ienv grp max_time g =
     (let max_time = (if max_time = 0 then 1 else max_time); (r, g) = lwip_rand ienv g
      in if unat max_time - 1 = 0 then None
         else upd_group grp (\<lambda>gr. gr\<lparr>grp_timer := of_nat (r mod (unat max_time - 1) + 1)\<rparr>) g)"

definition igmp_stop_timer :: "nat \<Rightarrow> 'a net_scheme \<Rightarrow> ('a net_scheme) option" where
  "igmp_stop_timer grp g = upd_group grp (\<lambda>gr. gr\<lparr>grp_timer := 0\<rparr>) g"

definition igmp_delaying_member :: "('a net_scheme) igmp_env \<Rightarrow> nat \<Rightarrow> u8 \<Rightarrow> 'a net_scheme \<Rightarrow> ('a net_scheme) option" where
  "igmp_delaying_member ienv grp maxresp g = do {
     gr \<leftarrow> igmp_mem g grp;
     if group_state gr = IGMP_GROUP_IDLE_MEMBER \<or>
        group_state gr = IGMP_GROUP_DELAYING_MEMBER \<and> (grp_timer gr = 0 \<or> ucast maxresp < grp_timer gr)
     then do {
       g \<leftarrow> igmp_start_timer ienv grp maxresp g;
       upd_group grp (\<lambda>gr. gr\<lparr>group_state := IGMP_GROUP_DELAYING_MEMBER\<rparr>) g
     }
     else Some g
   }"

definition igmp_timeout :: "('a net_scheme) ip_env \<Rightarrow> nat \<Rightarrow> 'a net_scheme \<Rightarrow> ('a net_scheme) option" where
  "igmp_timeout env grp g = do {
     gr \<leftarrow> igmp_mem g grp;
     if group_state gr = IGMP_GROUP_DELAYING_MEMBER then igmp_send env grp IGMP_V2_MEMB_REPORT g else Some g
   }"

definition tmr_group :: "('a net_scheme) ip_env \<Rightarrow> nat \<Rightarrow> 'a net_scheme \<Rightarrow> ('a net_scheme) option" where
  "tmr_group env grp g = do {
     gr \<leftarrow> igmp_mem g grp;
     if grp_timer gr > 0 then do {
       g \<leftarrow> upd_group grp (\<lambda>gr. gr\<lparr>grp_timer := grp_timer gr - 1\<rparr>) g;
       gr \<leftarrow> igmp_mem g grp;
       if grp_timer gr = 0 then igmp_timeout env grp g else Some g
     }
     else Some g
   }"

fun over_groups :: "(nat \<Rightarrow> 'a net_scheme \<Rightarrow> ('a net_scheme) option) \<Rightarrow> nat list \<Rightarrow> 'a net_scheme \<Rightarrow> ('a net_scheme) option" where
  "over_groups f [] g = Some g"
| "over_groups f (grp # rest) g = do { g \<leftarrow> f grp g; over_groups f rest g }"

definition igmp_tmr :: "('a net_scheme) ip_env \<Rightarrow> 'a net_scheme \<Rightarrow> ('a net_scheme) option" where
  "igmp_tmr env g = over_groups (tmr_group env) (igmp_group_list g) g"

section \<open>Membership\<close>

definition igmp_lookup_group ::
  "('a net_scheme) igmp_env \<Rightarrow> nat \<Rightarrow> u32 \<Rightarrow> 'a net_scheme \<Rightarrow> (nat option \<times> 'a net_scheme) option" where
  "igmp_lookup_group ienv ifp addr g = do {
     r \<leftarrow> igmp_lookfor_group ifp addr g;
     case r of
       Some grp \<Rightarrow> Some (Some grp, g)
     | None \<Rightarrow> (case group_malloc ienv g of
           None \<Rightarrow> Some (None, g)
         | Some grp \<Rightarrow> Some (Some grp, g\<lparr>igmp_mem := (igmp_mem g)(grp \<mapsto> \<lparr>grp_netif = ifp, group_address = addr,
               last_reporter_flag = 0, group_state = IGMP_GROUP_NON_MEMBER, grp_timer = 0, grp_use = 0\<rparr>),
             igmp_group_list := grp # igmp_group_list g\<rparr>))
   }"

definition igmp_remove_group :: "nat \<Rightarrow> 'a net_scheme \<Rightarrow> err \<times> 'a net_scheme" where
  "igmp_remove_group grp g =
     (if grp \<in> set (igmp_group_list g) then ERR_OK else ERR_ARG,
      g\<lparr>igmp_group_list := remove1 grp (igmp_group_list g), igmp_mem := (igmp_mem g)(grp := None)\<rparr>)"

text \<open>The call of \<open>netif->igmp_mac_filter\<close>, when there is one; \<open>True\<close> is \<open>IGMP_ADD_MAC_FILTER\<close>.\<close>

definition call_mac_filter ::
  "('a net_scheme) igmp_env \<Rightarrow> nat \<Rightarrow> u32 \<Rightarrow> bool \<Rightarrow> 'a net_scheme \<Rightarrow> ('a net_scheme) option" where
  "call_mac_filter ienv netif addr add g = do {
     ni \<leftarrow> netif_mem g netif;
     if ni_igmp_mac_filter ni \<noteq> 0 then mac_filter ienv (ni_igmp_mac_filter ni) netif addr add g else Some g
   }"

definition igmp_start :: "('a net_scheme) igmp_env \<Rightarrow> nat \<Rightarrow> 'a net_scheme \<Rightarrow> (err \<times> 'a net_scheme) option" where
  "igmp_start ienv netif g = do {
     (r, g) \<leftarrow> igmp_lookup_group ienv netif allsystems g;
     case r of
       None \<Rightarrow> Some (ERR_MEM, g)
     | Some grp \<Rightarrow> do {
         g \<leftarrow> upd_group grp (\<lambda>gr. gr\<lparr>group_state := IGMP_GROUP_IDLE_MEMBER, grp_use := grp_use gr + 1\<rparr>) g;
         g \<leftarrow> call_mac_filter ienv netif allsystems True g;
         Some (ERR_OK, g)
       }
   }"

definition stop_group :: "('a net_scheme) igmp_env \<Rightarrow> nat \<Rightarrow> nat \<Rightarrow> 'a net_scheme \<Rightarrow> ('a net_scheme) option" where
  "stop_group ienv netif grp g = do {
     gr \<leftarrow> igmp_mem g grp;
     if grp_netif gr = netif then do {
       g \<leftarrow> call_mac_filter ienv netif (group_address gr) False (g\<lparr>igmp_group_list := remove1 grp (igmp_group_list g)\<rparr>);
       Some (g\<lparr>igmp_mem := (igmp_mem g)(grp := None)\<rparr>)
     }
     else Some g
   }"

definition igmp_stop :: "('a net_scheme) igmp_env \<Rightarrow> nat \<Rightarrow> 'a net_scheme \<Rightarrow> (err \<times> 'a net_scheme) option" where
  "igmp_stop ienv netif g = do { g \<leftarrow> over_groups (stop_group ienv netif) (igmp_group_list g) g; Some (ERR_OK, g) }"

definition report_group :: "('a net_scheme) igmp_env \<Rightarrow> nat \<Rightarrow> nat \<Rightarrow> 'a net_scheme \<Rightarrow> ('a net_scheme) option" where
  "report_group ienv netif grp g = do {
     gr \<leftarrow> igmp_mem g grp;
     if grp_netif gr = netif then igmp_delaying_member ienv grp IGMP_JOIN_DELAYING_MEMBER_TMR g else Some g
   }"

definition igmp_report_groups :: "('a net_scheme) igmp_env \<Rightarrow> nat \<Rightarrow> 'a net_scheme \<Rightarrow> ('a net_scheme) option" where
  "igmp_report_groups ienv netif g = over_groups (report_group ienv netif) (igmp_group_list g) g"

text \<open>Whether an interface takes part in a join or leave.\<close>

definition igmp_selected :: "u32 \<Rightarrow> netif \<Rightarrow> bool" where
  "igmp_selected ifaddr ni \<longleftrightarrow> ni_flags ni AND NETIF_FLAG_IGMP \<noteq> 0 \<and> (ip_addr_isany ifaddr \<or> ni_ip_addr ni = ifaddr)"

definition join_group ::
  "('a net_scheme) ip_env \<Rightarrow> ('a net_scheme) igmp_env \<Rightarrow> nat \<Rightarrow> u32 \<Rightarrow> nat \<Rightarrow> 'a net_scheme \<Rightarrow> ('a net_scheme) option" where
  "join_group env ienv netif groupaddr grp g = do {
     gr \<leftarrow> igmp_mem g grp;
     g \<leftarrow> (if group_state gr \<noteq> IGMP_GROUP_NON_MEMBER then Some g
          else do {
            g \<leftarrow> (if grp_use gr = 0 then call_mac_filter ienv netif groupaddr True g else Some g);
            g \<leftarrow> igmp_send env grp IGMP_V2_MEMB_REPORT g;
            g \<leftarrow> igmp_start_timer ienv grp IGMP_JOIN_DELAYING_MEMBER_TMR g;
            upd_group grp (\<lambda>gr. gr\<lparr>group_state := IGMP_GROUP_DELAYING_MEMBER\<rparr>) g
          });
     upd_group grp (\<lambda>gr. gr\<lparr>grp_use := grp_use gr + 1\<rparr>) g
   }"

fun join_loop ::
  "('a net_scheme) ip_env \<Rightarrow> ('a net_scheme) igmp_env \<Rightarrow> u32 \<Rightarrow> u32 \<Rightarrow> err \<Rightarrow> nat list \<Rightarrow> 'a net_scheme \<Rightarrow> (err \<times> 'a net_scheme) option" where
  "join_loop env ienv ifaddr groupaddr err [] g = Some (err, g)"
| "join_loop env ienv ifaddr groupaddr err (netif # rest) g = do {
     ni \<leftarrow> netif_mem g netif;
     if igmp_selected ifaddr ni then do {
       (r, g) \<leftarrow> igmp_lookup_group ienv netif groupaddr g;
       case r of
         None \<Rightarrow> Some (ERR_MEM, g)
       | Some grp \<Rightarrow> do { g \<leftarrow> join_group env ienv netif groupaddr grp g; join_loop env ienv ifaddr groupaddr ERR_OK rest g }
     }
     else join_loop env ienv ifaddr groupaddr err rest g
   }"

definition igmp_joingroup ::
  "('a net_scheme) ip_env \<Rightarrow> ('a net_scheme) igmp_env \<Rightarrow> u32 \<Rightarrow> u32 \<Rightarrow> 'a net_scheme \<Rightarrow> (err \<times> 'a net_scheme) option" where
  "igmp_joingroup env ienv ifaddr groupaddr g =
     (if \<not> ip_addr_ismulticast groupaddr then Some (ERR_VAL, g)
      else if groupaddr = allsystems then Some (ERR_VAL, g)
      else join_loop env ienv ifaddr groupaddr ERR_VAL (netif_list g) g)"

definition leave_group ::
  "('a net_scheme) ip_env \<Rightarrow> ('a net_scheme) igmp_env \<Rightarrow> nat \<Rightarrow> u32 \<Rightarrow> nat \<Rightarrow> 'a net_scheme \<Rightarrow> ('a net_scheme) option" where
  "leave_group env ienv netif groupaddr grp g = do {
     gr \<leftarrow> igmp_mem g grp;
     if grp_use gr \<le> 1 then do {
       g \<leftarrow> (if last_reporter_flag gr \<noteq> 0 then igmp_send env grp IGMP_LEAVE_GROUP g else Some g);
       g \<leftarrow> call_mac_filter ienv netif groupaddr False g;
       Some (snd (igmp_remove_group grp g))
     }
     else upd_group grp (\<lambda>gr. gr\<lparr>grp_use := grp_use gr - 1\<rparr>) g
   }"

fun leave_loop ::
  "('a net_scheme) ip_env \<Rightarrow> ('a net_scheme) igmp_env \<Rightarrow> u32 \<Rightarrow> u32 \<Rightarrow> err \<Rightarrow> nat list \<Rightarrow> 'a net_scheme \<Rightarrow> (err \<times> 'a net_scheme) option" where
  "leave_loop env ienv ifaddr groupaddr err [] g = Some (err, g)"
| "leave_loop env ienv ifaddr groupaddr err (netif # rest) g = do {
     ni \<leftarrow> netif_mem g netif;
     if igmp_selected ifaddr ni then do {
       r \<leftarrow> igmp_lookfor_group netif groupaddr g;
       case r of
         None \<Rightarrow> leave_loop env ienv ifaddr groupaddr err rest g
       | Some grp \<Rightarrow> do { g \<leftarrow> leave_group env ienv netif groupaddr grp g; leave_loop env ienv ifaddr groupaddr ERR_OK rest g }
     }
     else leave_loop env ienv ifaddr groupaddr err rest g
   }"

definition igmp_leavegroup ::
  "('a net_scheme) ip_env \<Rightarrow> ('a net_scheme) igmp_env \<Rightarrow> u32 \<Rightarrow> u32 \<Rightarrow> 'a net_scheme \<Rightarrow> (err \<times> 'a net_scheme) option" where
  "igmp_leavegroup env ienv ifaddr groupaddr g =
     (if \<not> ip_addr_ismulticast groupaddr then Some (ERR_VAL, g)
      else if groupaddr = allsystems then Some (ERR_VAL, g)
      else leave_loop env ienv ifaddr groupaddr ERR_VAL (netif_list g) g)"

section \<open>Input\<close>

definition query_group :: "('a net_scheme) igmp_env \<Rightarrow> nat \<Rightarrow> u8 \<Rightarrow> nat \<Rightarrow> 'a net_scheme \<Rightarrow> ('a net_scheme) option" where
  "query_group ienv inp maxresp grp g = do {
     gr \<leftarrow> igmp_mem g grp;
     if grp_netif gr = inp \<and> group_address gr \<noteq> allsystems then igmp_delaying_member ienv grp maxresp g else Some g
   }"

text \<open>\<open>igmp_maxresp\<close> is written back for queries of version 1.\<close>

definition igmp_query :: "('a net_scheme) igmp_env \<Rightarrow> nat \<Rightarrow> nat \<Rightarrow> u32 \<Rightarrow> nat \<Rightarrow> 'a net_scheme \<Rightarrow> ('a net_scheme) option" where
  "igmp_query ienv p inp dest grp g = do {
     b \<leftarrow> pbufs g p;
     maxresp \<leftarrow> hdr8 b 1;
     addr \<leftarrow> hdr32 b 4;
     if dest = allsystems \<and> ip_addr_isany addr then do {
       b \<leftarrow> (if maxresp = 0 then pb_write b 1 [IGMP_V1_DELAYING_MEMBER_TMR] else Some b);
       maxresp \<leftarrow> hdr8 b 1;
       let g = g\<lparr>pbufs := (pbufs g)(p \<mapsto> b)\<rparr>;
       over_groups (query_group ienv inp maxresp) (igmp_group_list g) g
     }
     else if \<not> ip_addr_isany addr then do {
       r \<leftarrow> (if dest = allsystems then igmp_lookfor_group inp addr g else Some (Some grp));
       case r of None \<Rightarrow> Some g | Some grp \<Rightarrow> igmp_delaying_member ienv grp maxresp g
     }
     else Some g
   }"

definition igmp_report :: "nat \<Rightarrow> 'a net_scheme \<Rightarrow> ('a net_scheme) option" where
  "igmp_report grp g = do {
     gr \<leftarrow> igmp_mem g grp;
     if group_state gr = IGMP_GROUP_DELAYING_MEMBER
     then upd_group grp (\<lambda>gr. gr\<lparr>grp_timer := 0, group_state := IGMP_GROUP_IDLE_MEMBER, last_reporter_flag := 0\<rparr>) g
     else Some g
   }"

definition igmp_input ::
  "('a net_scheme) ip_env \<Rightarrow> ('a net_scheme) igmp_env \<Rightarrow> nat \<Rightarrow> nat \<Rightarrow> u32 \<Rightarrow> 'a net_scheme \<Rightarrow> ('a net_scheme) option" where
  "igmp_input env ienv p inp dest g = do {
     b \<leftarrow> pbufs g p;
     w \<leftarrow> hdr16 b 0;
     (st, g) \<leftarrow> on_pbufs (pbuf_header (Some p) (- int (unat (IPH_HL w) * 4))) g;
     b \<leftarrow> pbufs g p;
     if st \<noteq> 0 \<or> unat (pb_len b) < IGMP_MINLEN then free_pbuf p g
     else do {
       d \<leftarrow> pb_read b 0 (unat (pb_len b));
       if inet_chksum (payload_odd env b) d \<noteq> 0 then free_pbuf p g
       else do {
         r \<leftarrow> igmp_lookfor_group inp dest g;
         case r of
           None \<Rightarrow> free_pbuf p g
         | Some grp \<Rightarrow> do {
             type \<leftarrow> hdr8 b 0;
             g \<leftarrow> (if type = IGMP_MEMB_QUERY then igmp_query ienv p inp dest grp g
                  else if type = IGMP_V2_MEMB_REPORT then igmp_report grp g
                  else Some g);
             free_pbuf p g
           }
       }
     }
   }"

end
