(* ===== verification/Udp.thy ===== *)
theory Udp
  imports Icmp
begin

text \<open>
  UDP, \<open>src/lwip/core/udp.c\<close>, in the configuration of \<open>lwipopts.h\<close>: no UDP-Lite, no \<open>SO_REUSE\<close>, no broadcast filter,
  checksums generated and checked, DHCP and IGMP on.  The control blocks are in \<open>udp_mem\<close>; \<open>udp_pcbs\<close> is the list of the active ones.
  The receive callbacks are the parameter \<open>recv_fn\<close>, the allocation of a control block the parameter \<open>alloc\<close>.
\<close>

section \<open>Data\<close>

definition UDP_HLEN :: int where "UDP_HLEN = 8"
definition UDP_TTL :: u8 where "UDP_TTL = 255"
definition UDP_FLAGS_NOCHKSUM :: u8 where "UDP_FLAGS_NOCHKSUM = 0x01"
definition UDP_FLAGS_CONNECTED :: u8 where "UDP_FLAGS_CONNECTED = 0x04"
definition UDP_FLAGS_MULTICAST_LOOP :: u8 where "UDP_FLAGS_MULTICAST_LOOP = 0x08"
definition PBUF_FLAG_MCASTLOOP :: u8 where "PBUF_FLAG_MCASTLOOP = 0x04"
definition DHCP_CLIENT_PORT :: u16 where "DHCP_CLIENT_PORT = 68"
definition DHCP_SERVER_PORT :: u16 where "DHCP_SERVER_PORT = 67"
definition UDP_LOCAL_PORT_RANGE_START :: u16 where "UDP_LOCAL_PORT_RANGE_START = 4096"
definition UDP_LOCAL_PORT_RANGE_END :: u16 where "UDP_LOCAL_PORT_RANGE_END = 0x7fff"

record udp_hdr =
  udp_src :: u16
  udp_dest :: u16
  udp_len :: u16
  udp_chksum :: u16

definition udp_hdr_bytes :: "udp_hdr \<Rightarrow> bytes" where
  "udp_hdr_bytes h = mem16 (udp_src h) @ mem16 (udp_dest h) @ mem16 (udp_len h) @ mem16 (udp_chksum h)"

type_synonym 'g udp_recv_fn = "nat \<Rightarrow> nat \<Rightarrow> nat \<Rightarrow> nat \<Rightarrow> u32 \<Rightarrow> u16 \<Rightarrow> 'g \<Rightarrow> 'g option"

definition upd_udp :: "nat \<Rightarrow> (udp_pcb \<Rightarrow> udp_pcb) \<Rightarrow> 'a net_scheme \<Rightarrow> ('a net_scheme) option" where
  "upd_udp pcb f g = do { u \<leftarrow> udp_mem g pcb; Some (g\<lparr>udp_mem := (udp_mem g)(pcb \<mapsto> f u)\<rparr>) }"

section \<open>Control blocks\<close>

definition udp_pcb_zero :: udp_pcb where
  "udp_pcb_zero = \<lparr>upcb_local_ip = 0, upcb_remote_ip = 0, upcb_so_options = 0, upcb_tos = 0, upcb_ttl = 0, upcb_flags = 0,
     upcb_local_port = 0, upcb_remote_port = 0, upcb_multicast_ip = 0, upcb_recv = 0, upcb_recv_arg = 0\<rparr>"

definition udp_new :: "('a net_scheme \<Rightarrow> nat option) \<Rightarrow> 'a net_scheme \<Rightarrow> nat option \<times> 'a net_scheme" where
  "udp_new alloc g = (case alloc g of
       None \<Rightarrow> (None, g)
     | Some pcb \<Rightarrow> (Some pcb, g\<lparr>udp_mem := (udp_mem g)(pcb \<mapsto> udp_pcb_zero\<lparr>upcb_ttl := UDP_TTL\<rparr>)\<rparr>))"

text \<open>The search for double binds: \<open>None\<close> is the return of \<open>ERR_USE\<close>, otherwise whether the block is on the list.\<close>

fun bind_scan :: "nat \<Rightarrow> u32 \<Rightarrow> u16 \<Rightarrow> bool \<Rightarrow> nat list \<Rightarrow> 'a net_scheme \<Rightarrow> bool option option" where
  "bind_scan pcb ipaddr port rebind [] g = Some (Some rebind)"
| "bind_scan pcb ipaddr port rebind (ipcb # rest) g =
     (if pcb = ipcb then bind_scan pcb ipaddr port True rest g
      else do {
        u \<leftarrow> udp_mem g ipcb;
        if upcb_local_port u = port \<and>
           (ip_addr_isany (upcb_local_ip u) \<or> ip_addr_isany ipaddr \<or> upcb_local_ip u = ipaddr)
        then Some None
        else bind_scan pcb ipaddr port rebind rest g
      })"

text \<open>The search for a free port: the loop restarts at the head of the list with the next port; \<open>todo\<close> is the list from
  \<open>ipcb\<close> on.  \<open>None\<close> as the port means that none is free.\<close>

function port_scan :: "nat list \<Rightarrow> u16 \<Rightarrow> 'a net_scheme \<Rightarrow> u16 option option" where
  "port_scan todo port g = (case todo of
       [] \<Rightarrow> Some (Some port)
     | ipcb # rest \<Rightarrow>
         if port = UDP_LOCAL_PORT_RANGE_END then Some None
         else do {
           u \<leftarrow> udp_mem g ipcb;
           if upcb_local_port u = port then port_scan (udp_pcbs g) (port + 1) g
           else port_scan rest port g
         })"
  by pat_completeness auto

termination
proof (relation "measures [\<lambda>(todo, port, g). unat (UDP_LOCAL_PORT_RANGE_END - port), \<lambda>(todo, port, g). length todo]")
  fix todo :: "nat list" and port :: u16 and g :: "'a net_scheme" and x21 x22 x
  assume "port \<noteq> UDP_LOCAL_PORT_RANGE_END"
  then have "UDP_LOCAL_PORT_RANGE_END - port \<noteq> 0" by simp
  then have "unat (UDP_LOCAL_PORT_RANGE_END - port - 1) < unat (UDP_LOCAL_PORT_RANGE_END - port)"
    by (simp add: unat_gt_0 unat_minus_one)
  then show "((udp_pcbs g, port + 1, g), todo, port, g) \<in>
      measures [\<lambda>(todo, port, g). unat (UDP_LOCAL_PORT_RANGE_END - port), \<lambda>(todo, port, g). length todo]"
    by (simp add: diff_diff_eq)
qed simp_all

definition udp_bind :: "nat \<Rightarrow> u32 \<Rightarrow> u16 \<Rightarrow> 'a net_scheme \<Rightarrow> (err \<times> 'a net_scheme) option" where
  "udp_bind pcb ipaddr port g = do {
     r \<leftarrow> bind_scan pcb ipaddr port False (udp_pcbs g) g;
     case r of
       None \<Rightarrow> Some (ERR_USE, g)
     | Some rebind \<Rightarrow> do {
         g \<leftarrow> upd_udp pcb (\<lambda>u. u\<lparr>upcb_local_ip := ipaddr\<rparr>) g;
         port \<leftarrow> (if port = 0 then port_scan (udp_pcbs g) UDP_LOCAL_PORT_RANGE_START g else Some (Some port));
         case port of
           None \<Rightarrow> Some (ERR_USE, g)
         | Some port \<Rightarrow> do {
             g \<leftarrow> upd_udp pcb (\<lambda>u. u\<lparr>upcb_local_port := port\<rparr>) g;
             Some (ERR_OK, if rebind then g else g\<lparr>udp_pcbs := pcb # udp_pcbs g\<rparr>)
           }
       }
   }"

text \<open>The binding of a block that has no port yet.\<close>

definition udp_autobind :: "nat \<Rightarrow> 'a net_scheme \<Rightarrow> (err \<times> 'a net_scheme) option" where
  "udp_autobind pcb g = do {
     u \<leftarrow> udp_mem g pcb;
     if upcb_local_port u = 0 then udp_bind pcb (upcb_local_ip u) (upcb_local_port u) g else Some (ERR_OK, g)
   }"

definition udp_connect :: "nat \<Rightarrow> u32 \<Rightarrow> u16 \<Rightarrow> 'a net_scheme \<Rightarrow> (err \<times> 'a net_scheme) option" where
  "udp_connect pcb ipaddr port g = do {
     (e, g) \<leftarrow> udp_autobind pcb g;
     if e \<noteq> ERR_OK then Some (e, g)
     else do {
       g \<leftarrow> upd_udp pcb (\<lambda>u. u\<lparr>upcb_remote_ip := ipaddr, upcb_remote_port := port,
              upcb_flags := upcb_flags u OR UDP_FLAGS_CONNECTED\<rparr>) g;
       Some (ERR_OK, if pcb \<in> set (udp_pcbs g) then g else g\<lparr>udp_pcbs := pcb # udp_pcbs g\<rparr>)
     }
   }"

definition udp_disconnect :: "nat \<Rightarrow> 'a net_scheme \<Rightarrow> ('a net_scheme) option" where
  "udp_disconnect pcb g = upd_udp pcb (\<lambda>u. u\<lparr>upcb_remote_ip := 0, upcb_remote_port := 0,
     upcb_flags := upcb_flags u AND NOT UDP_FLAGS_CONNECTED\<rparr>) g"

definition udp_recv :: "nat \<Rightarrow> nat \<Rightarrow> nat \<Rightarrow> 'a net_scheme \<Rightarrow> ('a net_scheme) option" where
  "udp_recv pcb fn arg g = upd_udp pcb (\<lambda>u. u\<lparr>upcb_recv := fn, upcb_recv_arg := arg\<rparr>) g"

definition udp_remove :: "nat \<Rightarrow> 'a net_scheme \<Rightarrow> 'a net_scheme" where
  "udp_remove pcb g = g\<lparr>udp_pcbs := remove1 pcb (udp_pcbs g), udp_mem := (udp_mem g)(pcb := None)\<rparr>"

section \<open>Sending\<close>

definition udp_sendto_if ::
  "('a net_scheme) ip_env \<Rightarrow> nat \<Rightarrow> nat \<Rightarrow> u32 \<Rightarrow> u16 \<Rightarrow> nat \<Rightarrow> 'a net_scheme \<Rightarrow> (err \<times> 'a net_scheme) option" where
  "udp_sendto_if env pcb p dst_ip dst_port netif g = do {
     (e, g) \<leftarrow> udp_autobind pcb g;
     if e \<noteq> ERR_OK then Some (e, g)
     else do {
       (st, g) \<leftarrow> on_pbufs (pbuf_header (Some p) UDP_HLEN) g;
       (q, g) \<leftarrow>
         (if st \<noteq> 0 then do {
            (q, g) \<leftarrow> on_pbufs (pbuf_alloc (mem_malloc env) PBUF_IP (of_int UDP_HLEN) PBUF_RAM) g;
            case q of
              None \<Rightarrow> Some (None, g)
            | Some q' \<Rightarrow> do {
                b \<leftarrow> pbufs g p;
                if tot_len b \<noteq> 0 then do { h \<leftarrow> pbuf_chain q (Some p) (pbufs g); Some (q, g\<lparr>pbufs := h\<rparr>) }
                else Some (q, g)
              }
          }
          else Some (Some p, g));
       case q of
         None \<Rightarrow> Some (ERR_MEM, g)
       | Some q \<Rightarrow> do {
           u \<leftarrow> udp_mem g pcb;
           b \<leftarrow> pbufs g q;
           b \<leftarrow> pb_write b 0 (mem16 (htons (upcb_local_port u)));
           b \<leftarrow> pb_write b 2 (mem16 (htons dst_port));
           b \<leftarrow> pb_write b 6 (mem16 0);
           let b = (if ip_addr_ismulticast dst_ip \<and> upcb_flags u AND UDP_FLAGS_MULTICAST_LOOP \<noteq> 0
                    then b\<lparr>pb_flags := pb_flags b OR PBUF_FLAG_MCASTLOOP\<rparr> else b);
           let g = g\<lparr>pbufs := (pbufs g)(q \<mapsto> b)\<rparr>;
           ni \<leftarrow> netif_mem g netif;
           if \<not> ip_addr_isany (upcb_local_ip u) \<and> upcb_local_ip u \<noteq> ni_ip_addr ni then do {
             g \<leftarrow> (if q \<noteq> p then free_pbuf q g else Some g);
             Some (ERR_VAL, g)
           }
           else do {
             let src_ip = (if ip_addr_isany (upcb_local_ip u) then ni_ip_addr ni else upcb_local_ip u);
             b \<leftarrow> pb_write b 4 (mem16 (htons (tot_len b)));
             let g = g\<lparr>pbufs := (pbufs g)(q \<mapsto> b)\<rparr>;
             g \<leftarrow> (if upcb_flags u AND UDP_FLAGS_NOCHKSUM = 0 then do {
                    c \<leftarrow> inet_chksum_pseudo (payload_odd env) (Some q) src_ip dst_ip IP_PROTO_UDP (tot_len b) (pbufs g);
                    b \<leftarrow> pb_write b 6 (mem16 (if c = 0 then 0xffff else c));
                    Some (g\<lparr>pbufs := (pbufs g)(q \<mapsto> b)\<rparr>)
                  }
                  else Some g);
             (e, g) \<leftarrow> ip_output_if env q (Some src_ip) (Some dst_ip) (upcb_ttl u) (upcb_tos u) IP_PROTO_UDP netif g;
             g \<leftarrow> (if q \<noteq> p then free_pbuf q g else Some g);
             Some (e, g)
           }
         }
     }
   }"

definition udp_sendto ::
  "('a net_scheme) ip_env \<Rightarrow> nat \<Rightarrow> nat \<Rightarrow> u32 \<Rightarrow> u16 \<Rightarrow> 'a net_scheme \<Rightarrow> (err \<times> 'a net_scheme) option" where
  "udp_sendto env pcb p dst_ip dst_port g = do {
     u \<leftarrow> udp_mem g pcb;
     r \<leftarrow> ip_route (if ip_addr_ismulticast dst_ip then upcb_multicast_ip u else dst_ip) g;
     case r of None \<Rightarrow> Some (ERR_RTE, g) | Some netif \<Rightarrow> udp_sendto_if env pcb p dst_ip dst_port netif g
   }"

definition udp_send :: "('a net_scheme) ip_env \<Rightarrow> nat \<Rightarrow> nat \<Rightarrow> 'a net_scheme \<Rightarrow> (err \<times> 'a net_scheme) option" where
  "udp_send env pcb p g = do { u \<leftarrow> udp_mem g pcb; udp_sendto env pcb p (upcb_remote_ip u) (upcb_remote_port u) g }"

section \<open>Receiving\<close>

definition udp_local_match :: "bool \<Rightarrow> u32 \<Rightarrow> u16 \<Rightarrow> udp_pcb \<Rightarrow> bool" where
  "udp_local_match broadcast dest_ip dest u \<longleftrightarrow> upcb_local_port u = dest \<and>
     (\<not> broadcast \<and> ip_addr_isany (upcb_local_ip u) \<or> upcb_local_ip u = dest_ip \<or> ip_addr_ismulticast dest_ip \<or> broadcast)"

definition udp_remote_match :: "u32 \<Rightarrow> u16 \<Rightarrow> udp_pcb \<Rightarrow> bool" where
  "udp_remote_match src_ip src u \<longleftrightarrow> upcb_remote_port u = src \<and>
     (ip_addr_isany (upcb_remote_ip u) \<or> upcb_remote_ip u = src_ip)"

text \<open>The search loop: the first full match, or the first unconnected local match.\<close>

fun udp_scan ::
  "bool \<Rightarrow> u32 \<Rightarrow> u16 \<Rightarrow> u32 \<Rightarrow> u16 \<Rightarrow> nat option \<Rightarrow> nat list \<Rightarrow> 'a net_scheme \<Rightarrow> (nat option \<times> nat option) option" where
  "udp_scan broadcast dest_ip dest src_ip src uncon [] g = Some (None, uncon)"
| "udp_scan broadcast dest_ip dest src_ip src uncon (pcb # rest) g = do {
     u \<leftarrow> udp_mem g pcb;
     let local_match = udp_local_match broadcast dest_ip dest u;
     let uncon = (if local_match \<and> uncon = None \<and> upcb_flags u AND UDP_FLAGS_CONNECTED = 0 then Some pcb else uncon);
     if local_match \<and> udp_remote_match src_ip src u then Some (Some pcb, uncon)
     else udp_scan broadcast dest_ip dest src_ip src uncon rest g
   }"

definition udp_find_pcb :: "nat \<Rightarrow> bool \<Rightarrow> u16 \<Rightarrow> u16 \<Rightarrow> 'a net_scheme \<Rightarrow> (nat option \<times> 'a net_scheme) option" where
  "udp_find_pcb inp broadcast src dest g =
     (if dest = DHCP_CLIENT_PORT then
        (if src = DHCP_SERVER_PORT then do {
           ni \<leftarrow> netif_mem g inp;
           case ni_dhcp ni of
             None \<Rightarrow> Some (None, g)
           | Some dh \<Rightarrow> do {
               pcb \<leftarrow> dhcp_pcb g dh;
               case pcb of
                 None \<Rightarrow> Some (None, g)
               | Some a \<Rightarrow> do {
                   u \<leftarrow> udp_mem g a;
                   Some (if ip_addr_isany (upcb_remote_ip u) \<or> upcb_remote_ip u = current_iphdr_src g then Some a else None, g)
                 }
             }
         }
         else Some (None, g))
      else do {
        (full, uncon) \<leftarrow> udp_scan broadcast (current_iphdr_dest g) dest (current_iphdr_src g) src None (udp_pcbs g) g;
        case full of
          Some a \<Rightarrow> Some (Some a, g\<lparr>udp_pcbs := a # remove1 a (udp_pcbs g)\<rparr>)
        | None \<Rightarrow> Some (uncon, g)
      })"

text \<open>What happens to the datagram once a control block is found or not; \<open>back\<close> is the length of both headers.\<close>

definition udp_deliver ::
  "('a net_scheme) ip_env \<Rightarrow> ('a net_scheme) udp_recv_fn \<Rightarrow> nat \<Rightarrow> int \<Rightarrow> bool \<Rightarrow> u16 \<Rightarrow> nat option \<Rightarrow> 'a net_scheme \<Rightarrow> ('a net_scheme) option" where
  "udp_deliver env recv_fn p back broadcast src pcb g = (case pcb of
       Some a \<Rightarrow> do {
         u \<leftarrow> udp_mem g a;
         if upcb_recv u \<noteq> 0 then recv_fn (upcb_recv u) (upcb_recv_arg u) a p (current_iphdr_src g) src g
         else free_pbuf p g
       }
     | None \<Rightarrow> do {
         g \<leftarrow> (if \<not> broadcast \<and> \<not> ip_addr_ismulticast (current_iphdr_dest g) then do {
                (_, g) \<leftarrow> on_pbufs (pbuf_header (Some p) back) g;
                icmp_dest_unreach env p ICMP_DUR_PORT g
              }
              else Some g);
         free_pbuf p g
       })"

definition udp_input ::
  "('a net_scheme) ip_env \<Rightarrow> ('a net_scheme) udp_recv_fn \<Rightarrow> nat \<Rightarrow> nat \<Rightarrow> 'a net_scheme \<Rightarrow> ('a net_scheme) option" where
  "udp_input env recv_fn p inp g = do {
     b \<leftarrow> pbufs g p;
     w \<leftarrow> hdr16 b 0;
     let hlen = int (unat (IPH_HL w) * 4);
     if int (unat (tot_len b)) < hlen + UDP_HLEN then free_pbuf p g
     else do {
       (st, g) \<leftarrow> on_pbufs (pbuf_header (Some p) (- hlen)) g;
       if st \<noteq> 0 then free_pbuf p g
       else do {
         b \<leftarrow> pbufs g p;
         ni \<leftarrow> netif_mem g inp;
         let broadcast = ip4_addr_isbroadcast (current_iphdr_dest g) ni;
         src \<leftarrow> map_option ntohs (hdr16 b 0);
         dest \<leftarrow> map_option ntohs (hdr16 b 2);
         (pcb, g) \<leftarrow> udp_find_pcb inp broadcast src dest g;
         if pcb \<noteq> None \<or> ni_ip_addr ni = current_iphdr_dest g then do {
           chksum \<leftarrow> hdr16 b 6;
           c \<leftarrow> (if chksum \<noteq> 0
                then inet_chksum_pseudo (payload_odd env) (Some p) (current_iphdr_src g) (current_iphdr_dest g) IP_PROTO_UDP
                       (tot_len b) (pbufs g)
                else Some 0);
           if c \<noteq> 0 then free_pbuf p g
           else do {
             (st, g) \<leftarrow> on_pbufs (pbuf_header (Some p) (- UDP_HLEN)) g;
             if st \<noteq> 0 then free_pbuf p g
             else udp_deliver env recv_fn p (hlen + UDP_HLEN) broadcast src pcb g
           }
         }
         else free_pbuf p g
       }
     }
   }"

end
