(* ===== verification/User_Main.thy ===== *)
theory User_Main
  imports Message Etharp_Spec Comm_Link Igmp Udp
begin

text \<open>
  The main program, \<open>src/user_main/user_main.c\<close>: interception of the network interface, forwarding of packets between
  the network and the host, and the handler of the host's messages.

  Its globals extend those of \<open>comm.c\<close>.  The vendor's SDK is the parameter \<open>user_api\<close>.  Its configuration functions see
  the network globals and the SDK state, the wireless driver sees the packet buffers and the SDK state; neither
  touches the variables of \<open>comm.c\<close> and \<open>user_main.c\<close>.  A function pointer is an address; the functions whose addresses
  are stored in network structures have the addresses below (any distinct non-zero numbers would do).

  \<open>irq_save\<close> and \<open>irq_restore\<close> delimit a section that no interrupt handler enters; they do not change the modelled state.
\<close>

section \<open>Globals\<close>

definition MAX_PACKET_SIZE :: u16 where "MAX_PACKET_SIZE = 1600"

definition RAW_RECEIVER :: nat where "RAW_RECEIVER = 1"
definition NETIF_INPUT_MITM :: nat where "NETIF_INPUT_MITM = 2"
definition NETIF_OUTPUT_MITM :: nat where "NETIF_OUTPUT_MITM = 3"
definition NETIF_LINKOUTPUT_MITM :: nat where "NETIF_LINKOUTPUT_MITM = 4"
definition ETHARP_OUTPUT :: nat where "ETHARP_OUTPUT = 5"
definition ETHERNET_INPUT :: nat where "ETHERNET_INPUT = 6"

record 's user = "'s comm" +
  forward_ip_broadcasts :: u8
  global_forwarding_mode :: u8
  raw_pcb_tcp :: "nat option"
  raw_pcb_udp :: "nat option"
  netif_input_orig :: nat
  netif_output_orig :: nat
  netif_linkoutput_orig :: nat

section \<open>The SDK\<close>

text \<open>Values and structures of the SDK's documented interface, and \<open>struct ip_info\<close> of \<open>ip_addr.h\<close>.\<close>

definition NULL_MODE :: u8 where "NULL_MODE = 0"
definition STATION_MODE :: u8 where "STATION_MODE = 1"
definition SOFTAP_MODE :: u8 where "SOFTAP_MODE = 2"
definition STATIONAP_MODE :: u8 where "STATIONAP_MODE = 3"

datatype sleep_type = NONE_SLEEP_T | LIGHT_SLEEP_T | MODEM_SLEEP_T
datatype dhcp_status = DHCP_STOPPED | DHCP_STARTED
datatype if_index = STATION_IF | SOFTAP_IF
datatype station_status = STATION_IDLE | STATION_CONNECTING | STATION_WRONG_PASSWORD | STATION_NO_AP_FOUND
  | STATION_CONNECT_FAIL | STATION_GOT_IP | Station_Other

record ip_info =
  info_ip :: u32
  info_netmask :: u32
  info_gw :: u32

record station_config =
  sta_ssid :: bytes
  sta_password :: bytes
  sta_bssid_set :: u8
  sta_bssid :: bytes

record softap_config =
  sap_ssid :: bytes
  sap_password :: bytes
  sap_ssid_len :: u8
  sap_channel :: u8
  sap_authmode :: u8
  sap_ssid_hidden :: u8
  sap_max_connection :: u8
  sap_beacon_interval :: u16

record scan_config =
  scan_ssid :: "bytes option"
  scan_bssid :: "bytes option"
  scan_channel :: u8
  scan_show_hidden :: u8

text \<open>An access point found by a scan; \<open>bss_ssid\<close> is the string without its terminator.\<close>

record bss_info =
  bss_ssid :: bytes
  bss_bssid :: bytes
  bss_channel :: u8
  bss_authmode :: u8
  bss_rssi :: "8 word"
  bss_is_hidden :: u8

text \<open>The bool of a call tells its success.  The sizes are those of the \<open>ssid\<close> and \<open>password\<close> arrays of the SDK's
  configuration structures.  The \<open>stack\<close> members are what uninitialised local variables hold.  The \<open>drv\<close> members are called
  through pointers, by address; the \<open>call\<close> members are the other protocols of the stack, which may send packets and so
  get the whole state.\<close>

type_synonym 's world = "net \<times> 's"
type_synonym 's driver = "pheap \<times> 's"

record 's user_api = "'s comm_api" +
  sizeof_ssid :: nat
  sizeof_password :: nat
  biggest_alignment :: int
  system_get_sdk_version :: string
  fw_version :: string
  system_partition_table_regist :: "'s world \<Rightarrow> bool \<times> 's world"
  wifi_set_phy_mode_11n :: "'s world \<Rightarrow> bool \<times> 's world"
  wifi_set_sleep_type :: "sleep_type \<Rightarrow> 's world \<Rightarrow> bool \<times> 's world"
  wifi_set_opmode :: "u8 \<Rightarrow> 's world \<Rightarrow> bool \<times> 's world"
  wifi_get_opmode :: "'s world \<Rightarrow> u8"
  wifi_station_dhcpc_status :: "'s world \<Rightarrow> dhcp_status"
  wifi_station_dhcpc_start :: "'s world \<Rightarrow> bool \<times> 's world"
  wifi_station_dhcpc_stop :: "'s world \<Rightarrow> bool \<times> 's world"
  wifi_softap_dhcps_status :: "'s world \<Rightarrow> dhcp_status"
  wifi_softap_dhcps_start :: "'s world \<Rightarrow> bool \<times> 's world"
  wifi_softap_dhcps_stop :: "'s world \<Rightarrow> bool \<times> 's world"
  wifi_softap_set_dhcps_lease :: "u32 \<Rightarrow> u32 \<Rightarrow> 's world \<Rightarrow> bool \<times> 's world"
  wifi_softap_set_dhcps_offer_router :: "u8 \<Rightarrow> 's world \<Rightarrow> bool \<times> 's world"
  wifi_set_ip_info :: "if_index \<Rightarrow> ip_info \<Rightarrow> 's world \<Rightarrow> bool \<times> 's world"
  wifi_get_ip_info :: "if_index \<Rightarrow> 's world \<Rightarrow> bool \<times> ip_info"
  wifi_station_set_config_current :: "station_config \<Rightarrow> 's world \<Rightarrow> bool \<times> 's world"
  wifi_station_disconnect :: "'s world \<Rightarrow> bool \<times> 's world"
  wifi_station_connect :: "'s world \<Rightarrow> bool \<times> 's world"
  wifi_station_scan :: "scan_config \<Rightarrow> 's world \<Rightarrow> bool \<times> 's world"
  wifi_get_macaddr :: "if_index \<Rightarrow> 's world \<Rightarrow> bool \<times> bytes"
  wifi_station_get_connect_status :: "'s world \<Rightarrow> station_status"
  wifi_station_get_rssi :: "'s world \<Rightarrow> 8 word"
  wifi_softap_set_config :: "softap_config \<Rightarrow> 's world \<Rightarrow> bool \<times> 's world"
  eagle_lwip_getif :: "nat \<Rightarrow> 's world \<Rightarrow> nat option"
  pbuf_malloc :: malloc
  raw_pcb_malloc :: "net \<Rightarrow> nat option"
  pbuf_odd :: "pbuf \<Rightarrow> bool"
  arp_queue_room :: "'s world \<Rightarrow> bool"
  stack_hdr :: bytes
  stack_udp :: bytes
  stack_ssid :: bytes
  drv_input :: "nat \<Rightarrow> nat \<Rightarrow> nat \<Rightarrow> 's driver \<Rightarrow> (err \<times> 's driver) option"
  drv_output :: "nat \<Rightarrow> nat \<Rightarrow> nat \<Rightarrow> u32 \<Rightarrow> 's driver \<Rightarrow> (err \<times> 's driver) option"
  drv_linkoutput :: "nat \<Rightarrow> nat \<Rightarrow> nat \<Rightarrow> 's driver \<Rightarrow> (err \<times> 's driver) option"
  drv_mac_filter :: "nat \<Rightarrow> nat \<Rightarrow> u32 \<Rightarrow> bool \<Rightarrow> 's driver \<Rightarrow> 's driver option"
  rand_fn :: "'s \<Rightarrow> nat \<times> 's"
  igmp_group_malloc :: "net \<Rightarrow> nat option"
  call_udp_recv :: "'s user udp_recv_fn"
  call_tcp_input :: "nat \<Rightarrow> nat \<Rightarrow> 's user \<Rightarrow> 's user option"
  call_dhcp_arp_reply :: "nat \<Rightarrow> u32 \<Rightarrow> 's user \<Rightarrow> 's user option"

abbreviation capi :: "'s user_api \<Rightarrow> 's comm_api" where
  "capi api \<equiv> comm_api.truncate api"

definition world :: "'s user \<Rightarrow> 's world" where
  "world g = (net.truncate g, sdk g)"

definition put_net :: "net \<Rightarrow> 'a net_scheme \<Rightarrow> 'a net_scheme" where
  "put_net n g = net.extend n (net.more g)"

definition on_sdk :: "('s world \<Rightarrow> bool \<times> 's world) \<Rightarrow> 's user \<Rightarrow> bool \<times> 's user" where
  "on_sdk f g = (let (r, n, s) = f (world g) in (r, (put_net n g)\<lparr>sdk := s\<rparr>))"

definition on_driver :: "('s driver \<Rightarrow> (err \<times> 's driver) option) \<Rightarrow> 's user \<Rightarrow> (err \<times> 's user) option" where
  "on_driver f g = do { (r, h, s) \<leftarrow> f (pbufs g, sdk g); Some (r, g\<lparr>pbufs := h, sdk := s\<rparr>) }"

text \<open>A string argument of a format is passed as its characters.\<close>

definition str_args :: "string \<Rightarrow> int list" where
  "str_args s = map (\<lambda>c. of_char c) s"

section \<open>From the network\<close>

text \<open>\<open>struct udp_hdr\<close> is 8 bytes: source port, destination port, length, checksum.  The copy into \<open>udp_h\<close> may be
  shorter than the structure.\<close>

definition dhcp_port :: "u16 \<Rightarrow> bool" where
  "dhcp_port w \<longleftrightarrow> ntohs w = 67 \<or> ntohs w = 68"

definition forward_packet :: "'s user_api \<Rightarrow> u8 \<Rightarrow> u16 \<Rightarrow> nat \<Rightarrow> 's user \<Rightarrow> 's user option" where
  "forward_packet api type small p g = do {
     b \<leftarrow> pbufs g p;
     if pb_next b \<noteq> None then COMM_ERR (capi api) ''internal error: got scattered packet'' [] g
     else if pb_len b > MAX_PACKET_SIZE then COMM_WARN (capi api) ''IP packet too large: %d'' [uint (pb_len b)] g
     else do {
       let prio = (if pb_len b < small then COMM_TX_PRIO_MEDIUM else COMM_TX_PRIO_LOW);
       d \<leftarrow> pb_read b 0 (unat (pb_len b));
       comm_send (capi api) type d prio g
     }
   }"

definition raw_receiver :: "'s user_api \<Rightarrow> nat \<Rightarrow> 's user \<Rightarrow> (u8 \<times> 's user) option" where
  "raw_receiver api p g = do {
     b \<leftarrow> pbufs g p;
     g \<leftarrow> COMM_DBG (capi api) ''WLan IP packet of size %d'' [uint (tot_len b)] g;
     if global_forwarding_mode g \<noteq> FORWARDING_MODE_IP then Some (0, g)
     else do {
       (n, hdr) \<leftarrow> pbuf_copy_partial (Some p) (stack_hdr api) 20 0 (pbufs g);
       if n \<noteq> 20 then do {
         g \<leftarrow> COMM_WARN (capi api) ''WLan packet of size %d has incomplete header'' [uint (tot_len b)] g;
         Some (0, g)
       }
       else if forward_ip_broadcasts g = 0 \<and> iph_dest (ip_hdr_of hdr) = 0xffffffff then do {
         g \<leftarrow> COMM_DBG (capi api) ''Passing broadcast to internal stack'' [] g;
         Some (0, g)
       }
       else do {
         (handled, g) \<leftarrow>
           (if iph_proto (ip_hdr_of hdr) = IP_PROTO_UDP then do {
              let offset = 4 * IPH_HL (v_hl_tos (ip_hdr_of hdr));
              (n, udp_h) \<leftarrow> pbuf_copy_partial (Some p) (stack_udp api) 8 offset (pbufs g);
              if n = 0 then do {
                g \<leftarrow> COMM_WARN (capi api) ''Can't copy UDP header from WLan packet'' [] g;
                Some (True, g)
              }
              else if dhcp_port (le16 (udp_h ! 0) (udp_h ! 1)) \<or> dhcp_port (le16 (udp_h ! 2) (udp_h ! 3)) then do {
                g \<leftarrow> COMM_DBG (capi api) ''Got DHCP packet, passing it to internal stack'' [] g;
                Some (True, g)
              }
              else Some (False, g)
            }
            else Some (False, g));
         if handled then Some (0, g)
         else do {
           g \<leftarrow> forward_packet api MSG_IP_PACKET (48 + 20) p g;
           g \<leftarrow> free_pbuf p g;
           Some (1, g)
         }
       }
     }
   }"

section \<open>Interception of the interface\<close>

text \<open>Calls through the saved pointers; a pointer to the function itself would be a recursive call.\<close>

partial_function (option) netif_linkoutput_mitm ::
  "'s user_api \<Rightarrow> nat \<Rightarrow> nat \<Rightarrow> 's user \<Rightarrow> (err \<times> 's user) option" where
  "netif_linkoutput_mitm api netif p g = do {
     b \<leftarrow> pbufs g p;
     g \<leftarrow> COMM_DBG (capi api) ''mitm linkoutput, size=%d'' [uint (tot_len b)] g;
     if global_forwarding_mode g = FORWARDING_MODE_ETHER then Some (ERR_OK, g)
     else if netif_linkoutput_orig g \<noteq> 0 then
       (if netif_linkoutput_orig g = NETIF_LINKOUTPUT_MITM then netif_linkoutput_mitm api netif p g
        else on_driver (drv_linkoutput api (netif_linkoutput_orig g) netif p) g)
     else do { g \<leftarrow> COMM_WARN (capi api) ''mitm linkoutput zero pointer'' [] g; Some (ERR_OK, g) }
   }"

text \<open>A call through \<open>netif->linkoutput\<close>, and the ARP module on the state of the firmware.\<close>

definition user_linkoutput :: "'s user_api \<Rightarrow> nat \<Rightarrow> nat \<Rightarrow> nat \<Rightarrow> 's user \<Rightarrow> (err \<times> 's user) option" where
  "user_linkoutput api f netif p g =
     (if f = NETIF_LINKOUTPUT_MITM then netif_linkoutput_mitm api netif p g
      else on_driver (drv_linkoutput api f netif p) g)"

definition user_arp_env :: "'s user_api \<Rightarrow> 's user arp_env" where
  "user_arp_env api = \<lparr>linkoutput_fn = user_linkoutput api, arp_malloc = pbuf_malloc api,
     arp_queue_malloc = (\<lambda>g. arp_queue_room api (world g)), dhcp_arp_reply = call_dhcp_arp_reply api\<rparr>"

partial_function (option) netif_output_mitm ::
  "'s user_api \<Rightarrow> nat \<Rightarrow> nat \<Rightarrow> u32 \<Rightarrow> 's user \<Rightarrow> (err \<times> 's user) option" where
  "netif_output_mitm api netif p ipaddr g = do {
     b \<leftarrow> pbufs g p;
     g \<leftarrow> COMM_DBG (capi api) ''mitm output, size=%d'' [uint (tot_len b)] g;
     if global_forwarding_mode g = FORWARDING_MODE_ETHER then Some (ERR_OK, g)
     else if netif_output_orig g \<noteq> 0 then
       (if netif_output_orig g = NETIF_OUTPUT_MITM then netif_output_mitm api netif p ipaddr g
        else if netif_output_orig g = ETHARP_OUTPUT then etharp_output (user_arp_env api) netif p ipaddr g
        else on_driver (drv_output api (netif_output_orig g) netif p ipaddr) g)
     else do { g \<leftarrow> COMM_WARN (capi api) ''mitm output zero pointer'' [] g; Some (ERR_OK, g) }
   }"

definition user_output :: "'s user_api \<Rightarrow> nat \<Rightarrow> nat \<Rightarrow> nat \<Rightarrow> u32 \<Rightarrow> 's user \<Rightarrow> (err \<times> 's user) option" where
  "user_output api f netif p ipaddr g =
     (if f = NETIF_OUTPUT_MITM then netif_output_mitm api netif p ipaddr g
      else if f = ETHARP_OUTPUT then etharp_output (user_arp_env api) netif p ipaddr g
      else on_driver (drv_output api f netif p ipaddr) g)"

text \<open>The IP layer on the state of the firmware.  The only receive function that is ever registered is \<open>raw_receiver\<close>.\<close>

definition user_raw_recv :: "'s user_api \<Rightarrow> nat \<Rightarrow> nat \<Rightarrow> nat \<Rightarrow> nat \<Rightarrow> u32 \<Rightarrow> 's user \<Rightarrow> (u8 \<times> 's user) option" where
  "user_raw_recv api f arg pcb p addr g = (if f = RAW_RECEIVER then raw_receiver api p g else None)"

definition user_ip_env :: "'s user_api \<Rightarrow> 's user ip_env" where
  "user_ip_env api = \<lparr>payload_odd = pbuf_odd api, mem_malloc = pbuf_malloc api, netif_output = user_output api,
     raw_recv_fn = user_raw_recv api, udp_input_fn = (\<lambda>_ _ _. None), tcp_input_fn = call_tcp_input api,
     icmp_input_fn = (\<lambda>_ _ _. None), igmp_input_fn = (\<lambda>_ _ _ _. None), icmp_dest_unreach_fn = (\<lambda>_ _. None)\<rparr>"

definition user_igmp_env :: "'s user_api \<Rightarrow> 's user igmp_env" where
  "user_igmp_env api = \<lparr>lwip_rand = (\<lambda>g. let (r, s) = rand_fn api (sdk g) in (r, g\<lparr>sdk := s\<rparr>)),
     mac_filter = (\<lambda>f netif a add g. do {
       (h, s) \<leftarrow> drv_mac_filter api f netif a add (pbufs g, sdk g);
       Some (g\<lparr>pbufs := h, sdk := s\<rparr>)
     }),
     group_malloc = (\<lambda>g. igmp_group_malloc api (net.truncate g))\<rparr>"

text \<open>The protocols above IP send through \<open>user_ip_env\<close>, which has the output functions only.\<close>

definition user_env :: "'s user_api \<Rightarrow> 's user ip_env" where
  "user_env api = (user_ip_env api)
     \<lparr>udp_input_fn := udp_input (user_ip_env api) (call_udp_recv api),
      icmp_input_fn := icmp_input (user_ip_env api),
      igmp_input_fn := igmp_input (user_ip_env api) (user_igmp_env api),
      icmp_dest_unreach_fn := (\<lambda>p. icmp_dest_unreach (user_ip_env api) p ICMP_DUR_PROTO)\<rparr>"

lemma user_env_fields [simp]:
  "payload_odd (user_env api) = pbuf_odd api" "mem_malloc (user_env api) = pbuf_malloc api"
  "netif_output (user_env api) = user_output api" "raw_recv_fn (user_env api) = user_raw_recv api"
  "tcp_input_fn (user_env api) = call_tcp_input api"
  "udp_input_fn (user_env api) = udp_input (user_ip_env api) (call_udp_recv api)"
  "icmp_input_fn (user_env api) = icmp_input (user_ip_env api)"
  "igmp_input_fn (user_env api) = igmp_input (user_ip_env api) (user_igmp_env api)"
  "icmp_dest_unreach_fn (user_env api) = (\<lambda>p. icmp_dest_unreach (user_ip_env api) p ICMP_DUR_PROTO)"
  "netif_output (user_ip_env api) = user_output api" "mem_malloc (user_ip_env api) = pbuf_malloc api"
  "payload_odd (user_ip_env api) = pbuf_odd api"
  by (simp_all add: user_env_def user_ip_env_def)

partial_function (option) netif_input_mitm :: "'s user_api \<Rightarrow> nat \<Rightarrow> nat \<Rightarrow> 's user \<Rightarrow> (err \<times> 's user) option" where
  "netif_input_mitm api p netif g = do {
     b \<leftarrow> pbufs g p;
     g \<leftarrow> COMM_DBG (capi api) ''mitm input, size=%d'' [uint (tot_len b)] g;
     if global_forwarding_mode g = FORWARDING_MODE_ETHER then do {
       g \<leftarrow> forward_packet api MSG_ETHER_PACKET (68 + 20) p g;
       g \<leftarrow> free_pbuf p g;
       Some (ERR_OK, g)
     }
     else if netif_input_orig g \<noteq> 0 then
       (if netif_input_orig g = NETIF_INPUT_MITM then netif_input_mitm api p netif g
        else if netif_input_orig g = ETHERNET_INPUT then ethernet_input (user_arp_env api) (user_env api) p netif g
        else on_driver (drv_input api (netif_input_orig g) p netif) g)
     else do { g \<leftarrow> COMM_WARN (capi api) ''mitm input zero pointer'' [] g; Some (ERR_OK, g) }
   }"

definition hook_input :: "'s user_api \<Rightarrow> nat \<Rightarrow> 's user \<Rightarrow> 's user option" where
  "hook_input api netif g = do {
     ni \<leftarrow> netif_mem g netif;
     if ni_input ni \<noteq> NETIF_INPUT_MITM then do {
       g \<leftarrow> COMM_INFO (capi api) ''mitm_interface: input %x'' [int (ni_input ni)] g;
       Some (g\<lparr>netif_input_orig := ni_input ni, netif_mem := (netif_mem g)(netif \<mapsto> ni\<lparr>ni_input := NETIF_INPUT_MITM\<rparr>)\<rparr>)
     }
     else Some g
   }"

definition hook_output :: "'s user_api \<Rightarrow> nat \<Rightarrow> 's user \<Rightarrow> 's user option" where
  "hook_output api netif g = do {
     ni \<leftarrow> netif_mem g netif;
     if ni_output ni \<noteq> NETIF_OUTPUT_MITM then do {
       g \<leftarrow> COMM_INFO (capi api) ''mitm_interface: output %x'' [int (ni_output ni)] g;
       Some (g\<lparr>netif_output_orig := ni_output ni, netif_mem := (netif_mem g)(netif \<mapsto> ni\<lparr>ni_output := NETIF_OUTPUT_MITM\<rparr>)\<rparr>)
     }
     else Some g
   }"

definition hook_linkoutput :: "'s user_api \<Rightarrow> nat \<Rightarrow> 's user \<Rightarrow> 's user option" where
  "hook_linkoutput api netif g = do {
     ni \<leftarrow> netif_mem g netif;
     if ni_linkoutput ni \<noteq> NETIF_LINKOUTPUT_MITM then do {
       g \<leftarrow> COMM_INFO (capi api) ''mitm_interface: linkoutput %x'' [int (ni_linkoutput ni)] g;
       Some (g\<lparr>netif_linkoutput_orig := ni_linkoutput ni,
         netif_mem := (netif_mem g)(netif \<mapsto> ni\<lparr>ni_linkoutput := NETIF_LINKOUTPUT_MITM\<rparr>)\<rparr>)
     }
     else Some g
   }"

definition mitm_interface :: "'s user_api \<Rightarrow> 's user \<Rightarrow> 's user option" where
  "mitm_interface api g = (case eagle_lwip_getif api 0 (world g) of
       None \<Rightarrow> COMM_DBG (capi api) ''mitm_interface: netif not ready'' [] g
     | Some netif \<Rightarrow> do {
         g \<leftarrow> hook_input api netif g;
         g \<leftarrow> hook_output api netif g;
         hook_linkoutput api netif g
       })"

section \<open>From the host\<close>

text \<open>A null \<open>raw_pcb\<close> is the address 0.\<close>

definition inject_ip_packet :: "'s user_api \<Rightarrow> bytes \<Rightarrow> 's user \<Rightarrow> 's user option" where
  "inject_ip_packet api data g =
     (if length data < 20 then COMM_ERR (capi api) ''Packet of size %d is too short'' [int (length data)] g
      else do {
        let hdr = ip_hdr_of data;
        if iph_proto hdr \<noteq> IP_PROTO_TCP \<and> iph_proto hdr \<noteq> IP_PROTO_UDP
        then COMM_ERR (capi api) ''Proto %d is not supported'' [uint (iph_proto hdr)] g
        else do {
          let hl = 4 * unat (IPH_HL (v_hl_tos hdr));
          if hl > length data
          then COMM_ERR (capi api) ''Header is larger than data: hl=%d, dl=%d'' [int hl, int (length data)] g
          else do {
            let payload = drop hl data;
            let n = length payload;
            (q, g) \<leftarrow> on_pbufs (pbuf_alloc (pbuf_malloc api) PBUF_IP (of_nat n) PBUF_RAM) g;
            case q of
              None \<Rightarrow> COMM_ERR (capi api) ''Failed to allocate packet of size %d'' [int n] g
            | Some p \<Rightarrow> do {
                b \<leftarrow> pbufs g p;
                b \<leftarrow> pb_write b 0 payload;
                let g = g\<lparr>pbufs := (pbufs g)(p \<mapsto> b\<lparr>tot_len := of_nat n, pb_len := of_nat n\<rparr>)\<rparr>;
                let pcb = (if iph_proto hdr = 6 then raw_pcb_tcp g else raw_pcb_udp g);
                (_, g) \<leftarrow> raw_sendto (user_env api) (case pcb of None \<Rightarrow> 0 | Some a \<Rightarrow> a) p (iph_dest hdr) g;
                free_pbuf p g
              }
          }
        }
      })"

definition inject_ether_packet :: "'s user_api \<Rightarrow> bytes \<Rightarrow> 's user \<Rightarrow> 's user option" where
  "inject_ether_packet api data g =
     (if netif_linkoutput_orig g = 0 then COMM_WARN (capi api) ''netif_linkoutput_orig is zero'' [] g
      else (case eagle_lwip_getif api 0 (world g) of
          None \<Rightarrow> COMM_WARN (capi api) ''netif doesn't exist yet'' [] g
        | Some netif \<Rightarrow> do {
            let n = length data;
            (q, g) \<leftarrow> on_pbufs (pbuf_alloc (pbuf_malloc api) PBUF_RAW (of_nat n) PBUF_RAM) g;
            case q of
              None \<Rightarrow> COMM_ERR (capi api) ''Failed to allocate packet of size %d'' [int n] g
            | Some p \<Rightarrow> do {
                b \<leftarrow> pbufs g p;
                b \<leftarrow> pb_write b 0 data;
                let g = g\<lparr>pbufs := (pbufs g)(p \<mapsto> b\<lparr>tot_len := of_nat n, pb_len := of_nat n\<rparr>)\<rparr>;
                (_, g) \<leftarrow> user_linkoutput api (netif_linkoutput_orig g) netif p g;
                free_pbuf p g
              }
          }))"

text \<open>\<open>scan_done\<close>: the argument is a list whose head is ignored.  The bytes of \<open>e.ssid\<close> behind the name are those of the
  entry before.\<close>

definition scan_entry_of :: "nat \<Rightarrow> bytes \<Rightarrow> bss_info \<Rightarrow> msg_wifi_scan_entry" where
  "scan_entry_of i ssid bss =
     (let n = min (length (bss_ssid bss)) 32
      in \<lparr>en_index = of_nat i, en_ssid_len = of_nat n, en_ssid = take n (bss_ssid bss) @ drop n ssid, en_bssid = bss_bssid bss,
          en_channel = bss_channel bss, en_auth_mode = bss_authmode bss, en_rssi = scast (bss_rssi bss),
          en_is_hidden = bss_is_hidden bss\<rparr>)"

fun scan_entries :: "'s user_api \<Rightarrow> nat \<Rightarrow> bytes \<Rightarrow> bss_info list \<Rightarrow> 's user \<Rightarrow> 's user option" where
  "scan_entries api i ssid [] g = Some g"
| "scan_entries api i ssid (bss # rest) g = do {
     let e = scan_entry_of i ssid bss;
     g \<leftarrow> comm_send_ctl (capi api) MSG_WIFI_SCAN_ENTRY (scan_entry_bytes e) g;
     scan_entries api (i + 1) (en_ssid e) rest g
   }"

definition scan_done :: "'s user_api \<Rightarrow> bss_info list \<Rightarrow> bool \<Rightarrow> 's user \<Rightarrow> 's user option" where
  "scan_done api bss ok g =
     (if \<not> ok then Some g
      else (case bss of
          [] \<Rightarrow> None
        | _ # rest \<Rightarrow> do {
            g \<leftarrow> comm_send_ctl (capi api) MSG_WIFI_SCAN_REPLY
              (scan_reply_bytes \<lparr>rp_status = 0, rp_entries_n = of_nat (length rest)\<rparr>) g;
            scan_entries api 0 (stack_ssid api) rest g
          }))"

text \<open>\<open>FAIL\<close>: an error status, a log message, and the end of the handler.\<close>

definition FAIL :: "'s user_api \<Rightarrow> string \<Rightarrow> int list \<Rightarrow> 's user \<Rightarrow> 's user option" where
  "FAIL api fmt args g = do { g \<leftarrow> comm_send_status (capi api) 255 g; COMM_ERR (capi api) fmt args g }"

text \<open>\<open>TRY(!call, ...)\<close> in front of the rest of a handler.\<close>

definition try_sdk :: "'s user_api \<Rightarrow> ('s world \<Rightarrow> bool \<times> 's world) \<Rightarrow> string \<Rightarrow> ('s user \<Rightarrow> 's user option) \<Rightarrow> 's user \<Rightarrow> 's user option" where
  "try_sdk api f msg rest g = (let (ok, g) = on_sdk f g in if ok then rest g else FAIL api msg [] g)"

abbreviation send_ok :: "'s user_api \<Rightarrow> 's user \<Rightarrow> 's user option" where
  "send_ok api \<equiv> comm_send_status (capi api) 0"

definition wifi_mode_set :: "'s user_api \<Rightarrow> bytes \<Rightarrow> 's user \<Rightarrow> 's user option" where
  "wifi_mode_set api data g =
     (if length data \<noteq> 1 then FAIL api ''Wrong size of WIFI_MODE_SET payload: %d'' [int (length data)] g
      else
       (let d = data ! 0;
            mode = (if d = 0 then Some NULL_MODE else if d = MODE_STA then Some STATION_MODE
                    else if d = MODE_SOFTAP then Some SOFTAP_MODE
                    else if d = MODE_STA OR MODE_SOFTAP then Some STATIONAP_MODE else None)
        in case mode of
             None \<Rightarrow> FAIL api ''Cannot decode bitmask %d'' [uint d] g
           | Some m \<Rightarrow> try_sdk api (wifi_set_opmode api m) ''wifi_set_opmode() failed'' (send_ok api) g))"

definition station_static_ip_conf_set :: "'s user_api \<Rightarrow> bytes \<Rightarrow> 's user \<Rightarrow> 's user option" where
  "station_static_ip_conf_set api data g =
     (if wifi_get_opmode api (world g) AND STATION_MODE = 0 then FAIL api ''Cannot set STA IP while STA is inactive'' [] g
      else if length data \<noteq> SIZEOF_IP_CONF then FAIL api ''Wrong size of STATIC_IP_CONF payload: %d'' [int (length data)] g
      else
       (let conf = ip_conf_of data;
            info = \<lparr>info_ip = ipc_address conf, info_netmask = ipc_netmask conf, info_gw = ipc_gateway conf\<rparr>;
            set_ip = try_sdk api (wifi_set_ip_info api STATION_IF info) ''wifi_set_ip_info() failed'' (send_ok api)
        in if wifi_station_dhcpc_status api (world g) = DHCP_STARTED
           then try_sdk api (wifi_station_dhcpc_stop api) ''Unable to stop DHCPC'' set_ip g
           else set_ip g))"

text \<open>Here the code fails when the call succeeds.\<close>

definition station_dhcpc_state_set :: "'s user_api \<Rightarrow> bytes \<Rightarrow> 's user \<Rightarrow> 's user option" where
  "station_dhcpc_state_set api data g =
     (if length data \<noteq> 1 then FAIL api ''Wrong size of DHCPC payload: %d'' [int (length data)] g
      else
       (let (r1, g) = (if data ! 0 \<noteq> 0 \<and> wifi_station_dhcpc_status api (world g) = DHCP_STOPPED
                       then on_sdk (wifi_station_dhcpc_start api) g else (False, g))
        in if r1 then FAIL api ''wifi_station_dhcpc_start() failed'' [] g
           else
            (let (r2, g) = (if data ! 0 = 0 \<and> wifi_station_dhcpc_status api (world g) = DHCP_STARTED
                            then on_sdk (wifi_station_dhcpc_stop api) g else (False, g))
             in if r2 then FAIL api ''wifi_station_dhcpc_stop() failed'' [] g else send_ok api g)))"

definition dns_getserver :: "nat \<Rightarrow> 'a net_scheme \<Rightarrow> u32" where
  "dns_getserver numdns g = (if numdns < 2 then dns_servers g ! numdns else IPADDR_ANY)"

definition station_ip_conf_request :: "'s user_api \<Rightarrow> 's user \<Rightarrow> 's user option" where
  "station_ip_conf_request api g =
     (let (ok, info) = wifi_get_ip_info api STATION_IF (world g)
      in if \<not> ok then FAIL api ''wifi_get_ip_info() failed'' [] g
         else comm_send_ctl (capi api) MSG_STATION_IP_CONF_REPLY
           (ip_conf_bytes \<lparr>ipc_address = info_ip info, ipc_netmask = info_netmask info, ipc_gateway = info_gw info,
              ipc_dns = map (\<lambda>i. dns_getserver i g) [0, 1, 2]\<rparr>) g)"

text \<open>A string copied into a zeroed array.\<close>

definition zero_padded :: "nat \<Rightarrow> bytes \<Rightarrow> bytes" where
  "zero_padded n s = s @ replicate (n - length s) 0"

definition station_conf_set :: "'s user_api \<Rightarrow> bytes \<Rightarrow> 's user \<Rightarrow> 's user option" where
  "station_conf_set api data g =
     (let conf = station_conf_of data in
      if length data \<noteq> SIZEOF_STATION_CONF then FAIL api ''Wrong size of STATION_CONF payload: %d'' [int (length data)] g
      else if unat (st_ssid_len conf) + 1 > sizeof_ssid api
      then FAIL api ''SSID is too long, should be max %d'' [int (sizeof_ssid api) - 1] g
      else if unat (st_password_len conf) + 1 > sizeof_password api
      then FAIL api ''Password is too long, should be max %d'' [int (sizeof_password api) - 1] g
      else if wifi_get_opmode api (world g) AND STATION_MODE = 0 then FAIL api ''Cannot set STA conf when not in STA mode'' [] g
      else try_sdk api (wifi_station_set_config_current api
            \<lparr>sta_ssid = zero_padded (sizeof_ssid api) (slice data 1 (unat (st_ssid_len conf))),
             sta_password = zero_padded (sizeof_password api) (slice data 34 (unat (st_password_len conf))),
             sta_bssid_set = 0, sta_bssid = replicate 6 0\<rparr>) ''Call to set WIFI ssid/pass failed''
          (\<lambda>g. let (_, g) = on_sdk (wifi_station_disconnect api) g;
                   (_, g) = on_sdk (wifi_station_connect api) g
               in send_ok api g) g)"

definition wifi_sleep_mode_set :: "'s user_api \<Rightarrow> bytes \<Rightarrow> 's user \<Rightarrow> 's user option" where
  "wifi_sleep_mode_set api data g =
     (if length data \<noteq> 1 then FAIL api ''Wrong size of Sleep Mode payload: %d'' [int (length data)] g
      else
       (let d = data ! 0;
            mode = (if d = 0 then Some NONE_SLEEP_T else if d = 1 then Some MODEM_SLEEP_T
                    else if d = 2 then Some LIGHT_SLEEP_T else None)
        in case mode of
             None \<Rightarrow> FAIL api ''Undefined sleep mode %d'' [uint d] g
           | Some m \<Rightarrow> try_sdk api (wifi_set_sleep_type api m) ''Failed to set sleep mode'' (send_ok api) g))"

definition wifi_scan_request :: "'s user_api \<Rightarrow> bytes \<Rightarrow> 's user \<Rightarrow> 's user option" where
  "wifi_scan_request api data g =
     (if length data \<noteq> SIZEOF_SCAN_REQUEST then FAIL api ''Wrong size of Scan Request payload: %d'' [int (length data)] g
      else
       (let r = scan_request_of data;
            config = \<lparr>scan_ssid = (if rq_ssid_len r \<noteq> 0 then Some (rq_ssid r @ [0]) else None),
                      scan_bssid = (if rq_use_bssid r \<noteq> 0 then Some (rq_bssid r) else None),
                      scan_channel = rq_channel r, scan_show_hidden = rq_show_hidden r\<rparr>
        in try_sdk api (wifi_station_scan api config) ''Scan request failed'' (send_ok api) g))"

definition wifi_get_macaddr_request :: "'s user_api \<Rightarrow> 's user \<Rightarrow> 's user option" where
  "wifi_get_macaddr_request api g =
     (let (ok, mac) = wifi_get_macaddr api STATION_IF (world g)
      in if \<not> ok then FAIL api ''Failed to get mac address'' [] g
         else comm_send_ctl (capi api) MSG_WIFI_GET_MACADDR_REPLY mac g)"

definition conn_status :: "station_status \<Rightarrow> u8" where
  "conn_status st = (case st of
       STATION_IDLE \<Rightarrow> 0
     | STATION_CONNECTING \<Rightarrow> 1
     | STATION_WRONG_PASSWORD \<Rightarrow> 2
     | STATION_NO_AP_FOUND \<Rightarrow> 3
     | STATION_CONNECT_FAIL \<Rightarrow> 4
     | STATION_GOT_IP \<Rightarrow> 5
     | Station_Other \<Rightarrow> 0xff)"

definition station_conn_status_request :: "'s user_api \<Rightarrow> 's user \<Rightarrow> 's user option" where
  "station_conn_status_request api g =
     comm_send_ctl (capi api) MSG_STATION_CONN_STATUS_REPLY [conn_status (wifi_station_get_connect_status api (world g))] g"

definition station_rssi_request :: "'s user_api \<Rightarrow> 's user \<Rightarrow> 's user option" where
  "station_rssi_request api g =
     (let rssi = wifi_station_get_rssi api (world g)
      in if rssi = 31 then FAIL api (''wifi_station_get_rssi() returned '' @ [CHR 0x27] @ ''31'' @ [CHR 0x27]) [] g
         else comm_send_ctl (capi api) MSG_STATION_RSSI_REPLY [rssi] g)"

definition forward_ip_broadcasts_set :: "'s user_api \<Rightarrow> bytes \<Rightarrow> 's user \<Rightarrow> 's user option" where
  "forward_ip_broadcasts_set api data g =
     (if length data \<noteq> 1 then FAIL api ''Wrong size of Forward Ip Broadcasts payload: %d'' [int (length data)] g
      else send_ok api (g\<lparr>forward_ip_broadcasts := data ! 0\<rparr>))"

definition set_forwarding_mode :: "'s user_api \<Rightarrow> bytes \<Rightarrow> 's user \<Rightarrow> 's user option" where
  "set_forwarding_mode api data g =
     (if length data \<noteq> 1 then FAIL api ''Wrong size of Set Forwarding Mode payload: %d'' [int (length data)] g
      else send_ok api (g\<lparr>global_forwarding_mode := data ! 0\<rparr>))"

definition softap_conf_set :: "'s user_api \<Rightarrow> bytes \<Rightarrow> 's user \<Rightarrow> 's user option" where
  "softap_conf_set api data g =
     (let conf = softap_conf_of data in
      if length data \<noteq> SIZEOF_SOFTAP_CONF then FAIL api ''Wrong size of SOFTAP_CONF payload: %d'' [int (length data)] g
      else if unat (ap_ssid_len conf) + 1 > sizeof_ssid api
      then FAIL api ''SSID is too long, should be max %d'' [int (sizeof_ssid api) - 1] g
      else if unat (ap_password_len conf) + 1 > sizeof_password api
      then FAIL api ''Password is too long, should be max %d'' [int (sizeof_password api) - 1] g
      else if wifi_get_opmode api (world g) AND SOFTAP_MODE = 0 then FAIL api ''Cannot switch to SoftAP mode'' [] g
      else try_sdk api (wifi_softap_set_config api
            \<lparr>sap_ssid = zero_padded (sizeof_ssid api) (slice data 1 (unat (ap_ssid_len conf))),
             sap_password = zero_padded (sizeof_password api) (slice data 34 (unat (ap_password_len conf))),
             sap_ssid_len = ap_ssid_len conf, sap_channel = ap_channel conf, sap_authmode = ap_auth_mode conf,
             sap_ssid_hidden = 0, sap_max_connection = 4, sap_beacon_interval = ap_beacon_interval conf\<rparr>)
          ''Call to set WIFI ssid/pass failed'' (send_ok api) g)"

definition softap_net_conf_set :: "'s user_api \<Rightarrow> bytes \<Rightarrow> 's user \<Rightarrow> 's user option" where
  "softap_net_conf_set api data g =
     (if length data \<noteq> SIZEOF_SOFTAP_NET_CONF
      then FAIL api ''Wrong size of STATION_STATIC_IP_CONF payload: %d'' [int (length data)] g
      else
       (let conf = softap_net_conf_of data;
            info = \<lparr>info_ip = nc_address conf, info_netmask = nc_netmask conf, info_gw = nc_gateway conf\<rparr>;
            start = try_sdk api (wifi_softap_dhcps_start api) ''wifi_softap_dhcps_start() failed'' (send_ok api);
            offer = (if nc_dhcpd_offer_gateway conf \<noteq> 0
                     then try_sdk api (wifi_softap_set_dhcps_offer_router api (nc_dhcpd_offer_gateway conf))
                       ''wifi_softap_set_dhcps_offer_option() failed'' start
                     else start);
            lease = (if nc_enable_dhcpd conf \<noteq> 0
                     then try_sdk api (wifi_softap_set_dhcps_lease api (nc_dhcpd_first_ip conf) (nc_dhcpd_last_ip conf))
                       ''wifi_softap_set_dhcps_lease() failed'' offer
                     else send_ok api);
            set_ip = try_sdk api (wifi_set_ip_info api SOFTAP_IF info) ''wifi_set_ip_info() failed'' lease
        in if wifi_softap_dhcps_status api (world g) = DHCP_STARTED
           then try_sdk api (wifi_softap_dhcps_stop api) ''wifi_softap_dhcps_stop() failed'' set_ip g
           else set_ip g))"

definition log_level_set :: "'s user_api \<Rightarrow> bytes \<Rightarrow> 's user \<Rightarrow> 's user option" where
  "log_level_set api data g =
     (if length data \<noteq> 1 then FAIL api ''Wrong size of Set Loglevel payload: %d'' [int (length data)] g
      else send_ok api (comm_set_loglevel (data ! 0) g))"

definition print_stats :: "'s user_api \<Rightarrow> 's user \<Rightarrow> 's user option" where
  "print_stats api g =
     (let (rx_err, crc_err, dropped) = comm_get_stats g
      in COMM_INFO (capi api) ''HEAP free: %d, rx_err: %d, crc_err: %d, dropped: %d''
           [uint (system_get_free_heap_size (capi api) (sdk g)), sint rx_err, sint crc_err, sint dropped] g)"

text \<open>No check of the size: with less than four bytes the read leaves the message, and 0 is a division by zero.\<close>

definition set_baud :: "'s user_api \<Rightarrow> bytes \<Rightarrow> 's user \<Rightarrow> 's user option" where
  "set_baud api data g =
     (if length data < 4 then None
      else
       (let baud = le32_at data 0
        in if baud = 0 then None
           else Some (g\<lparr>periph := call (Uart_Div_Modify UART0 (UART_CLK_FREQ (capi api) div baud)) (periph g)\<rparr>)))"

definition packet_from_host :: "'s user_api \<Rightarrow> u8 \<Rightarrow> bytes \<Rightarrow> 's user \<Rightarrow> 's user option" where
  "packet_from_host api type data g = do {
     g \<leftarrow> mitm_interface api g;
     if type = MSG_IP_PACKET then do {
       g \<leftarrow> COMM_DBG (capi api) ''Packet from host, %d bytes'' [int (length data)] g;
       if global_forwarding_mode g = FORWARDING_MODE_IP then inject_ip_packet api data g
       else COMM_ERR (capi api) ''Cannot forward IP packet in mode %d'' [uint (global_forwarding_mode g)] g
     }
     else if type = MSG_ETHER_PACKET then
       (if global_forwarding_mode g = FORWARDING_MODE_ETHER then inject_ether_packet api data g
        else COMM_ERR (capi api) ''Cannot forward Ether packet in mode %d'' [uint (global_forwarding_mode g)] g)
     else if type = MSG_WIFI_MODE_SET then wifi_mode_set api data g
     else if type = MSG_STATION_STATIC_IP_CONF_SET then station_static_ip_conf_set api data g
     else if type = MSG_STATION_DHCPC_STATE_SET then station_dhcpc_state_set api data g
     else if type = MSG_STATION_IP_CONF_REQUEST then station_ip_conf_request api g
     else if type = MSG_STATION_CONF_SET then station_conf_set api data g
     else if type = MSG_WIFI_SLEEP_MODE_SET then wifi_sleep_mode_set api data g
     else if type = MSG_WIFI_SCAN_REQUEST then wifi_scan_request api data g
     else if type = MSG_WIFI_GET_MACADDR_REQUEST then wifi_get_macaddr_request api g
     else if type = MSG_STATION_CONN_STATUS_REQUEST then station_conn_status_request api g
     else if type = MSG_STATION_RSSI_REQUEST then station_rssi_request api g
     else if type = MSG_FORWARD_IP_BROADCASTS then forward_ip_broadcasts_set api data g
     else if type = MSG_SET_FORWARDING_MODE then set_forwarding_mode api data g
     else if type = MSG_SOFTAP_CONF_SET then softap_conf_set api data g
     else if type = MSG_SOFTAP_NET_CONF_SET then softap_net_conf_set api data g
     else if type = MSG_LOG_LEVEL_SET then log_level_set api data g
     else if type = MSG_PRINT_STATS then print_stats api g
     else if type = MSG_ECHO_REQUEST then comm_send_ctl (capi api) MSG_ECHO_REPLY data g
     else if type = MSG_SET_BAUD then set_baud api data g
     else Some g
   }"

section \<open>Start\<close>

text \<open>Registration of the partition table is repeated until it succeeds.\<close>

partial_function (option) user_pre_init :: "'s user_api \<Rightarrow> 's user \<Rightarrow> 's user option" where
  "user_pre_init api g =
     (let (rc, g) = on_sdk (system_partition_table_regist api) g
      in if rc then Some g else user_pre_init api g)"

definition init_wlan :: "'s user_api \<Rightarrow> 's user \<Rightarrow> 's user option" where
  "init_wlan api g =
     (let (_, g) = on_sdk (wifi_set_phy_mode_11n api) g;
          (_, g) = on_sdk (wifi_set_sleep_type api NONE_SLEEP_T) g;
          (tcp, g) = raw_new (\<lambda>g. raw_pcb_malloc api (net.truncate g)) 6 g;
          g = g\<lparr>raw_pcb_tcp := tcp\<rparr>;
          (udp, g) = raw_new (\<lambda>g. raw_pcb_malloc api (net.truncate g)) 17 g;
          g = g\<lparr>raw_pcb_udp := udp\<rparr>
      in case (tcp, udp) of
           (Some t, Some u) \<Rightarrow> do {
             (_, g) \<leftarrow> raw_bind t IPADDR_ANY g;
             (_, g) \<leftarrow> raw_bind u IPADDR_ANY g;
             g \<leftarrow> raw_recv t RAW_RECEIVER 0 g;
             raw_recv u RAW_RECEIVER 0 g
           }
         | _ \<Rightarrow> COMM_DBG (capi api) ''Failed to init raw sockets'' [] g)"

definition user_init :: "'s user_api \<Rightarrow> nat list \<Rightarrow> ('s, unit user_ext) link \<Rightarrow> ('s, unit user_ext) link option" where
  "user_init api drained = (\<lambda>(c, g). do {
     (dev, h) \<leftarrow> uart_init (UART_CLK_FREQ (capi api)) 115200 115200 (uart_dev g, periph g);
     (c, g) \<leftarrow> comm_init (capi api) True drained (c, g\<lparr>uart_dev := dev, periph := h\<rparr>);
     g \<leftarrow> comm_send_ctl (capi api) MSG_BOOT [] g;
     g \<leftarrow> COMM_INFO (capi api) ''SDK version: %s'' (str_args (system_get_sdk_version api)) g;
     g \<leftarrow> COMM_INFO (capi api) ''FW version: %s'' (str_args (fw_version api)) g;
     g \<leftarrow> COMM_INFO (capi api) ''Heap size: %d'' [uint (system_get_free_heap_size (capi api) (sdk g))] g;
     g \<leftarrow> COMM_INFO (capi api) ''Alignment: %d'' [biggest_alignment api] g;
     g \<leftarrow> init_wlan api g;
     Some (c, g)
   })"

end
