(* ===== verification/Net_Frame.thy ===== *)
theory Net_Frame
  imports Etharp
begin

text \<open>
  What sending a packet leaves alone.  The stack's own code changes no variable outside \<open>net\<close>; what it calls through
  pointers may.  A relation between states that tolerates every change of the network globals and that is kept by
  the functions behind the pointers is kept by the sending functions of ARP, IP and the raw sockets.
\<close>

section \<open>Operations of the stack itself\<close>

text \<open>What the code below IP never touches: the control blocks of the other protocols, the interfaces and everything outside
  \<open>net\<close>.\<close>

definition net_rest where
  "net_rest g = (igmp_mem g, igmp_group_list g, udp_mem g, udp_pcbs g, netif_mem g, netif_list g, net.more g)"

named_theorems net_more

lemma net_rest_simps [simp]:
  "net_rest (g\<lparr>pbufs := h\<rparr>) = net_rest g" "net_rest (g\<lparr>ip_id := n\<rparr>) = net_rest g"
  "net_rest (g\<lparr>etharp_cached_entry := i\<rparr>) = net_rest g" "net_rest (g\<lparr>arp_table := tab\<rparr>) = net_rest g"
  "net_rest (g\<lparr>raw_pcbs := as\<rparr>) = net_rest g" "net_rest (g\<lparr>raw_mem := rm\<rparr>) = net_rest g"
  "net_rest (g\<lparr>current_iphdr_src := a\<rparr>) = net_rest g" "net_rest (g\<lparr>current_iphdr_dest := a\<rparr>) = net_rest g"
  "net_rest (g\<lparr>current_netif := q\<rparr>) = net_rest g" "net_rest (g\<lparr>current_header := q\<rparr>) = net_rest g"
  by (simp_all add: net_rest_def)

lemma on_pbufs_more [net_more]: "on_pbufs f g = Some (r, g') \<Longrightarrow> net_rest g' = net_rest g"
  by (auto simp: on_pbufs_def bind_eq_Some_conv)

lemma free_pbuf_more [net_more]: "free_pbuf p g = Some g' \<Longrightarrow> net_rest g' = net_rest g"
  by (auto simp: free_pbuf_def bind_eq_Some_conv dest: on_pbufs_more)

lemma upd_entry_more [net_more]: "upd_entry i f g = Some g' \<Longrightarrow> net_rest g' = net_rest g"
  by (auto simp: upd_entry_def bind_eq_Some_conv)

lemma free_q_more [net_more]: "free_etharp_q q g = Some g' \<Longrightarrow> net_rest g' = net_rest g"
  unfolding free_etharp_q_def by (induction q arbitrary: g) (auto simp: bind_eq_Some_conv dest!: free_pbuf_more)

lemma free_entry_more [net_more]: "free_entry i g = Some g' \<Longrightarrow> net_rest g' = net_rest g"
  by (auto simp: free_entry_def bind_eq_Some_conv split: if_splits dest!: net_more)

lemma find_entry_more [net_more]: "find_entry ip flags g = Some (r, g') \<Longrightarrow> net_rest g' = net_rest g"
  by (auto simp: find_entry_def new_entry_def bind_eq_Some_conv split: sum.splits if_splits option.splits dest!: net_more)

lemma queue_packet_more [net_more]: "queue_packet env i q g = Some (r, g') \<Longrightarrow> net_rest g' = net_rest g"
  by (auto simp: queue_packet_def bind_eq_Some_conv split: option.splits if_splits dest!: net_more)

lemma bind_SomeE:
  assumes "m \<bind> f = Some y"
  obtains x where "m = Some x" "f x = Some y"
  using assms by (auto simp: bind_eq_Some_conv)

section \<open>The contracts\<close>

locale net_frame =
  fixes R :: "'a net_scheme \<Rightarrow> 'a net_scheme \<Rightarrow> bool"
  assumes R_more: "net_rest g' = net_rest g \<Longrightarrow> R g g'"
    and R_trans: "R g g1 \<Longrightarrow> R g1 g2 \<Longrightarrow> R g g2"
begin

lemma R_left: "net_rest g = net_rest g0 \<Longrightarrow> R g g' \<Longrightarrow> R g0 g'"
  using R_more R_trans by blast

lemma R_right: "R g0 g \<Longrightarrow> net_rest g' = net_rest g \<Longrightarrow> R g0 g'"
  using R_more R_trans by blast

lemma R_bind:
  assumes "m \<bind> (\<lambda>(x, g1). k x g1) = Some (r, g')"
    and "\<And>x g1. m = Some (x, g1) \<Longrightarrow> R g g1"
    and "\<And>x g1. k x g1 = Some (r, g') \<Longrightarrow> R g1 g'"
  shows "R g g'"
proof -
  obtain x g1 where "m = Some (x, g1)" "k x g1 = Some (r, g')" using assms(1) by (auto simp: bind_eq_Some_conv)
  with assms(2,3) show ?thesis using R_trans by blast
qed

lemma R_update [simp]:
  "R (g\<lparr>pbufs := h\<rparr>) g' = R g g'" "R (g\<lparr>ip_id := n\<rparr>) g' = R g g'" "R (g\<lparr>etharp_cached_entry := i\<rparr>) g' = R g g'"
  "R (g\<lparr>current_iphdr_src := a\<rparr>) g' = R g g'" "R (g\<lparr>current_iphdr_dest := a\<rparr>) g' = R g g'"
  "R (g\<lparr>current_netif := q\<rparr>) g' = R g g'" "R (g\<lparr>current_header := q\<rparr>) g' = R g g'"
  by (rule iffI; erule R_left [rotated]; simp)+

lemma R_updated [simp]:
  "R g (g'\<lparr>current_iphdr_src := a\<rparr>) = R g g'" "R g (g'\<lparr>current_iphdr_dest := a\<rparr>) = R g g'"
  "R g (g'\<lparr>current_netif := q\<rparr>) = R g g'" "R g (g'\<lparr>current_header := q\<rparr>) = R g g'"
  by (rule iffI; erule R_right; simp)+

lemma free_pbuf_R: "free_pbuf p g = Some g' \<Longrightarrow> R g g'"
  by (rule R_more) (rule free_pbuf_more)

lemma drop_ip_R: "drop_ip p g = Some (r, g') \<Longrightarrow> R g g'"
  by (auto simp: drop_ip_def bind_eq_Some_conv intro: free_pbuf_R)

end

locale arp_frame = net_frame R for R :: "'a net_scheme \<Rightarrow> 'a net_scheme \<Rightarrow> bool" +
  fixes env :: "('a net_scheme) arp_env"
  assumes link_R: "linkoutput_fn env f netif p g = Some (r, g') \<Longrightarrow> R g g'"
begin

lemma send_ip_R: "etharp_send_ip env netif p src dst g = Some (r, g') \<Longrightarrow> R g g'"
  by (auto simp: etharp_send_ip_def bind_eq_Some_conv dest!: link_R)

lemma etharp_raw_R:
  assumes "etharp_raw env netif es ed hs ips hw ipd opc g = Some (r, g')"
  shows "R g g'"
proof -
  obtain q g1 where a: "on_pbufs (pbuf_alloc (arp_malloc env) PBUF_RAW (of_nat SIZEOF_ETHARP_PACKET) PBUF_RAM) g = Some (q, g1)"
    using assms by (auto simp: etharp_raw_def bind_eq_Some_conv)
  note m = on_pbufs_more [OF a]
  show ?thesis
  proof (cases q)
    case None
    with assms a m show ?thesis by (auto simp: etharp_raw_def intro: R_more)
  next
    case (Some p)
    with assms a obtain h f r g2 where
      "linkoutput_fn env f netif p (g1\<lparr>pbufs := h\<rparr>) = Some (r, g2)" "free_pbuf p g2 = Some g'"
      by (fastforce simp: etharp_raw_def bind_eq_Some_conv)
    then have "R g1 g2" "net_rest g' = net_rest g2" using link_R [of f netif p "g1\<lparr>pbufs := h\<rparr>"] by (auto dest: net_more)
    then show ?thesis using m R_left R_right by blast
  qed
qed

lemma request_R: "etharp_request env netif ip g = Some (r, g') \<Longrightarrow> R g g'"
  by (auto simp: etharp_request_def bind_eq_Some_conv intro: etharp_raw_R)

lemma query_send_R:
  assumes "query_send env netif src i q res g = Some (r, g')"
  shows "R g g'"
proof -
  obtain e where e: "peek (arp_table g) i = Some e" using assms by (auto simp: query_send_def bind_eq_Some_conv)
  show ?thesis
    using assms e send_ip_R [of netif q src "arp_ethaddr e" "g\<lparr>etharp_cached_entry := of_nat i\<rparr>"]
    by (cases "arp_state e") (auto simp: query_send_def intro: R_more net_more)
qed

lemma query_entry_R:
  assumes "query_entry env netif src ip q i g = Some (r, g')"
  shows "R g g'"
proof -
  obtain g1 g2 res where u: "net_rest g1 = net_rest g" and R: "R g1 g2"
    and s: "(case q of None \<Rightarrow> Some (res, g2) | Some q \<Rightarrow> query_send env netif src i q res g2) = Some (r, g')"
    using assms by (auto simp: query_entry_def bind_eq_Some_conv intro: R_more split: if_splits dest!: upd_entry_more request_R)
  from s have "R g2 g'" by (cases q) (auto intro: R_more query_send_R)
  with u R show ?thesis using R_left R_trans by blast
qed

lemma query_R: "etharp_query env netif ip q g = Some (r, g') \<Longrightarrow> R g g'"
  by (auto simp: etharp_query_def bind_eq_Some_conv split: if_splits option.splits
      intro: R_more R_left dest!: find_entry_more query_entry_R)

lemma etharp_output_R: "etharp_output env netif q ip g = Some (r, g') \<Longrightarrow> R g g'"
  by (auto simp: etharp_output_def bind_eq_Some_conv split: if_splits option.splits
      intro: R_more R_left dest!: on_pbufs_more send_ip_R query_R)

end

locale ip_frame = net_frame R for R :: "'a net_scheme \<Rightarrow> 'a net_scheme \<Rightarrow> bool" +
  fixes env :: "('a net_scheme) ip_env"
  assumes netif_output_R: "netif_output env f netif p ip g = Some (r, g') \<Longrightarrow> R g g'"
begin

lemma output_if_R:
  assumes "ip_output_if env p src dest ttl tos proto netif g = Some (r, g')"
  shows "R g g'"
proof (cases dest)
  case None
  with assms show ?thesis
    by (auto simp: ip_output_if_def ip_output_if_opt_def bind_eq_Some_conv intro: netif_output_R)
next
  case (Some dst)
  with assms obtain st g1 where a: "on_pbufs (pbuf_header (Some p) IP_HLEN) g = Some (st, g1)"
    by (auto simp: ip_output_if_def ip_output_if_opt_def bind_eq_Some_conv)
  note m = on_pbufs_more [OF a]
  show ?thesis
  proof (cases "st = 0")
    case False
    with Some assms a m show ?thesis by (auto simp: ip_output_if_def ip_output_if_opt_def intro: R_more)
  next
    case True
    with Some assms a obtain h n f where "netif_output env f netif p dst (g1\<lparr>pbufs := h, ip_id := n\<rparr>) = Some (r, g')"
      by (fastforce simp: ip_output_if_def ip_output_if_opt_def Let_def bind_eq_Some_conv)
    then have "R g1 g'" using netif_output_R [of f netif p dst "g1\<lparr>pbufs := h, ip_id := n\<rparr>"] by simp
    then show ?thesis using m R_left by blast
  qed
qed

lemma raw_sendto_R:
  assumes "raw_sendto env pcb p ip g = Some (r, g')"
  shows "R g g'"
  using assms unfolding raw_sendto_def
proof (rule R_bind, goal_cases header rest)
  case (header st g1)
  then show ?case by (auto intro: R_more dest: on_pbufs_more)
next
  case (rest st g1)
  then show ?case
  proof (rule R_bind, goal_cases buffer route)
    case (buffer q g2)
    then show ?case
      by (auto simp: bind_eq_Some_conv intro!: R_more split: if_splits option.splits dest!: on_pbufs_more)
  next
    case (route q g2)
    then show ?case
    proof (cases q)
      case None
      with route show ?thesis by (auto intro: R_more)
    next
      case (Some q')
      with route obtain rt where "(case rt of
             None \<Rightarrow> Some (ERR_RTE, g2)
           | Some netif \<Rightarrow> do {
               b \<leftarrow> raw_mem g2 pcb;
               ni \<leftarrow> netif_mem g2 netif;
               let src_ip = (if ip_addr_isany (local_ip b) then ni_ip_addr ni else local_ip b);
               ip_output_if env q' (Some src_ip) (Some ip) (pcb_ttl b) (pcb_tos b) (protocol b) netif g2
             }) \<bind> (\<lambda>(err, g). (if q' \<noteq> p then free_pbuf q' g else Some g) \<bind> (\<lambda>g. Some (err, g))) = Some (r, g')"
        by (simp only: option.case) (erule bind_eq_Some_conv [THEN iffD1, THEN exE]; blast)
      then show ?thesis
      proof (rule R_bind, goal_cases send free)
        case (send e g3)
        then show ?case by (cases rt) (auto simp: bind_eq_Some_conv Let_def intro: R_more output_if_R)
      next
        case (free e g3)
        then show ?case by (auto simp: bind_eq_Some_conv intro: R_more net_more split: if_splits)
      qed
    qed
  qed
qed

end

section \<open>Receiving\<close>

text \<open>The protocols above IP and the receive callbacks come in as further functions that keep the relation.\<close>

locale ip_input_frame = ip_frame R env for R :: "'a net_scheme \<Rightarrow> 'a net_scheme \<Rightarrow> bool" and env :: "('a net_scheme) ip_env" +
  assumes recv_R: "raw_recv_fn env f arg pcb p ip g = Some (r8, g') \<Longrightarrow> R g g'"
    and proto_R: "udp_input_fn env p inp g = Some g' \<Longrightarrow> R g g'" "tcp_input_fn env p inp g = Some g' \<Longrightarrow> R g g'"
      "icmp_input_fn env p inp g = Some g' \<Longrightarrow> R g g'" "igmp_input_fn env p inp ip g = Some g' \<Longrightarrow> R g g'"
      "icmp_dest_unreach_fn env p g = Some g' \<Longrightarrow> R g g'"
begin

lemma raw_input_loop_R: "raw_input_loop env proto prev pcb p g = Some rg \<Longrightarrow> R g (snd rg)"
proof -
  have "env' = env \<longrightarrow> R g (snd rg)" if "raw_input_loop env' proto prev pcb p g = Some rg" for env'
    using that
  proof (induction rule: raw_input_loop.raw_induct [rotated, consumes 1, case_names loop])
    case 1: (loop rec env' proto prev pcb p g rg)
    show ?case
    proof (cases pcb)
      case None
      with 1(2) show ?thesis by (auto intro: R_more)
    next
      case (Some a)
      show ?thesis
      proof
        assume "env' = env"
        with 1(2) Some obtain b :: raw_pcb and eaten g1 where
          c: "(if ucast (protocol b) = proto \<and> (ip_addr_isany (local_ip b) \<or> local_ip b = current_iphdr_dest g) \<and> recv b \<noteq> 0
            then do { (r, g) \<leftarrow> raw_recv_fn env (recv b) (recv_arg b) a p (current_iphdr_src g) g; Some (r \<noteq> 0, g) }
            else Some (False, g)) = Some (eaten, g1)"
          and k: "(if eaten then Some (1, if prev \<noteq> None then g1\<lparr>raw_pcbs := a # remove1 a (raw_pcbs g1)\<rparr> else g1)
            else rec env proto (Some a) (next_in a (raw_pcbs g1)) p g1) = Some rg"
          by (auto elim!: bind_SomeE)
        from c have "R g g1" by (auto split: if_splits elim!: bind_SomeE intro: R_more recv_R)
        moreover from k have "R g1 (snd rg)" using 1(1) by (auto split: if_splits intro: R_more)
        ultimately show "R g (snd rg)" by (rule R_trans)
      qed
    qed
  qed
  moreover assume "raw_input_loop env proto prev pcb p g = Some rg"
  ultimately show ?thesis by blast
qed

lemma raw_input_R: "raw_input env p g = Some (r, g') \<Longrightarrow> R g g'"
  unfolding raw_input_def using raw_input_loop_R [where rg = "(r, g')"] by (auto elim!: bind_SomeE)

lemma unreach_R: "icmp_dest_unreach_fn env p (g\<lparr>pbufs := h\<rparr>) = Some g' \<Longrightarrow> R g g'"
  using proto_R(5) [of p "g\<lparr>pbufs := h\<rparr>" g'] by simp

lemma deliver_R:
  assumes "deliver env p inp iphdr g = Some g'"
  shows "R g g'"
proof -
  obtain eaten g1 where r: "raw_input env p g = Some (eaten, g1)" using assms unfolding deliver_def by (auto elim!: bind_SomeE)
  have "R g1 g'"
    using assms r R_more [of g1 g1] unfolding deliver_def
    by (auto elim!: bind_SomeE split: if_splits dest!: unreach_R free_pbuf_R proto_R(1-4)) (rule R_trans)
  with raw_input_R [OF r] show ?thesis by (rule R_trans)
qed

lemma ip_input_R: "ip_input env p inp g = Some (r, g') \<Longrightarrow> R g g'"
  unfolding ip_input_def Let_def by (auto elim!: bind_SomeE split: if_splits dest!: drop_ip_R deliver_R)

end

locale eth_frame = arp_frame R aenv + ip_input_frame R env
  for R :: "'a net_scheme \<Rightarrow> 'a net_scheme \<Rightarrow> bool" and aenv :: "('a net_scheme) arp_env" and env :: "('a net_scheme) ip_env" +
  assumes dhcp_R: "dhcp_arp_reply aenv netif ip g = Some g' \<Longrightarrow> R g g'"
begin

lemma send_queued_R: "send_queued aenv netif mac i g = Some g' \<Longrightarrow> R g g'"
proof -
  have "env' = aenv \<longrightarrow> R g g'" if "send_queued env' netif mac i g = Some g'" for env'
    using that
  proof (induction rule: send_queued.raw_induct [rotated, consumes 1, case_names loop])
    case 1: (loop rec env' netif mac i g g')
    show ?case
    proof
      assume e: "env' = aenv"
      obtain x where x: "peek (arp_table g) i = Some x" using 1(2) by (auto elim!: bind_SomeE)
      show "R g g'"
      proof (cases "arp_q x")
        case Nil
        with 1(2) x show ?thesis by (auto intro: R_more)
      next
        case (Cons p ps)
        with 1(2) x e obtain ni :: netif and r g1 g2 g3 where u: "upd_entry i (\<lambda>e. e\<lparr>arp_q := ps\<rparr>) g = Some g1"
          and s: "etharp_send_ip aenv netif p (ni_hwaddr ni) mac g1 = Some (r, g2)" and f: "free_pbuf p g2 = Some g3"
          and k: "rec aenv netif mac i g3 = Some g'"
          by (auto elim!: bind_SomeE)
        have "R g g1" "R g1 g2" "R g2 g3" "R g3 g'"
          using upd_entry_more [OF u] send_ip_R [OF s] free_pbuf_R [OF f] 1(1) [OF k] by (auto intro: R_more)
        then show ?thesis using R_trans by blast
      qed
    qed
  qed
  moreover assume "send_queued aenv netif mac i g = Some g'"
  ultimately show ?thesis by blast
qed

lemma update_arp_entry_R:
  assumes "update_arp_entry aenv netif ip mac flags g = Some (r, g')"
  shows "R g g'"
proof -
  have refl: "R g g" by (simp add: R_more)
  consider "g' = g" | g1 where "find_entry ip flags g = Some (None, g1)" "g' = g1"
    | i f g1 g2 where "find_entry ip flags g = Some (Some i, g1)" "upd_entry i f g1 = Some g2"
        "send_queued aenv netif mac i g2 = Some g'"
    using assms unfolding update_arp_entry_def by (auto elim!: bind_SomeE split: if_splits option.splits)
  then show ?thesis
  proof cases
    case 1
    with refl show ?thesis by simp
  next
    case 2
    then show ?thesis using find_entry_more [OF 2(1)] by (simp add: R_more)
  next
    case 3
    then have "net_rest g2 = net_rest g" using find_entry_more [OF 3(1)] upd_entry_more [OF 3(2)] by simp
    then show ?thesis by (rule R_left) (rule send_queued_R [OF 3(3)])
  qed
qed

lemma ip_learn_R: "etharp_ip_input aenv netif p g = Some g' \<Longrightarrow> R g g'"
  unfolding etharp_ip_input_def by (auto elim!: bind_SomeE split: if_splits intro: R_more dest: update_arp_entry_R)

lemma arp_act_R: "arp_act aenv netif mac p for_us sip g = Some g' \<Longrightarrow> R g g'"
  unfolding arp_act_def Let_def
  by (auto elim!: bind_SomeE split: if_splits intro: R_more dest!: link_R dhcp_R)

lemma arp_input_R:
  assumes "etharp_arp_input aenv netif mac p g = Some g'"
  shows "R g g'"
proof -
  consider "free_pbuf p g = Some g'"
    | r g1 g2 ip hw flags for_us sip where "update_arp_entry aenv netif ip hw flags g = Some (r, g1)"
        "arp_act aenv netif mac p for_us sip g1 = Some g2" "free_pbuf p g2 = Some g'"
    using assms unfolding etharp_arp_input_def Let_def by (auto elim!: bind_SomeE split: if_splits)
  then show ?thesis
  proof cases
    case 1
    then show ?thesis by (rule free_pbuf_R)
  next
    case 2
    show ?thesis
      by (rule R_trans [OF update_arp_entry_R [OF 2(1)] R_trans [OF arp_act_R [OF 2(2)] free_pbuf_R [OF 2(3)]]])
  qed
qed

lemma ethernet_input_R:
  assumes "ethernet_input aenv env p netif g = Some (r, g')"
  shows "R g g'"
proof -
  consider "drop_ip p g = Some (r, g')"
    | mac where "etharp_arp_input aenv netif mac p g = Some g'"
    | st g1 g2 where "etharp_ip_input aenv netif p g = Some g1"
        "on_pbufs (pbuf_header (Some p) (- int SIZEOF_ETH_HDR)) g1 = Some (st, g2)"
        "drop_ip p g2 = Some (r, g') \<or> (\<exists>e. ip_input env p netif g2 = Some (e, g'))"
    using assms unfolding ethernet_input_def by (auto elim!: bind_SomeE split: if_splits)
  then show ?thesis
  proof cases
    case 1
    then show ?thesis by (rule drop_ip_R)
  next
    case 2
    then show ?thesis by (rule arp_input_R)
  next
    case 3
    then have "R g g1" "R g1 g2" "R g2 g'" by (auto intro: ip_learn_R R_more on_pbufs_more drop_ip_R ip_input_R)
    then show ?thesis using R_trans by blast
  qed
qed

end

end
