(* ===== verification/Proto_Frame.thy ===== *)
theory Proto_Frame
  imports Net_Frame Igmp Udp
begin

text \<open>
  The frame of the protocols above IP.  A relation between states that tolerates every change of the network globals and
  is kept by the functions behind the pointers (the output function of an interface, the receive callbacks, the MAC filter, the random
  numbers) is kept by \<open>icmp_input\<close>, \<open>igmp_input\<close>, \<open>udp_input\<close> and the functions that send.
\<close>

section \<open>Operations on the control blocks\<close>

named_theorems all_more

lemma rest_more: "net_rest g' = net_rest g \<Longrightarrow> net.more g' = net.more g"
  by (simp add: net_rest_def)

lemmas [all_more] = net_more [THEN rest_more]

lemma store_more [all_more]: "store p ptr off bs g = Some g' \<Longrightarrow> net.more g' = net.more g"
  by (auto simp: store_def elim!: bind_SomeE)

lemma echo_answer_more [all_more]: "echo_answer env p iphdr g = Some g' \<Longrightarrow> net.more g' = net.more g"
  by (auto simp: echo_answer_def Let_def elim!: bind_SomeE dest!: store_more)

lemma echo_room_more [all_more]: "echo_room env p iphdr hlen g = Some (r, g') \<Longrightarrow> net.more g' = net.more g"
  by (auto simp: echo_room_def elim!: bind_SomeE split: if_splits option.splits dest!: all_more)

lemma upd_group_more [all_more]: "upd_group grp f g = Some g' \<Longrightarrow> net.more g' = net.more g"
  by (auto simp: upd_group_def elim!: bind_SomeE)

lemma upd_udp_more [all_more]: "upd_udp pcb f g = Some g' \<Longrightarrow> net.more g' = net.more g"
  by (auto simp: upd_udp_def elim!: bind_SomeE)

lemma igmp_report_more [all_more]: "igmp_report grp g = Some g' \<Longrightarrow> net.more g' = net.more g"
  by (auto simp: igmp_report_def elim!: bind_SomeE split: if_splits dest!: all_more)

lemma igmp_lookup_more [all_more]: "igmp_lookup_group ienv ifp a g = Some (r, g') \<Longrightarrow> net.more g' = net.more g"
  by (auto simp: igmp_lookup_group_def elim!: bind_SomeE split: option.splits)

lemma udp_find_more [all_more]: "udp_find_pcb inp bc src dest g = Some (r, g') \<Longrightarrow> net.more g' = net.more g"
  by (auto simp: udp_find_pcb_def elim!: bind_SomeE split: if_splits option.splits)

lemma udp_bind_more [all_more]: "udp_bind pcb ip port g = Some (r, g') \<Longrightarrow> net.more g' = net.more g"
  by (auto simp: udp_bind_def elim!: bind_SomeE split: if_splits option.splits dest!: upd_udp_more)

lemma udp_autobind_more [all_more]: "udp_autobind pcb g = Some (r, g') \<Longrightarrow> net.more g' = net.more g"
  by (auto simp: udp_autobind_def elim!: bind_SomeE split: if_splits dest!: udp_bind_more)

section \<open>The contract\<close>

locale proto_frame = ip_frame R env for R :: "'a net_scheme \<Rightarrow> 'a net_scheme \<Rightarrow> bool" and env :: "('a net_scheme) ip_env" +
  fixes ienv :: "('a net_scheme) igmp_env" and urecv :: "('a net_scheme) udp_recv_fn"
  assumes R_all: "net.more g' = net.more g \<Longrightarrow> R g g'"
    and rand_R: "lwip_rand ienv g = (r, g') \<Longrightarrow> R g g'"
    and mac_R: "mac_filter ienv f netif a add g = Some g' \<Longrightarrow> R g g'"
    and urecv_R: "urecv f arg pcb p ip port g = Some g' \<Longrightarrow> R g g'"
begin

lemma R_sandwich: "net.more g1 = net.more g \<Longrightarrow> R g1 g2 \<Longrightarrow> net.more g' = net.more g2 \<Longrightarrow> R g g'"
  using R_all R_trans by blast

lemma icmp_input_R: "icmp_input env p inp g = Some g' \<Longrightarrow> R g g'"
  unfolding icmp_input_def Let_def
  by (auto simp: R_all elim!: bind_SomeE split: if_splits option.splits dest!: all_more output_if_R) (metis R_sandwich)+

lemma ip_output_R: "ip_output env p src dest ttl tos proto g = Some (r, g') \<Longrightarrow> R g g'"
  by (auto simp: ip_output_def R_all elim!: bind_SomeE split: option.splits dest!: output_if_R)

lemma icmp_dest_unreach_R: "icmp_dest_unreach env p t g = Some g' \<Longrightarrow> R g g'"
  unfolding icmp_dest_unreach_def icmp_send_response_def
  by (auto simp: R_all elim!: bind_SomeE split: option.splits dest!: all_more ip_output_R) (metis R_sandwich)+

lemma output_if_opt_R:
  assumes "ip_output_if_opt env p src (Some dst) ttl tos proto netif opts g = Some (r, g')"
  shows "R g g'"
  using assms unfolding ip_output_if_opt_def Let_def
  by (auto simp: R_all elim!: bind_SomeE split: if_splits dest!: all_more netif_output_R) (metis R_sandwich)+

lemma igmp_send_R: "igmp_send env grp type g = Some g' \<Longrightarrow> R g g'"
  unfolding igmp_send_def send_to_def Let_def igmp_ip_output_if_def
  by (auto simp: R_all elim!: bind_SomeE split: if_splits option.splits dest!: all_more output_if_opt_R) (metis R_sandwich)+

lemma start_timer_R: "igmp_start_timer ienv grp n g = Some g' \<Longrightarrow> R g g'"
  unfolding igmp_start_timer_def
  by (auto simp: Let_def split: if_splits prod.splits dest!: upd_group_more rand_R intro: R_trans R_all)

lemma delaying_member_R: "igmp_delaying_member ienv grp n g = Some g' \<Longrightarrow> R g g'"
  unfolding igmp_delaying_member_def
  by (auto simp: R_all elim!: bind_SomeE split: if_splits dest!: upd_group_more start_timer_R) (metis R_sandwich)+

lemma over_groups_R:
  assumes "over_groups f as g = Some g'" "\<And>grp g g'. f grp g = Some g' \<Longrightarrow> R g g'"
  shows "R g g'"
  using assms(1)
proof (induction as arbitrary: g)
  case (Cons a as)
  then obtain g1 where "f a g = Some g1" "over_groups f as g1 = Some g'" by (auto elim!: bind_SomeE)
  with Cons.IH assms(2) show ?case using R_trans by blast
qed (simp add: R_all)

lemma query_group_R: "query_group ienv inp n grp g = Some g' \<Longrightarrow> R g g'"
  by (auto simp: query_group_def R_all elim!: bind_SomeE split: if_splits dest!: delaying_member_R)

lemma igmp_query_R: "igmp_query ienv p inp dest grp g = Some g' \<Longrightarrow> R g g'"
  unfolding igmp_query_def Let_def
  by (auto simp: R_all elim!: bind_SomeE split: if_splits option.splits
      dest!: delaying_member_R over_groups_R [OF _ query_group_R])

lemma igmp_input_R: "igmp_input env ienv p inp dest g = Some g' \<Longrightarrow> R g g'"
  unfolding igmp_input_def
  by (auto simp: R_all elim!: bind_SomeE split: if_splits option.splits dest!: all_more igmp_query_R) (metis R_sandwich)+

lemma udp_deliver_R: "udp_deliver env urecv p back bc src pcb g = Some g' \<Longrightarrow> R g g'"
  unfolding udp_deliver_def
  by (auto simp: R_all elim!: bind_SomeE split: if_splits option.splits dest!: all_more icmp_dest_unreach_R urecv_R)
    (metis R_sandwich)+

lemma udp_input_R: "udp_input env urecv p inp g = Some g' \<Longrightarrow> R g g'"
  unfolding udp_input_def Let_def
  by (auto simp: R_all elim!: bind_SomeE split: if_splits dest!: all_more udp_deliver_R) (metis R_sandwich)+

end

end
