(* ===== verification/User_Spec.thy ===== *)
theory User_Spec
  imports User_Main Igmp_Spec
begin

text \<open>
  The main program on top of its components.  First what a message sent to the host leaves alone, then the contracts
  of the lower layers discharged for the functions of \<open>user_main.c\<close>, then the properties of the whole firmware.
\<close>

section \<open>What a message to the host leaves alone\<close>

definition comm_only :: "('s, 'a) comm_scheme \<Rightarrow> ('s, 'a) comm_scheme \<Rightarrow> bool" where
  "comm_only g g' \<longleftrightarrow> (\<exists>s ps t. g' = g\<lparr>sdk := s, os_posts := ps, transmitter_uart0 := t\<rparr>)"

lemma comm_only_refl [simp]: "comm_only g g"
  by (cases g) (simp add: comm_only_def)

lemma comm_only_trans [trans]: "comm_only g g1 \<Longrightarrow> comm_only g1 g2 \<Longrightarrow> comm_only g g2"
  by (cases g) (auto simp: comm_only_def)

lemma comm_only_update [simp, intro]:
  "comm_only g g1 \<Longrightarrow> comm_only g (g1\<lparr>sdk := s\<rparr>)" "comm_only g g1 \<Longrightarrow> comm_only g (g1\<lparr>transmitter_uart0 := t\<rparr>)"
  "comm_only g g1 \<Longrightarrow> comm_only g (transmitter_wake_task g1)"
  by (cases g; auto simp: comm_only_def transmitter_wake_task_def)+

lemma transmitter_push_only: "transmitter_push api data prio g = Some g' \<Longrightarrow> comm_only g g'"
proof (induction rule: transmitter_push.raw_induct [rotated, consumes 1, case_names push])
  case 1: (push push api data prio g g')
  obtain mem s where m: "os_malloc api (COBS_ENCODED_MAX_SIZE (length data) + 1) (sdk g) = (mem, s)" by force
  show ?case
  proof (cases "push_precheck (system_get_free_heap_size api (sdk g)) prio (transmitter_uart0 g) \<and> mem \<noteq> None")
    case False
    with 1(2) m show ?thesis by (auto simp: Let_def split: if_splits)
  next
    case True
    with 1(2) m obtain blk n g1 b where
      log: "(if b then do {
             txt \<leftarrow> log_text api ''buffer overflow'' [];
             push api (comm_msg MSG_LOG (40 # txt)) COMM_TX_PRIO_HIGH (g\<lparr>sdk := s\<rparr>)
           } else Some (g\<lparr>sdk := s\<rparr>)) = Some g1"
      and c: "(case push_commit blk n (transmitter_uart0 g1) of
          None \<Rightarrow> Some (upd_tx drop_packet (g1\<lparr>sdk := os_free api blk (sdk g1)\<rparr>))
        | Some t \<Rightarrow> Some (transmitter_wake_task (g1\<lparr>transmitter_uart0 := t\<rparr>))) = Some g'"
      by (auto simp: Let_def bind_eq_Some_conv split del: if_split)
    have "comm_only (g\<lparr>sdk := s\<rparr>) g1"
      using log by (auto simp: bind_eq_Some_conv split: if_splits dest!: 1(1))
    moreover have "comm_only g1 g'"
    proof (cases "push_commit blk n (transmitter_uart0 g1)")
      case None
      with c have "g' = upd_tx drop_packet (g1\<lparr>sdk := os_free api blk (sdk g1)\<rparr>)" by simp
      then show ?thesis by simp
    next
      case (Some t)
      with c have "g' = transmitter_wake_task (g1\<lparr>transmitter_uart0 := t\<rparr>)" by simp
      then show ?thesis by simp
    qed
    ultimately have "comm_only (g\<lparr>sdk := s\<rparr>) g'" by (rule comm_only_trans)
    then show ?thesis by (rule comm_only_trans [OF comm_only_update(1) [OF comm_only_refl]])
  qed
qed

lemma comm_send_only: "comm_send api ty d prio g = Some g' \<Longrightarrow> comm_only g g'"
  by (simp add: comm_send_def transmitter_push_only)

lemma comm_send_ctl_only: "comm_send_ctl api ty d g = Some g' \<Longrightarrow> comm_only g g'"
  by (simp add: comm_send_ctl_def comm_send_only)

lemma COMM_LOG_only: "COMM_LOG api level fmt args g = Some g' \<Longrightarrow> comm_only g g'"
  by (auto simp: COMM_LOG_def bind_eq_Some_conv comm_send_ctl_only split: if_splits)

lemmas sender_only = comm_send_only comm_send_ctl_only COMM_LOG_only

lemma comm_only_net:
  assumes "comm_only g g'"
  shows "pbufs g' = pbufs g" "netif_mem g' = netif_mem g" "netif_list g' = netif_list g" "netif_default g' = netif_default g"
    "raw_mem g' = raw_mem g" "raw_pcbs g' = raw_pcbs g" "ip_id g' = ip_id g" "current_iphdr_src g' = current_iphdr_src g"
    "current_iphdr_dest g' = current_iphdr_dest g" "arp_table g' = arp_table g" "etharp_cached_entry g' = etharp_cached_entry g"
    "igmp_mem g' = igmp_mem g" "igmp_group_list g' = igmp_group_list g" "udp_mem g' = udp_mem g" "udp_pcbs g' = udp_pcbs g"
  using assms by (auto simp: comm_only_def)

lemma comm_only_user:
  assumes "comm_only g (g' :: 's user)"
  shows "global_forwarding_mode g' = global_forwarding_mode g" "forward_ip_broadcasts g' = forward_ip_broadcasts g"
    "raw_pcb_tcp g' = raw_pcb_tcp g" "raw_pcb_udp g' = raw_pcb_udp g" "netif_input_orig g' = netif_input_orig g"
    "netif_output_orig g' = netif_output_orig g" "netif_linkoutput_orig g' = netif_linkoutput_orig g"
  using assms by (auto simp: comm_only_def)

section \<open>The contracts of the lower layers\<close>

text \<open>The saved pointers never name the intercepting functions themselves.\<close>

definition orig_ok :: "'s user \<Rightarrow> bool" where
  "orig_ok g \<longleftrightarrow> netif_input_orig g \<noteq> NETIF_INPUT_MITM \<and> netif_output_orig g \<noteq> NETIF_OUTPUT_MITM \<and>
     netif_linkoutput_orig g \<noteq> NETIF_LINKOUTPUT_MITM"

definition fw_frame :: "'s user \<Rightarrow> 's user \<Rightarrow> bool" where
  "fw_frame g g' \<longleftrightarrow> comm_frame g g' \<and> (orig_ok g \<longrightarrow> orig_ok g')"

lemma fw_frame_refl [simp]: "fw_frame g g"
  by (simp add: fw_frame_def)

lemma fw_frame_trans [trans]: "fw_frame g g1 \<Longrightarrow> fw_frame g1 g2 \<Longrightarrow> fw_frame g g2"
  by (auto simp: fw_frame_def intro: comm_frame_trans)

lemma fw_frame_comm: "fw_frame g g' \<Longrightarrow> comm_frame g g'"
  by (simp add: fw_frame_def)

lemma fw_frame_more: "net.more g' = net.more g \<Longrightarrow> fw_frame g g'"
  by (cases g; cases g') (simp add: fw_frame_def comm_frame_def orig_ok_def)

lemma only_fw: "comm_frame g g' \<Longrightarrow> comm_only g g' \<Longrightarrow> fw_frame g g'"
  by (simp add: fw_frame_def orig_ok_def comm_only_user)

lemma sender_fw:
  "comm_send api ty d prio g = Some g' \<Longrightarrow> fw_frame g g'"
  "comm_send_ctl api ty d g = Some g' \<Longrightarrow> fw_frame g g'"
  "COMM_LOG api level fmt args g = Some g' \<Longrightarrow> fw_frame g g'"
  by (blast intro: only_fw sender_frames sender_only)+

lemmas send_ctl_fw = sender_fw(2) and LOG_fw = sender_fw(3)

lemma fw_frame_rest: "net_rest g' = net_rest g \<Longrightarrow> fw_frame g g'"
  by (rule fw_frame_more) (simp add: net_rest_def)

interpretation cf: net_frame fw_frame
  by unfold_locales (auto intro: fw_frame_rest fw_frame_trans)

lemma comm_only_arp: "comm_only g g' \<Longrightarrow> arp_keeps g g'"
  by (simp add: arp_keeps_def comm_only_net)

lemma on_driver_keeps: "on_driver f g = Some (r, g') \<Longrightarrow> fw_frame g g' \<and> arp_keeps g g' \<and> igmp_same g g'"
  by (auto simp: on_driver_def bind_eq_Some_conv fw_frame_def comm_frame_def orig_ok_def arp_keeps_def igmp_same_def)

text \<open>A relation that logging and the driver keep is kept by the intercepted \<open>linkoutput\<close>; if it tolerates the changes of the
  ARP module as well, by the intercepted \<open>output\<close>.\<close>

locale driver_frame =
  fixes R :: "'s user \<Rightarrow> 's user \<Rightarrow> bool"
  assumes R_log: "COMM_LOG api level fmt args g = Some g' \<Longrightarrow> R g g'"
    and R_driver: "on_driver f g = Some (r, g') \<Longrightarrow> R g g'"
    and R_refl: "R g g"
    and R_then: "R g g1 \<Longrightarrow> R g1 g2 \<Longrightarrow> R g g2"
begin

lemma linkoutput_mitm_R: "netif_linkoutput_mitm api netif p g = Some rg \<Longrightarrow> R g (snd rg)"
proof (induction rule: netif_linkoutput_mitm.raw_induct [rotated, consumes 1, case_names mitm])
  case 1: (mitm rec api netif p g rg)
  from 1(2) obtain b :: pbuf and g1 where l: "COMM_DBG (capi api) ''mitm linkoutput, size=%d'' [uint (tot_len b)] g = Some g1"
    and k: "(if global_forwarding_mode g1 = FORWARDING_MODE_ETHER then Some (ERR_OK, g1)
     else if netif_linkoutput_orig g1 \<noteq> 0 then
       (if netif_linkoutput_orig g1 = NETIF_LINKOUTPUT_MITM then rec api netif p g1
        else on_driver (drv_linkoutput api (netif_linkoutput_orig g1) netif p) g1)
     else do { g \<leftarrow> COMM_WARN (capi api) ''mitm linkoutput zero pointer'' [] g1; Some (ERR_OK, g) }) = Some rg"
    by (elim bind_SomeE) blast
  have "R g1 (snd rg)"
    using k 1(1) R_driver [of _ g1 "fst rg" "snd rg"] by (auto simp: bind_eq_Some_conv R_refl R_log split: if_splits)
  with R_log [OF l] show ?case by (rule R_then)
qed

lemma linkoutput_R: "user_linkoutput api f netif p g = Some (r, g') \<Longrightarrow> R g g'"
  using linkoutput_mitm_R [of api netif p g "(r, g')"] R_driver by (auto simp: user_linkoutput_def split: if_splits)

end

interpretation drvf: driver_frame fw_frame
  by unfold_locales (auto dest: on_driver_keeps LOG_fw intro: fw_frame_trans)

interpretation drva: driver_frame arp_keeps
  by unfold_locales (auto dest: on_driver_keeps comm_only_arp [OF COMM_LOG_only] intro: arp_keeps_trans)

interpretation uarp: arp_link "user_arp_env api" for api
  by unfold_locales (simp add: user_arp_env_def drva.linkoutput_R)

locale mitm_frame = driver_frame R + net_frame R for R :: "'s user \<Rightarrow> 's user \<Rightarrow> bool"
begin

lemma etharp_mitm_R: "etharp_output (user_arp_env api) netif p ip g = Some (r, g') \<Longrightarrow> R g g'"
proof -
  have "arp_frame R (user_arp_env api)" by unfold_locales (simp add: user_arp_env_def linkoutput_R)
  then show "etharp_output (user_arp_env api) netif p ip g = Some (r, g') \<Longrightarrow> R g g'" by (rule arp_frame.etharp_output_R)
qed

lemma output_mitm_R: "netif_output_mitm api netif p ip g = Some rg \<Longrightarrow> R g (snd rg)"
proof (induction rule: netif_output_mitm.raw_induct [rotated, consumes 1, case_names mitm])
  case 1: (mitm rec api netif p ip g rg)
  from 1(2) obtain b :: pbuf and g1 where l: "COMM_DBG (capi api) ''mitm output, size=%d'' [uint (tot_len b)] g = Some g1"
    and k: "(if global_forwarding_mode g1 = FORWARDING_MODE_ETHER then Some (ERR_OK, g1)
     else if netif_output_orig g1 \<noteq> 0 then
       (if netif_output_orig g1 = NETIF_OUTPUT_MITM then rec api netif p ip g1
        else if netif_output_orig g1 = ETHARP_OUTPUT then etharp_output (user_arp_env api) netif p ip g1
        else on_driver (drv_output api (netif_output_orig g1) netif p ip) g1)
     else do { g \<leftarrow> COMM_WARN (capi api) ''mitm output zero pointer'' [] g1; Some (ERR_OK, g) }) = Some rg"
    by (elim bind_SomeE) blast
  have "R g1 (snd rg)"
    using k 1(1) R_driver [of _ g1 "fst rg" "snd rg"] etharp_mitm_R [of api netif p ip g1 "fst rg" "snd rg"]
    by (auto simp: bind_eq_Some_conv R_refl R_log split: if_splits)
  with R_log [OF l] show ?case by (rule R_then)
qed

lemma output_R: "user_output api f netif p ip g = Some (r, g') \<Longrightarrow> R g g'"
  using output_mitm_R [of api netif p ip g "(r, g')"] R_driver etharp_mitm_R by (auto simp: user_output_def split: if_splits)

end

interpretation outf: mitm_frame fw_frame
  by unfold_locales

interpretation outg: mitm_frame igmp_same
  by unfold_locales
    (auto dest: on_driver_keeps comm_only_net [OF COMM_LOG_only] simp: igmp_same_def net_rest_def comm_only_net [OF COMM_LOG_only])

lemmas output_frame = outf.output_R and linkoutput_frame = drvf.linkoutput_R

interpretation uipf: ip_frame fw_frame "user_env api" for api
  by unfold_locales (auto dest: output_frame)

text \<open>IGMP on the state of the firmware.\<close>

interpretation uigmp: igmp_link "user_ip_env api" "user_igmp_env api" for api
  by unfold_locales
    (auto simp: user_igmp_env_def Let_def igmp_same_def elim!: bind_SomeE split: prod.splits
      dest!: outg.output_R [unfolded igmp_same_def])


text \<open>The receive callback of the raw sockets.\<close>

abbreviation raw_keeps :: "'a net_scheme \<Rightarrow> 'a net_scheme \<Rightarrow> bool" where
  "raw_keeps g g' \<equiv> raw_pcbs g' = raw_pcbs g \<and> raw_mem g' = raw_mem g \<and> current_iphdr_dest g' = current_iphdr_dest g"

lemma COMM_LOG_raw: "COMM_LOG api level fmt args g = Some g' \<Longrightarrow> raw_keeps g g'"
  by (drule COMM_LOG_only) (simp add: comm_only_net)

lemma free_pbuf_raw: "free_pbuf p g = Some g' \<Longrightarrow> raw_keeps g g'"
  by (auto simp: free_pbuf_def on_pbufs_def bind_eq_Some_conv)

lemma forward_packet_only: "forward_packet api ty small p g = Some g' \<Longrightarrow> comm_only g g'"
  by (auto simp: forward_packet_def bind_eq_Some_conv Let_def split: if_splits intro: sender_only)

lemma forward_packet_raw: "forward_packet api ty small p g = Some g' \<Longrightarrow> raw_keeps g g'"
  by (drule forward_packet_only) (simp add: comm_only_net)

lemma raw_receiver_keeps: "raw_receiver api p g = Some (r, g') \<Longrightarrow> raw_keeps g g'"
  unfolding raw_receiver_def
  by (auto elim!: bind_SomeE split: if_splits dest!: COMM_LOG_raw forward_packet_raw free_pbuf_raw)

interpretation uraw: raw_client "user_env api" for api
  by unfold_locales (auto simp: user_raw_recv_def dest: raw_receiver_keeps split: if_splits)

section \<open>The handler of the host's messages\<close>

named_theorems handler_frame

lemmas [handler_frame] = sender_fw

lemma on_sdk_frame: "on_sdk f g = (r, g') \<Longrightarrow> fw_frame g g'"
  by (cases g) (auto simp: on_sdk_def put_net_def net.defs fw_frame_def comm_frame_def orig_ok_def split: prod.splits)

lemma status_frame [handler_frame]: "comm_send_status api st g = Some g' \<Longrightarrow> fw_frame g g'"
  by (simp add: comm_send_status_def send_ctl_fw)

lemma FAIL_frame [handler_frame]: "FAIL api fmt args g = Some g' \<Longrightarrow> fw_frame g g'"
  unfolding FAIL_def by (elim bind_SomeE) (blast intro: fw_frame_trans handler_frame)

lemma try_sdk_frame:
  assumes "try_sdk api f msg rest g = Some g'" "\<And>g g'. rest g = Some g' \<Longrightarrow> fw_frame g g'"
  shows "fw_frame g g'"
proof -
  obtain ok g1 where o: "on_sdk f g = (ok, g1)" by force
  have "fw_frame g1 g'" using assms o FAIL_frame by (auto simp: try_sdk_def split: if_splits)
  with on_sdk_frame [OF o] show ?thesis by (rule fw_frame_trans)
qed

lemma hook_frame [handler_frame]:
  "hook_input api netif g = Some g' \<Longrightarrow> fw_frame g g'"
  "hook_output api netif g = Some g' \<Longrightarrow> fw_frame g g'"
  "hook_linkoutput api netif g = Some g' \<Longrightarrow> fw_frame g g'"
  by (auto simp: hook_input_def hook_output_def hook_linkoutput_def fw_frame_def comm_frame_def orig_ok_def split: if_splits
      elim!: bind_SomeE dest!: LOG_fw)

lemma mitm_interface_frame [handler_frame]: "mitm_interface api g = Some g' \<Longrightarrow> fw_frame g g'"
  by (auto simp: mitm_interface_def split: option.splits elim!: bind_SomeE dest!: handler_frame intro: fw_frame_trans)

lemma fw_frame_user [simp]:
  "fw_frame g (g'\<lparr>forward_ip_broadcasts := x\<rparr>) = fw_frame g g'" "fw_frame g (g'\<lparr>global_forwarding_mode := x\<rparr>) = fw_frame g g'"
  "fw_frame g (g'\<lparr>raw_pcb_tcp := q\<rparr>) = fw_frame g g'" "fw_frame g (g'\<lparr>raw_pcb_udp := q\<rparr>) = fw_frame g g'"
  "fw_frame (g\<lparr>forward_ip_broadcasts := x\<rparr>) g' = fw_frame g g'" "fw_frame (g\<lparr>global_forwarding_mode := x\<rparr>) g' = fw_frame g g'"
  "fw_frame (g\<lparr>raw_pcb_tcp := q\<rparr>) g' = fw_frame g g'" "fw_frame (g\<lparr>raw_pcb_udp := q\<rparr>) g' = fw_frame g g'"
  "fw_frame (g\<lparr>pbufs := h\<rparr>) g' = fw_frame g g'" "fw_frame (comm_set_loglevel l g) g' = fw_frame g g'"
  by (simp_all add: fw_frame_def comm_frame_def orig_ok_def comm_set_loglevel_def)

lemma handlers_frame [handler_frame]:
  "wifi_mode_set api data g = Some g' \<Longrightarrow> fw_frame g g'"
  "station_static_ip_conf_set api data g = Some g' \<Longrightarrow> fw_frame g g'"
  "wifi_sleep_mode_set api data g = Some g' \<Longrightarrow> fw_frame g g'"
  "wifi_scan_request api data g = Some g' \<Longrightarrow> fw_frame g g'"
  "softap_conf_set api data g = Some g' \<Longrightarrow> fw_frame g g'"
  by (auto simp: wifi_mode_set_def station_static_ip_conf_set_def wifi_sleep_mode_set_def wifi_scan_request_def
      softap_conf_set_def Let_def split: if_splits option.splits elim!: try_sdk_frame dest!: handler_frame)

lemma softap_net_frame [handler_frame]: "softap_net_conf_set api data g = Some g' \<Longrightarrow> fw_frame g g'"
  by (auto simp: softap_net_conf_set_def Let_def split: if_splits elim!: try_sdk_frame dest!: handler_frame)

lemma requests_frame [handler_frame]:
  "station_ip_conf_request api g = Some g' \<Longrightarrow> fw_frame g g'"
  "wifi_get_macaddr_request api g = Some g' \<Longrightarrow> fw_frame g g'"
  "station_conn_status_request api g = Some g' \<Longrightarrow> fw_frame g g'"
  "station_rssi_request api g = Some g' \<Longrightarrow> fw_frame g g'"
  "print_stats api g = Some g' \<Longrightarrow> fw_frame g g'"
  by (auto simp: station_ip_conf_request_def wifi_get_macaddr_request_def station_conn_status_request_def
      station_rssi_request_def print_stats_def Let_def split: if_splits prod.splits dest!: handler_frame)

lemma settings_frame [handler_frame]:
  "forward_ip_broadcasts_set api data g = Some g' \<Longrightarrow> fw_frame g g'"
  "set_forwarding_mode api data g = Some g' \<Longrightarrow> fw_frame g g'"
  "log_level_set api data g = Some g' \<Longrightarrow> fw_frame g g'"
  by (auto simp: forward_ip_broadcasts_set_def set_forwarding_mode_def log_level_set_def split: if_splits
      dest!: handler_frame)

lemma set_baud_frame [handler_frame]: "set_baud api data g = Some g' \<Longrightarrow> fw_frame g g'"
  by (auto simp: set_baud_def fw_frame_def comm_frame_def orig_ok_def call_def Let_def split: if_splits)

lemma dhcpc_frame [handler_frame]:
  assumes "station_dhcpc_state_set api data g = Some g'"
  shows "fw_frame g g'"
proof (cases "length data = 1")
  case False
  with assms show ?thesis by (auto simp: station_dhcpc_state_set_def dest: FAIL_frame)
next
  case True
  obtain r1 g1 where 1: "(if data ! 0 \<noteq> 0 \<and> wifi_station_dhcpc_status api (world g) = DHCP_STOPPED
    then on_sdk (wifi_station_dhcpc_start api) g else (False, g)) = (r1, g1)" by force
  obtain r2 g2 where 2: "(if data ! 0 = 0 \<and> wifi_station_dhcpc_status api (world g1) = DHCP_STARTED
    then on_sdk (wifi_station_dhcpc_stop api) g1 else (False, g1)) = (r2, g2)" by force
  have f: "fw_frame g g1" "fw_frame g1 g2" using 1 2 by (auto split: if_splits dest: on_sdk_frame)
  have "fw_frame g1 g' \<or> fw_frame g2 g'"
    using assms True unfolding station_dhcpc_state_set_def 1 2 by (auto simp: 1 2 split: if_splits dest: handler_frame)
  with f show ?thesis using fw_frame_trans by blast
qed

lemma station_conf_frame [handler_frame]:
  assumes "station_conf_set api data g = Some g'"
  shows "fw_frame g g'"
proof -
  have "fw_frame g g'" if "(let (_, g) = on_sdk f g; (_, g) = on_sdk f2 g in send_ok api g) = Some g'" for g g' f f2
  proof -
    obtain r1 g1 where 1: "on_sdk f g = (r1, g1)" by force
    obtain r2 g2 where 2: "on_sdk f2 g1 = (r2, g2)" by force
    have "fw_frame g2 g'" using that 1 2 by (simp add: status_frame)
    with on_sdk_frame [OF 1] on_sdk_frame [OF 2] show ?thesis using fw_frame_trans by blast
  qed
  then show ?thesis
    using assms unfolding station_conf_set_def Let_def
    by (auto split: if_splits elim!: try_sdk_frame dest!: handler_frame)
qed

lemma inject_ip_frame [handler_frame]:
  assumes "inject_ip_packet api data g = Some g'"
  shows "fw_frame g g'"
proof -
  consider level fmt args where "COMM_LOG (capi api) level fmt args g = Some g'"
    | q g1 level fmt args where "on_pbufs q g = Some (None :: nat option, g1)" "COMM_LOG (capi api) level fmt args g1 = Some g'"
    | f p g1 h pcb ip r g2 where "on_pbufs f g = Some (Some p :: nat option, g1)"
        "raw_sendto (user_env api) pcb p ip (g1\<lparr>pbufs := h\<rparr>) = Some (r, g2)" "free_pbuf p g2 = Some g'"
    using assms unfolding inject_ip_packet_def Let_def
    by (auto elim!: bind_SomeE split: if_splits option.splits)
  then show ?thesis
  proof cases
    case 1
    then show ?thesis by (rule LOG_fw)
  next
    case 2
    show ?thesis by (rule cf.R_left [OF on_pbufs_more [OF 2(1)] LOG_fw [OF 2(2)]])
  next
    case 3
    have "fw_frame g1 g2" using uipf.raw_sendto_R [OF 3(2)] by simp
    then show ?thesis by (rule cf.R_left [OF on_pbufs_more [OF 3(1)] cf.R_right [OF _ free_pbuf_more [OF 3(3)]]])
  qed
qed

lemma inject_ether_frame [handler_frame]:
  assumes "inject_ether_packet api data g = Some g'"
  shows "fw_frame g g'"
proof -
  consider level fmt args where "COMM_LOG (capi api) level fmt args g = Some g'"
    | q g1 level fmt args where "on_pbufs q g = Some (None :: nat option, g1)" "COMM_LOG (capi api) level fmt args g1 = Some g'"
    | f p g1 h lf netif r g2 where "on_pbufs f g = Some (Some p :: nat option, g1)"
        "user_linkoutput api lf netif p (g1\<lparr>pbufs := h\<rparr>) = Some (r, g2)" "free_pbuf p g2 = Some g'"
    using assms unfolding inject_ether_packet_def Let_def
    by (auto elim!: bind_SomeE split: if_splits option.splits)
  then show ?thesis
  proof cases
    case 1
    then show ?thesis by (rule LOG_fw)
  next
    case 2
    show ?thesis by (rule cf.R_left [OF on_pbufs_more [OF 2(1)] LOG_fw [OF 2(2)]])
  next
    case 3
    have "fw_frame g1 g2" using linkoutput_frame [OF 3(2)] by simp
    then show ?thesis by (rule cf.R_left [OF on_pbufs_more [OF 3(1)] cf.R_right [OF _ free_pbuf_more [OF 3(3)]]])
  qed
qed

lemma packet_from_host_frame:
  assumes "packet_from_host api type data g = Some g'"
  shows "fw_frame g g'"
proof -
  obtain g1 where m: "mitm_interface api g = Some g1" using assms unfolding packet_from_host_def by (elim bind_SomeE)
  have "fw_frame g1 g'"
    using assms m unfolding packet_from_host_def
    by (auto elim!: bind_SomeE split: if_splits dest!: handler_frame intro: fw_frame_trans)
  with mitm_interface_frame [OF m] show ?thesis by (rule fw_frame_trans)
qed

interpretation main: comm_client "packet_from_host api" for api
  by unfold_locales (rule fw_frame_comm [OF packet_from_host_frame])

section \<open>Scheduling of the firmware\<close>

text \<open>TCP, the receive callbacks of the UDP applications and the DHCP client work on packets and on their own variables; they
  send through the interface and the functions above, and so keep \<open>fw_frame\<close>.\<close>

definition stack_ok :: "'s user_api \<Rightarrow> bool" where
  "stack_ok api \<longleftrightarrow> (\<forall>f arg pcb p inp ip port g g'.
     call_udp_recv api f arg pcb p ip port g = Some g' \<or> call_tcp_input api p inp g = Some g' \<or>
     call_dhcp_arp_reply api inp ip g = Some g' \<longrightarrow> fw_frame g g')"

lemma forward_packet_frame: "forward_packet api ty small p g = Some g' \<Longrightarrow> fw_frame g g'"
  by (auto simp: forward_packet_def Let_def elim!: bind_SomeE split: if_splits dest: sender_fw)

lemma raw_receiver_frame: "raw_receiver api p g = Some (r, g') \<Longrightarrow> fw_frame g g'"
  unfolding raw_receiver_def
  by (auto elim!: bind_SomeE split: if_splits dest!: LOG_fw forward_packet_frame cf.free_pbuf_R)
    (metis fw_frame_trans)+

lemma fw_frame_sdk [simp]: "fw_frame g (g'\<lparr>sdk := s\<rparr>) = fw_frame g g'"
  by (simp add: fw_frame_def comm_frame_def orig_ok_def)

interpretation uproto: proto_frame "\<lambda>g g'. stack_ok api \<longrightarrow> fw_frame g g'" "user_ip_env api" "user_igmp_env api" "call_udp_recv api" for api
  by unfold_locales
    (auto simp: stack_ok_def user_ip_env_def user_igmp_env_def fw_frame_rest fw_frame_more Let_def
      dest: output_frame intro: fw_frame_trans elim!: bind_SomeE split: prod.splits)

interpretation ueth: eth_frame "\<lambda>g g'. stack_ok api \<longrightarrow> fw_frame g g'" "user_arp_env api" "user_env api" for api
proof unfold_locales
  show "stack_ok api \<longrightarrow> fw_frame g g'" if "udp_input_fn (user_env api) p inp g = Some g'" for p inp g g'
    using that uproto.udp_input_R by simp
  show "stack_ok api \<longrightarrow> fw_frame g g'" if "icmp_input_fn (user_env api) p inp g = Some g'" for p inp g g'
    using that uproto.icmp_input_R by simp
  show "stack_ok api \<longrightarrow> fw_frame g g'" if "igmp_input_fn (user_env api) p inp ip g = Some g'" for p inp ip g g'
    using that uproto.igmp_input_R by simp
  show "stack_ok api \<longrightarrow> fw_frame g g'" if "icmp_dest_unreach_fn (user_env api) p g = Some g'" for p g g'
    using that uproto.icmp_dest_unreach_R by simp
qed (auto simp: stack_ok_def user_arp_env_def user_raw_recv_def fw_frame_rest split: if_splits
      dest: linkoutput_frame output_frame raw_receiver_frame intro: fw_frame_trans)

lemma input_mitm_frame:
  assumes "stack_ok api" "netif_input_mitm api p netif g = Some rg"
  shows "fw_frame g (snd rg)"
proof -
  have "stack_ok api' \<longrightarrow> fw_frame g (snd rg)" if "netif_input_mitm api' p netif g = Some rg" for api'
    using that
  proof (induction rule: netif_input_mitm.raw_induct [rotated, consumes 1, case_names mitm])
    case 1: (mitm rec api p netif g rg)
    from 1(2) obtain b :: pbuf and g1 where l: "COMM_DBG (capi api) ''mitm input, size=%d'' [uint (tot_len b)] g = Some g1"
      and k: "(if global_forwarding_mode g1 = FORWARDING_MODE_ETHER then do {
         g \<leftarrow> forward_packet api MSG_ETHER_PACKET (68 + 20) p g1;
         g \<leftarrow> free_pbuf p g;
         Some (ERR_OK, g)
       }
       else if netif_input_orig g1 \<noteq> 0 then
         (if netif_input_orig g1 = NETIF_INPUT_MITM then rec api p netif g1
          else if netif_input_orig g1 = ETHERNET_INPUT then ethernet_input (user_arp_env api) (user_env api) p netif g1
          else on_driver (drv_input api (netif_input_orig g1) p netif) g1)
       else do { g \<leftarrow> COMM_WARN (capi api) ''mitm input zero pointer'' [] g1; Some (ERR_OK, g) }) = Some rg"
      by (elim bind_SomeE) blast
    have "stack_ok api \<longrightarrow> fw_frame g1 (snd rg)"
      using k 1(1) on_driver_keeps [of _ g1 "fst rg" "snd rg"] ueth.ethernet_input_R [of api p netif g1 "fst rg" "snd rg"]
      by (auto split: if_splits elim!: bind_SomeE dest: LOG_fw dest!: forward_packet_frame cf.free_pbuf_R
          intro: fw_frame_trans)
    with LOG_fw [OF l] show ?case using fw_frame_trans by blast
  qed
  with assms show ?thesis by blast
qed

lemma scan_entries_frame: "scan_entries api i ssid bss g = Some g' \<Longrightarrow> fw_frame g g'"
proof (induction bss arbitrary: i ssid g)
  case (Cons b bss)
  then obtain g1 where "comm_send_ctl (capi api) MSG_WIFI_SCAN_ENTRY (scan_entry_bytes (scan_entry_of i ssid b)) g = Some g1"
    "scan_entries api (i + 1) (en_ssid (scan_entry_of i ssid b)) bss g1 = Some g'"
    by (auto simp: Let_def elim!: bind_SomeE)
  then show ?case using fw_frame_trans [OF send_ctl_fw Cons.IH] by metis
qed simp

lemma scan_done_frame: "scan_done api bss ok g = Some g' \<Longrightarrow> fw_frame g g'"
  by (auto simp: scan_done_def split: if_splits list.splits elim!: bind_SomeE dest!: send_ctl_fw scan_entries_frame
      intro: fw_frame_trans)

lemma tmr_entry_more: "tmr_entry i g = Some g' \<Longrightarrow> net_rest g' = net_rest g"
  by (auto simp: tmr_entry_def Let_def elim!: bind_SomeE split: if_splits dest!: net_more)

lemma mfold_more:
  "(\<And>x g g'. f x g = Some g' \<Longrightarrow> net_rest g' = net_rest g) \<Longrightarrow> mfold f xs g = Some g' \<Longrightarrow> net_rest g' = net_rest g"
  by (induction xs arbitrary: g) (auto elim!: bind_SomeE)

text \<open>What may happen in the firmware, in any order: a step of the serial link, a frame arriving on the wireless interface, the
  result of a scan, the timer of the ARP cache, and the SDK or the driver at work on the network state.\<close>

inductive fw_step ::
  "'s user_api \<Rightarrow> ('s, unit user_ext) link \<Rightarrow> ('s, unit user_ext) link \<Rightarrow> bool" for api where
  link: "link_step (capi api) (packet_from_host api) l l' \<Longrightarrow> fw_step api l l'"
| frame: "netif_input_mitm api p netif g = Some (r, g') \<Longrightarrow> fw_step api (c, g) (c, g')"
| scan: "scan_done api bss ok g = Some g' \<Longrightarrow> fw_step api (c, g) (c, g')"
| timer: "etharp_tmr g = Some g' \<Longrightarrow> fw_step api (c, g) (c, g')"
| sdk: "fw_step api (c, g) (c, (put_net n g)\<lparr>sdk := s\<rparr>)"

lemma put_net_frame: "fw_frame (g :: 's user) ((put_net n g)\<lparr>sdk := s\<rparr>)"
  using on_sdk_frame [of "\<lambda>_. (True, n, s)" g] by (simp add: on_sdk_def)

lemma fw_step_frame:
  assumes "stack_ok api" "fw_step api l l'"
  shows "link_step (capi api) (packet_from_host api) l l' \<or> fw_frame (snd l) (snd l')"
  using assms(2)
proof cases
  case frame
  with input_mitm_frame [OF assms(1)] show ?thesis by fastforce
next
  case scan
  with scan_done_frame show ?thesis by fastforce
next
  case (timer g g' c)
  then have "net_rest g' = net_rest g" using mfold_more [OF tmr_entry_more] by (auto simp: etharp_tmr_def)
  with timer show ?thesis by (simp add: fw_frame_rest)
next
  case (sdk c g n s)
  then show ?thesis using put_net_frame [of g n s] by simp
qed simp

lemma fw_step_sched:
  assumes "stack_ok api" "fw_step api l l'" "sched_inv False (snd l)"
  shows "sched_inv False (snd l') \<and> comm_queue_len (snd l') = comm_queue_len (snd l)"
  using fw_step_frame [OF assms(1,2)]
proof
  assume "link_step (capi api) (packet_from_host api) l l'"
  then show ?thesis using main.step_sched [of "capi api" api "fst l" "snd l" "fst l'" "snd l'"] assms(3) by simp
next
  assume f: "fw_frame (snd l) (snd l')"
  show ?thesis
    using sched_frame [OF fw_frame_comm [OF f] assms(3)] fw_frame_comm [OF f] by (simp add: comm_frame_def)
qed

lemma fw_reach_sched:
  assumes "stack_ok api" "(fw_step api)\<^sup>*\<^sup>* l l'" "sched_inv False (snd l)"
  shows "sched_inv False (snd l') \<and> comm_queue_len (snd l') = comm_queue_len (snd l)"
  using assms(2)
proof (induction rule: rtranclp_induct)
  case base
  then show ?case using assms(3) by simp
next
  case (step l1 l2)
  then show ?case using fw_step_sched [OF assms(1)] by simp
qed

lemma init_wlan_frame:
  assumes "init_wlan api g = Some g'"
  shows "fw_frame g g'"
proof -
  have pcb: "fw_frame g g'" if "upd_pcb t f g = Some g'" for t f and g g' :: "'s user"
    using that by (auto simp: upd_pcb_def elim!: bind_SomeE intro: fw_frame_more)
  have new: "fw_frame g g'" if "raw_new alloc proto g = (r, g')" for alloc proto r and g g' :: "'s user"
    using that by (auto simp: raw_new_def split: option.splits intro: fw_frame_more)
  obtain r1 g1 where 1: "on_sdk (wifi_set_phy_mode_11n api) g = (r1, g1)" by force
  obtain r2 g2 where 2: "on_sdk (wifi_set_sleep_type api NONE_SLEEP_T) g1 = (r2, g2)" by force
  obtain t g3 where 3: "raw_new (\<lambda>g. raw_pcb_malloc api (net.truncate g)) 6 g2 = (t, g3)" by force
  obtain u g4 where 4: "raw_new (\<lambda>g. raw_pcb_malloc api (net.truncate g)) 17 (g3\<lparr>raw_pcb_tcp := t\<rparr>) = (u, g4)" by force
  have f: "fw_frame g g1" "fw_frame g1 g2" "fw_frame g2 g3" "fw_frame g3 g4"
    using on_sdk_frame [OF 1] on_sdk_frame [OF 2] new [OF 3] new [OF 4] by simp_all
  have "fw_frame (g4\<lparr>raw_pcb_udp := u\<rparr>) g'"
    using assms unfolding init_wlan_def Let_def
    by (auto simp: 1 2 3 4 raw_bind_def raw_recv_def elim!: bind_SomeE split: option.splits
        dest!: LOG_fw pcb) (metis fw_frame_trans)
  with f show ?thesis using fw_frame_trans by simp blast
qed

lemma user_init_sched:
  assumes "user_init api drained (c, g) = Some l" "os_posts g = []"
  shows "sched_inv False (snd l) \<and> comm_queue_len (snd l) = 3"
proof -
  obtain dev h c1 g1 a1 a2 a3 a4 g2 where
    i: "comm_init (capi api) True drained (c, g\<lparr>uart_dev := dev, periph := h\<rparr>) = Some (c1, g1)"
    and f: "fw_frame g1 a1" "fw_frame a1 a2" "fw_frame a2 a3" "fw_frame a3 a4" "fw_frame a4 g2"
    and w: "init_wlan api g2 = Some (snd l)"
    using assms(1) unfolding user_init_def by (auto elim!: bind_SomeE dest!: sender_fw)
  note f [THEN fw_frame_trans]
  then have f: "fw_frame g1 g2" using f(5) by blast
  have k: "fw_frame g1 (snd l)" using f init_wlan_frame [OF w] by (rule fw_frame_trans)
  have s: "sched_inv False g1 \<and> comm_queue_len g1 = 3" using comm_init_sched [OF i] assms(2) by simp
  then show ?thesis using sched_frame [OF fw_frame_comm [OF k]] fw_frame_comm [OF k] by (simp add: comm_frame_def)
qed

section \<open>Invariants of the application\<close>

text \<open>A property of the application's own variables that its callback keeps holds after every step of the link.\<close>

locale link_invariant =
  fixes cb :: "('s, 'a) comm_callback" and I :: "('s, 'a) comm_scheme \<Rightarrow> bool"
  assumes cb_I: "cb ty d g = Some g' \<Longrightarrow> I g \<Longrightarrow> I g'"
    and I_link [simp]: "I (g\<lparr>sdk := s\<rparr>) = I g" "I (g\<lparr>periph := h\<rparr>) = I g" "I (g\<lparr>os_posts := ps\<rparr>) = I g"
      "I (g\<lparr>transmitter_uart0 := t\<rparr>) = I g" "I (g\<lparr>dec_uart0 := e\<rparr>) = I g"
begin

lemma only_I: "comm_only g g' \<Longrightarrow> I g' = I g"
  by (auto simp: comm_only_def)

lemma dispatch_I: "I g \<Longrightarrow> decoder_check_and_dispatch_cb cb m g = Some g' \<Longrightarrow> I g'"
  by (auto simp: dispatch_eq split: if_splits intro: cb_I)

lemma put_I: "decoder_put_data cb data (c, g) = Some (c', g') \<Longrightarrow> I g \<Longrightarrow> I g'"
  unfolding decoder_put_data_def by (rule cobs_put_invariant [OF dispatch_I])

lemma do_rx_loop_I:
  assumes "do_rx_loop cb l = Some l'" "I (snd l)"
  shows "I (snd l')"
proof -
  have "cb' = cb \<longrightarrow> I (snd l) \<longrightarrow> I (snd l')" if "do_rx_loop cb' l = Some l'" for cb'
    using that
  proof (induction rule: do_rx_loop.raw_induct [rotated, consumes 1, case_names loop])
    case 1: (loop rec cb' l l')
    show ?case
    proof (intro impI)
      assume cb: "cb' = cb" and i: "I (snd l)"
      obtain c g where l: "l = (c, g)" by force
      obtain st h where st: "READ_PERI_REG (UART_STATUS 0) (periph g) = (st, h)" by force
      show "I (snd l')"
      proof (cases "drop_bit UART_RXFIFO_CNT_S st AND UART_RXFIFO_CNT = 0")
        case True
        with 1(2) i l st show ?thesis by (auto simp: Let_def)
      next
        case False
        obtain chunk h1 where ch: "read_rx_fifo (unat (min (drop_bit UART_RXFIFO_CNT_S st AND UART_RXFIFO_CNT) 64)) h = (chunk, h1)"
          by force
        with False 1(2) l st cb obtain l1 where p: "decoder_put_data cb chunk (c, g\<lparr>periph := h1\<rparr>) = Some l1"
          and r: "rec cb l1 = Some l'" by (auto simp: Let_def bind_eq_Some_conv)
        have "I (snd l1)" using put_I [of chunk c "g\<lparr>periph := h1\<rparr>" "fst l1" "snd l1"] p i l by simp
        then show ?thesis using 1(1) [OF r] by simp
      qed
    qed
  qed
  with assms show ?thesis by blast
qed

lemma transmitter_send_I: "transmitter_send api g = Some g' \<Longrightarrow> I g' = I g"
  by (auto simp: transmitter_send_def Let_def bind_eq_Some_conv split: prod.splits if_splits)

lemma intr_I: "I (uart0_rx_intr_handler g) = I g"
  by (simp add: uart0_rx_intr_handler_def transmitter_wake_task_def Let_def split: prod.split)

lemma task_I:
  assumes "comm_task api cb sig (c, g) = Some l" "I g"
  shows "I (snd l)"
proof (cases "sig = DO_RX")
  case True
  with assms obtain l1 where "do_rx_loop cb (c, g) = Some l1" "I (snd l) = I (snd l1)"
    by (auto simp: comm_task_def do_rx_def bind_eq_Some_conv)
  with do_rx_loop_I [of "(c, g)" l1] assms(2) show ?thesis by simp
next
  case False
  then show ?thesis
    using assms by (auto simp: comm_task_def bind_eq_Some_conv transmitter_send_I only_I [OF COMM_LOG_only] split: if_splits)
qed

lemma step_I: "link_step api cb l l' \<Longrightarrow> I (snd l) \<Longrightarrow> I (snd l')"
proof (induction rule: link_step.induct)
  case (send ty d prio g g' c)
  then show ?case using only_I [OF comm_send_only] by simp
next
  case (task g sig ps c l)
  then show ?case using task_I [of api sig c "g\<lparr>os_posts := ps\<rparr>"] by simp
qed (simp_all add: intr_I)

end

interpretation saved: link_invariant "packet_from_host api" orig_ok for api
proof unfold_locales
  show "orig_ok g'" if "packet_from_host api ty d g = Some g'" "orig_ok g" for ty d and g g' :: "'a user"
    using packet_from_host_frame [OF that(1)] that(2) by (simp add: fw_frame_def)
qed (simp_all add: orig_ok_def)

lemma fw_reach_orig:
  assumes "stack_ok api" "(fw_step api)\<^sup>*\<^sup>* l l'" "orig_ok (snd l)"
  shows "orig_ok (snd l')"
  using assms(2)
proof (induction rule: rtranclp_induct)
  case base
  then show ?case by (rule assms(3))
next
  case (step l1 l2)
  then show ?case using fw_step_frame [OF assms(1) step.hyps(2)] saved.step_I [of _ api l1 l2] by (auto simp: fw_frame_def)
qed

lemma user_init_orig:
  assumes "user_init api drained (c, g) = Some l" "orig_ok g"
  shows "orig_ok (snd l)"
proof -
  obtain dev h c1 g1 a1 a2 a3 a4 g2 where
    i: "comm_init (capi api) True drained (c, g\<lparr>uart_dev := dev, periph := h\<rparr>) = Some (c1, g1)"
    and f: "fw_frame g1 a1" "fw_frame a1 a2" "fw_frame a2 a3" "fw_frame a3 a4" "fw_frame a4 g2"
    and w: "init_wlan api g2 = Some (snd l)"
    using assms(1) unfolding user_init_def by (auto elim!: bind_SomeE dest!: sender_fw)
  have "orig_ok g1"
    using i assms(2) by (auto simp: comm_init_def orig_ok_def Let_def elim!: bind_SomeE split: prod.splits)
  with f init_wlan_frame [OF w] show ?thesis by (simp add: fw_frame_def)
qed

section \<open>Senders return\<close>

definition logs_fit :: "'s comm_api \<Rightarrow> bool" where
  "logs_fit api \<longleftrightarrow> (\<forall>fmt args. length (os_sprintf api fmt args) + 2 \<le> PRINT_BUF_SIZE)"

lemma comm_send_returns:
  assumes "malloc_ok api" "length d < 2 ^ 30"
  shows "\<exists>g'. comm_send api ty d prio g = Some g'"
proof (cases "push_precheck (system_get_free_heap_size api (sdk g)) prio (transmitter_uart0 g)")
  case False
  then show ?thesis by (simp add: comm_send_def transmitter_push.simps [of api "comm_msg ty d" prio g])
next
  case True
  obtain mem s where m: "os_malloc api (COBS_ENCODED_MAX_SIZE (length (comm_msg ty d)) + 1) (sdk g) = (mem, s)" by force
  show ?thesis
  proof (cases mem)
    case None
    with True m show ?thesis by (simp add: comm_send_def transmitter_push.simps [of api "comm_msg ty d" prio g])
  next
    case (Some blk)
    then show ?thesis
      using transmitter_push_eq [OF assms(1) comm_msg_simps(2) _ True m [unfolded Some]] assms(2)
      by (auto simp: comm_send_def split: option.splits)
  qed
qed

lemma log_returns:
  assumes "malloc_ok api" "logs_fit api"
  shows "\<exists>g'. COMM_LOG api level fmt args g = Some g'"
proof -
  have n: "length (os_sprintf api fmt args) + 2 \<le> PRINT_BUF_SIZE" using assms(2) by (simp add: logs_fit_def)
  then have "length (level # os_sprintf api fmt args) < 2 ^ 30" by (simp add: PRINT_BUF_SIZE_def)
  from comm_send_returns [OF assms(1) this, of MSG_LOG COMM_TX_PRIO_HIGH g] n show ?thesis
    by (auto simp: COMM_LOG_def log_text_def comm_send_ctl_def)
qed

section \<open>An example system\<close>

text \<open>An SDK with a heap of 40000 bytes in which every call succeeds and no interface exists yet, and the memory at power-up.\<close>

definition demo_uapi :: "nat user_api" where
  "demo_uapi =
     \<lparr>system_get_free_heap_size = (\<lambda>_. 40000), os_malloc = (\<lambda>n s. (Some (replicate n 0xA5), s + 1)), os_free = (\<lambda>_ s. s - 1),
      os_sprintf = (\<lambda>fmt args. take 100 (map of_char fmt)), UART_CLK_FREQ = 80000000,
      sizeof_ssid = 32, sizeof_password = 64, biggest_alignment = 4, system_get_sdk_version = ''2.1.0'', fw_version = ''1.0'',
      system_partition_table_regist = Pair True, wifi_set_phy_mode_11n = Pair True, wifi_set_sleep_type = (\<lambda>_. Pair True),
      wifi_set_opmode = (\<lambda>_. Pair True), wifi_get_opmode = (\<lambda>_. STATION_MODE),
      wifi_station_dhcpc_status = (\<lambda>_. DHCP_STOPPED), wifi_station_dhcpc_start = Pair True, wifi_station_dhcpc_stop = Pair True,
      wifi_softap_dhcps_status = (\<lambda>_. DHCP_STOPPED), wifi_softap_dhcps_start = Pair True, wifi_softap_dhcps_stop = Pair True,
      wifi_softap_set_dhcps_lease = (\<lambda>_ _. Pair True), wifi_softap_set_dhcps_offer_router = (\<lambda>_. Pair True),
      wifi_set_ip_info = (\<lambda>_ _. Pair True), wifi_get_ip_info = (\<lambda>_ _. (True, \<lparr>info_ip = 0, info_netmask = 0, info_gw = 0\<rparr>)),
      wifi_station_set_config_current = (\<lambda>_. Pair True), wifi_station_disconnect = Pair True, wifi_station_connect = Pair True,
      wifi_station_scan = (\<lambda>_. Pair True), wifi_get_macaddr = (\<lambda>_ _. (True, replicate 6 0)),
      wifi_station_get_connect_status = (\<lambda>_. STATION_IDLE), wifi_station_get_rssi = (\<lambda>_. 31),
      wifi_softap_set_config = (\<lambda>_. Pair True), eagle_lwip_getif = (\<lambda>_ _. None), pbuf_malloc = demo_malloc,
      raw_pcb_malloc = (\<lambda>n. Some (length (raw_pcbs n) + 1)), pbuf_odd = (\<lambda>_. False), arp_queue_room = (\<lambda>_. True),
      stack_hdr = replicate 20 0, stack_udp = replicate 8 0, stack_ssid = replicate 32 0,
      drv_input = (\<lambda>_ _ _ d. Some (ERR_OK, d)), drv_output = (\<lambda>_ _ _ _ d. Some (ERR_OK, d)),
      drv_linkoutput = (\<lambda>_ _ _ d. Some (ERR_OK, d)),
      drv_mac_filter = (\<lambda>_ _ _ _. Some), rand_fn = (\<lambda>s. (s, s)), igmp_group_malloc = (\<lambda>n. if igmp_mem n 3 = None then Some 3 else None),
      call_udp_recv = (\<lambda>_ _ _ _ _ _. Some), call_tcp_input = (\<lambda>_ _. Some),
      call_dhcp_arp_reply = (\<lambda>_ _. Some)\<rparr>"

definition demo_user :: "nat user" where
  "demo_user = comm.extend comm_zero (user.fields 1 FORWARDING_MODE_NONE None None 0 0 0)"

lemma demo_uapi_ok: "malloc_ok (capi demo_uapi)" "logs_fit (capi demo_uapi)" "stack_ok demo_uapi"
  by (auto simp: malloc_ok_def logs_fit_def stack_ok_def demo_uapi_def comm_api.defs PRINT_BUF_SIZE_def)


lemma uart_config_ready:
  assumes "baut_rate dev \<noteq> 0"
  shows "\<exists>h'. uart_config clk dev u h = Some h' \<and> rx_fifo (uart_of u h') = [] \<and> tx_cnt (uart_of u h') = 0 \<and>
    (\<forall>v. v \<noteq> u \<longrightarrow> uart_of v h' = uart_of v h)"
proof -
  have bits: "bit (x OR 0x60000) 17" "bit (x OR 0x60000) 18" for x :: u32
    by (simp_all add: bit_or_iff)
  show ?thesis
    using assms
    by (cases u)
      (simp_all add: uart_config_def Let_def uart_reg_ops0 uart_reg_ops1 uart_write_def uart_bit_defs
        UART_STOP_BIT_NUM_S_def UART_BIT_NUM_S_def bits del: upd_uart0 uart_of0)
qed

lemma uart_init_ready:
  "\<exists>dev' h'. uart_init clk 115200 115200 (dev, h) = Some (dev', h') \<and> rx_fifo (uart0 h') = [] \<and> tx_cnt (uart0 h') = 0"
proof -
  obtain h1 where 1: "uart_config clk (dev\<lparr>baut_rate := 115200\<rparr>) UART0 h = Some h1" "rx_fifo (uart_of UART0 h1) = []"
    "tx_cnt (uart_of UART0 h1) = 0"
    using uart_config_ready [of "dev\<lparr>baut_rate := 115200\<rparr>" clk UART0 h] by auto
  obtain h2 where 2: "uart_config clk (dev\<lparr>baut_rate := 115200\<rparr>) UART1 h1 = Some h2" "uart_of UART0 h2 = uart_of UART0 h1"
    using uart_config_ready [of "dev\<lparr>baut_rate := 115200\<rparr>" clk UART1 h1] by auto
  from 1 2 show ?thesis by (simp add: uart_init_def call_def)
qed

lemma comm_init_returns: "\<exists>l. comm_init api cb (n # ds) (c, g) = Some l"
proof -
  obtain dev h where u: "uart_init (UART_CLK_FREQ api) 115200 115200 (uart_dev g, periph g) = Some (dev, h)"
    "rx_fifo (uart0 h) = []" "tx_cnt (uart0 h) = 0"
    using uart_init_ready [of "UART_CLK_FREQ api" "uart_dev g" "periph g"] by blast
  have "tx_fifo_level UART0 (tx_drain UART0 n h) = (0, tx_drain UART0 n h)"
    using tx_fifo_level [of UART0 "tx_drain UART0 n h"] u by (simp add: tx_drain_def uart_ok_def)
  with u show ?thesis by (simp add: comm_init_def decoder_init_def)
qed

lemma demo_wlan: "\<exists>g'. init_wlan demo_uapi g = Some g'"
  by (simp add: init_wlan_def demo_uapi_def on_sdk_def world_def put_net_def raw_new_def raw_bind_def raw_recv_def upd_pcb_def net.defs)

lemma demo_boots: "\<exists>l. user_init demo_uapi [0] (cobs_decoder_zero, demo_user) = Some l"
proof -
  note L = log_returns [OF demo_uapi_ok(1,2)] 
  obtain dev h where 1: "uart_init (UART_CLK_FREQ (capi demo_uapi)) 115200 115200 (uart_dev demo_user, periph demo_user) = Some (dev, h)"
    using uart_init_ready by blast
  obtain c g0 where 2: "comm_init (capi demo_uapi) True [0] (cobs_decoder_zero, demo_user\<lparr>uart_dev := dev, periph := h\<rparr>) = Some (c, g0)"
    using comm_init_returns by (metis surj_pair)
  obtain g1 where 3: "comm_send_ctl (capi demo_uapi) MSG_BOOT [] g0 = Some g1"
    using comm_send_returns [OF demo_uapi_ok(1), of "[]" MSG_BOOT COMM_TX_PRIO_HIGH g0] by (auto simp: comm_send_ctl_def)
  obtain g2 where 4: "COMM_INFO (capi demo_uapi) ''SDK version: %s'' (str_args (system_get_sdk_version demo_uapi)) g1 = Some g2"
    using L by blast
  obtain g3 where 5: "COMM_INFO (capi demo_uapi) ''FW version: %s'' (str_args (fw_version demo_uapi)) g2 = Some g3"
    using L by blast
  obtain g4 where 6: "COMM_INFO (capi demo_uapi) ''Heap size: %d'' [uint (system_get_free_heap_size (capi demo_uapi) (sdk g3))] g3 = Some g4"
    using L by blast
  obtain g5 where 7: "COMM_INFO (capi demo_uapi) ''Alignment: %d'' [biggest_alignment demo_uapi] g4 = Some g5"
    using L by blast
  obtain g6 where 8: "init_wlan demo_uapi g5 = Some g6" using demo_wlan by blast
  show ?thesis unfolding user_init_def by (simp add: 1 2 3 4 5 6 7 8)
qed

section \<open>Interception returns\<close>

lemma linkoutput_mitm_total:
  assumes "malloc_ok (capi api)" "logs_fit (capi api)" "\<forall>f d. drv_linkoutput api f netif p d \<noteq> None" "pbufs g p \<noteq> None" "orig_ok g"
  shows "\<exists>r g'. netif_linkoutput_mitm api netif p g = Some (r, g')"
proof -
  obtain b where b: "pbufs g p = Some b" using assms(4) by blast
  obtain g1 where g1: "COMM_DBG (capi api) ''mitm linkoutput, size=%d'' [uint (tot_len b)] g = Some g1"
    using log_returns [OF assms(1,2)] by blast
  have o: "netif_linkoutput_orig g1 \<noteq> NETIF_LINKOUTPUT_MITM"
    using LOG_fw [OF g1] assms(5) by (simp add: fw_frame_def orig_ok_def)
  obtain g2 where g2: "COMM_WARN (capi api) ''mitm linkoutput zero pointer'' [] g1 = Some g2"
    using log_returns [OF assms(1,2)] by blast
  obtain r d where d: "drv_linkoutput api (netif_linkoutput_orig g1) netif p (pbufs g1, sdk g1) = Some (r, d)"
    using assms(3) by (metis not_None_eq surj_pair)
  show ?thesis
    by (subst netif_linkoutput_mitm.simps) (simp add: b g1 g2 o d on_driver_def split: prod.split)
qed

section \<open>Properties\<close>



text \<open>C40: The interception of \<open>netif->linkoutput\<close> always returns, in every reachable state: the pointer that \<open>mitm_interface\<close> saved is never
  the intercepting function itself, however often the interface is intercepted, so that a call does not come back to
  it.  The driver's function is assumed to return, log texts to fit their buffer.\<close>

theorem linkoutput_mitm_returns:
  assumes "stack_ok api" "user_init api drained (c, g) = Some l" "(fw_step api)\<^sup>*\<^sup>* l l'"
    and "netif_input_orig g = 0" "netif_output_orig g = 0" "netif_linkoutput_orig g = 0"
    and "malloc_ok (capi api)" "logs_fit (capi api)" "\<forall>f d. drv_linkoutput api f netif p d \<noteq> None" "pbufs (snd l') p \<noteq> None"
  shows "\<exists>r g'. netif_linkoutput_mitm api netif p (snd l') = Some (r, g')"
proof -
  have "orig_ok g" using assms(4-6) by (simp add: orig_ok_def NETIF_INPUT_MITM_def NETIF_OUTPUT_MITM_def NETIF_LINKOUTPUT_MITM_def)
  then have "orig_ok (snd l')" using user_init_orig [OF assms(2)] fw_reach_orig [OF assms(1,3)] by blast
  then show ?thesis by (rule linkoutput_mitm_total [OF assms(7-10)])
qed

theorem linkoutput_mitm_returns_witness:
  "\<exists>l s. user_init demo_uapi [0] (cobs_decoder_zero, demo_user) = Some l \<and>
     (\<exists>r g'. netif_linkoutput_mitm demo_uapi 5 7 ((put_net demo_net (snd l))\<lparr>sdk := s\<rparr>) = Some (r, g'))"
proof -
  obtain l where l: "user_init demo_uapi [0] (cobs_decoder_zero, demo_user) = Some l" using demo_boots by blast
  let ?l = "(fst l, (put_net demo_net (snd l))\<lparr>sdk := 0\<rparr>)"
  have "fw_step demo_uapi l ?l" by (cases l) (auto intro: fw_step.sdk)
  then have r: "(fw_step demo_uapi)\<^sup>*\<^sup>* l ?l" by (rule r_into_rtranclp)
  have o: "netif_input_orig demo_user = 0" "netif_output_orig demo_user = 0" "netif_linkoutput_orig demo_user = 0"
    by (simp_all add: demo_user_def comm.defs user.defs comm_zero_def)
  have d: "\<forall>f d. drv_linkoutput demo_uapi f 5 7 d \<noteq> None" by (simp add: demo_uapi_def)
  have p: "pbufs (snd ?l) 7 \<noteq> None" by (simp add: put_net_def net.defs demo_net_def)
  have "\<exists>r g'. netif_linkoutput_mitm demo_uapi 5 7 (snd ?l) = Some (r, g')"
    by (rule linkoutput_mitm_returns [OF demo_uapi_ok(3) l r o demo_uapi_ok(1,2) d p])
  then show ?thesis using l by (intro exI [of _ l] exI [of _ 0]) simp
qed

end
