(* ===== verification/Forward.thy ===== *)
theory Forward
  imports User_Spec
begin

text \<open>
  Forwarding between the network and the host, end to end: \<open>raw_receiver\<close> and \<open>inject_ip_packet\<close> of \<open>user_main.c\<close> over the
  packet buffers, the IP layer and the serial link.
\<close>

section \<open>From the network to the host\<close>

text \<open>The packets that the host gets: the DHCP client and server of the device keep theirs.  \<open>host_bound\<close> is for packets
  whose transport header is complete.\<close>

definition host_bound :: "bytes \<Rightarrow> bool" where
  "host_bound d \<longleftrightarrow> (let h = ip_hdr_of d; off = unat (4 * IPH_HL (v_hl_tos h))
     in iph_proto h = IP_PROTO_UDP \<longrightarrow>
          \<not> dhcp_port (le16 (d ! off) (d ! (off + 1))) \<and> \<not> dhcp_port (le16 (d ! (off + 2)) (d ! (off + 3))))"

definition forwarded :: "bytes \<Rightarrow> 's user \<Rightarrow> bool" where
  "forwarded d g \<longleftrightarrow> global_forwarding_mode g = FORWARDING_MODE_IP \<and>
     (forward_ip_broadcasts g \<noteq> 0 \<or> iph_dest (ip_hdr_of d) \<noteq> 0xffffffff) \<and> host_bound d"

definition udp_complete :: "bytes \<Rightarrow> bool" where
  "udp_complete d \<longleftrightarrow> (let h = ip_hdr_of d
     in iph_proto h = IP_PROTO_UDP \<longrightarrow> unat (4 * IPH_HL (v_hl_tos h)) + 8 \<le> length d)"

lemma log_quiet: "level < comm_loglevel g \<Longrightarrow> COMM_LOG api level fmt args g = Some g"
  by (auto simp: COMM_LOG_def dest: leD)

lemma free_single:
  assumes "packet (pbufs g) (Some p) [p]" "pb_ref (the (pbufs g p)) = 1"
  shows "free_pbuf p g = Some (g\<lparr>pbufs := (pbufs g)(p := None)\<rparr>)"
proof -
  have c: "chain (pbufs g) (Some p) [p]" using assms(1) by (simp add: packet_def)
  have "(\<lambda>x. if x \<in> set [p] then None else pbufs g x) = (pbufs g)(p := None)" by auto
  then show ?thesis using pbuf_free_sole [OF c] assms(2) by (simp add: free_pbuf_def on_pbufs_def)
qed

lemma forward_packet_spec:
  assumes "malloc_ok (capi api)" "packet (pbufs g) (Some p) [p]" "pb_ref (the (pbufs g p)) = 1"
    and "length (chain_data (pbufs g) [p]) \<le> 1600" "small < 1600"
  defines "d \<equiv> chain_data (pbufs g) [p]"
  shows "\<exists>g1. comm_send (capi api) type d (if length d < unat small then COMM_TX_PRIO_MEDIUM else COMM_TX_PRIO_LOW) g = Some g1 \<and>
    forward_packet api type small p g = Some g1 \<and> free_pbuf p g1 = Some (g1\<lparr>pbufs := (pbufs g)(p := None)\<rparr>)"
proof -
  obtain b where b: "pbufs g p = Some b" "pb_ok b" "pb_next b = None" using assms(2) by (auto simp: packet_Cons)
  have d: "d = pb_bytes b" using b(1) by (simp add: d_def)
  have l: "length d = unat (pb_len b)" using b(2) by (simp add: d)
  have r: "pb_read b 0 (unat (pb_len b)) = Some d" using pb_read_ok [OF b(2), of 0 "unat (pb_len b)"] b(2) by (simp add: d)
  let ?prio = "if length d < unat small then COMM_TX_PRIO_MEDIUM else COMM_TX_PRIO_LOW"
  have "length d < 2 ^ 30" using assms(4) by (simp add: d_def)
  then obtain g1 where g1: "comm_send (capi api) type d ?prio g = Some g1" using comm_send_returns [OF assms(1)] by blast
  have "\<not> pb_len b > MAX_PACKET_SIZE" using assms(4) l by (simp add: d_def MAX_PACKET_SIZE_def word_less_nat_alt)
  moreover have "(pb_len b < small) = (length d < unat small)" using l by (simp add: word_less_nat_alt)
  ultimately have "forward_packet api type small p g = Some g1"
    using b r g1 by (simp add: forward_packet_def)
  moreover have "pbufs g1 = pbufs g" using comm_only_net(1) [OF comm_send_only [OF g1]] .
  then have "free_pbuf p g1 = Some (g1\<lparr>pbufs := (pbufs g)(p := None)\<rparr>)"
    using free_single [of g1 p] assms(2,3) by simp
  ultimately show ?thesis using g1 by blast
qed

lemma raw_receiver_spec:
  assumes "malloc_ok (capi api)" "10 < comm_loglevel g" "length (stack_hdr api) = 20" "length (stack_udp api) = 8"
    and "packet (pbufs g) (Some p) [p]" "pb_ref (the (pbufs g p)) = 1"
  defines "d \<equiv> chain_data (pbufs g) [p]"
  assumes "20 \<le> length d" "length d \<le> 1600" "udp_complete d"
  shows "if forwarded d g
    then \<exists>g1. comm_send (capi api) MSG_IP_PACKET d (if length d < 68 then COMM_TX_PRIO_MEDIUM else COMM_TX_PRIO_LOW) g = Some g1 \<and>
      raw_receiver api p g = Some (1, g1\<lparr>pbufs := (pbufs g)(p := None)\<rparr>)
    else raw_receiver api p g = Some (0, g)"
proof -
  obtain b where b: "pbufs g p = Some b" using assms(5) by (auto simp: packet_Cons)
  note q = log_quiet [OF assms(2)]
  have hdr: "pbuf_copy_partial (Some p) (stack_hdr api) 20 0 (pbufs g) = Some (20, take 20 d)"
    using pbuf_copy_partial_spec [OF assms(5), of 20 "stack_hdr api" 0] assms(3,8) by (simp add: d_def del: chain_data_simps)
  have h: "ip_hdr_of (take 20 d) = ip_hdr_of d" by (simp add: ip_hdr_of_def)
  let ?off = "4 * IPH_HL (v_hl_tos (ip_hdr_of d))"
  have udp: "\<exists>n. n \<noteq> 0 \<and> pbuf_copy_partial (Some p) (stack_udp api) 8 ?off (pbufs g) = Some (n, take 8 (drop (unat ?off) d))"
    if "iph_proto (ip_hdr_of d) = IP_PROTO_UDP"
    using pbuf_copy_partial_spec [OF assms(5), of 8 "stack_udp api" ?off] assms(4,10) that
    by (intro exI [of _ 8]) (simp add: d_def udp_complete_def del: chain_data_simps)
  obtain g1 where f: "comm_send (capi api) MSG_IP_PACKET d (if length d < 68 then COMM_TX_PRIO_MEDIUM else COMM_TX_PRIO_LOW) g = Some g1"
    "forward_packet api MSG_IP_PACKET 68 p g = Some g1" "free_pbuf p g1 = Some (g1\<lparr>pbufs := (pbufs g)(p := None)\<rparr>)"
    using forward_packet_spec [OF assms(1,5,6), of 68 MSG_IP_PACKET] assms(9) unfolding d_def by auto
  show ?thesis
  proof (cases "iph_proto (ip_hdr_of d) = IP_PROTO_UDP")
    case True
    then have "unat ?off + 8 \<le> length d" using assms(10) by (simp add: udp_complete_def)
    moreover obtain n where "n \<noteq> 0" "pbuf_copy_partial (Some p) (stack_udp api) 8 ?off (pbufs g) = Some (n, take 8 (drop (unat ?off) d))"
      using udp True by blast
    ultimately show ?thesis
      using True b q hdr h f
      by (auto simp: raw_receiver_def forwarded_def host_bound_def Let_def add.commute)
  next
    case False
    then show ?thesis
      using b q hdr h f by (auto simp: raw_receiver_def forwarded_def host_bound_def Let_def)
  qed
qed

text \<open>The socket of a protocol as \<open>init_wlan\<close> sets it up, among sockets of other protocols.\<close>

definition raw_listener :: "u8 \<Rightarrow> nat \<Rightarrow> 's user \<Rightarrow> bool" where
  "raw_listener proto t g \<longleftrightarrow> distinct (raw_pcbs g) \<and> t \<in> set (raw_pcbs g) \<and>
     list_all (\<lambda>a. case raw_mem g a of None \<Rightarrow> False | Some b \<Rightarrow>
       if a = t then protocol b = proto \<and> ip_addr_isany (local_ip b) \<and> recv b = RAW_RECEIVER else protocol b \<noteq> proto) (raw_pcbs g)"

lemma raw_offer_skip:
  "list_all (\<lambda>a. case raw_mem g a of None \<Rightarrow> False | Some b \<Rightarrow> protocol b \<noteq> proto) xs \<Longrightarrow>
   raw_offer env proto (xs @ ys) p g = raw_offer env proto ys p g"
  by (induction xs) (auto simp: raw_match_def split: option.splits)

lemma raw_listener_offer:
  assumes "raw_listener proto t g" "raw_receiver api p g = Some (1, g')"
  shows "raw_offer (user_env api) proto (raw_pcbs g) p g = Some (Some t, g')"
proof -
  obtain xs ys where xs: "raw_pcbs g = xs @ t # ys" "t \<notin> set xs"
    using assms(1) by (metis raw_listener_def split_list_first)
  obtain b where b: "raw_mem g t = Some b" "protocol b = proto" "ip_addr_isany (local_ip b)" "recv b = RAW_RECEIVER"
    using assms(1) xs by (auto simp: raw_listener_def split: option.splits)
  have "list_all (\<lambda>a. case raw_mem g a of None \<Rightarrow> False | Some b \<Rightarrow> protocol b \<noteq> proto) xs"
    using assms(1) xs by (auto simp: raw_listener_def list_all_iff split: option.splits if_splits)
  then have "raw_offer (user_env api) proto (raw_pcbs g) p g = raw_offer (user_env api) proto (t # ys) p g"
    unfolding xs(1) by (rule raw_offer_skip)
  also have "\<dots> = Some (Some t, g')"
    using b assms(2) by (simp add: raw_match_def user_raw_recv_def RAW_RECEIVER_def)
  finally show ?thesis .
qed

lemma deliver_to_listener:
  assumes "raw_listener proto t g" "raw_receiver api p g = Some (1, g')"
    and "pbufs g p = Some b" "hdr8 b 9 = Some proto"
  shows "deliver (user_env api) p inp hdr g = Some (g'\<lparr>raw_pcbs := t # remove1 t (raw_pcbs g)\<rparr>)"
proof -
  have d: "distinct (raw_pcbs g)" using assms(1) by (simp add: raw_listener_def)
  have "raw_pcbs g' = raw_pcbs g" using raw_receiver_keeps [OF assms(2)] by simp
  then have "raw_input (user_env api) p g = Some (1, g'\<lparr>raw_pcbs := t # remove1 t (raw_pcbs g)\<rparr>)"
    using uraw.raw_input_spec [OF d assms(3,4)] raw_listener_offer [OF assms(1,2)] by (simp add: raw_result_def)
  then show ?thesis by (simp add: deliver_def)
qed


section \<open>An example packet\<close>

text \<open>A TCP packet of two bytes of payload that arrives at the station in IP forwarding mode.\<close>

definition demo_hdr :: ip_hdr where
  "demo_hdr = sent_hdr 0 22 0 255 IP_PROTO_TCP (IP4_ADDR 192 168 4 9) (IP4_ADDR 192 168 4 1)"

definition demo_pcb :: "u8 \<Rightarrow> raw_pcb" where
  "demo_pcb proto = \<lparr>local_ip = 0, remote_ip = 0, so_options = 0, pcb_tos = 0, pcb_ttl = RAW_TTL, protocol = proto,
     recv = RAW_RECEIVER, recv_arg = 0\<rparr>"

definition demo_fwd :: "nat user" where
  "demo_fwd = demo_user\<lparr>pbufs := [7 \<mapsto> \<lparr>pb_next = None, pb_payload = Some 0, tot_len = 22, pb_len = 22, pb_type = PBUF_POOL,
       pb_flags = 0, pb_ref = 1, pb_mem = ip_hdr_bytes demo_hdr @ [97, 98]\<rparr>],
     netif_mem := [5 \<mapsto> demo_netif], netif_list := [5], netif_default := Some 5,
     raw_mem := [1 \<mapsto> demo_pcb IP_PROTO_UDP, 2 \<mapsto> demo_pcb IP_PROTO_TCP], raw_pcbs := [1, 2],
     comm_loglevel := 20, global_forwarding_mode := FORWARDING_MODE_IP, raw_pcb_tcp := Some 2, raw_pcb_udp := Some 1\<rparr>"

lemma demo_fwd_net [simp]:
  "pbufs demo_fwd = [7 \<mapsto> \<lparr>pb_next = None, pb_payload = Some 0, tot_len = 22, pb_len = 22, pb_type = PBUF_POOL,
       pb_flags = 0, pb_ref = 1, pb_mem = ip_hdr_bytes demo_hdr @ [97, 98]\<rparr>]"
  "netif_mem demo_fwd = [5 \<mapsto> demo_netif]" "netif_list demo_fwd = [5]" "netif_default demo_fwd = Some 5"
  "raw_mem demo_fwd = [1 \<mapsto> demo_pcb IP_PROTO_UDP, 2 \<mapsto> demo_pcb IP_PROTO_TCP]" "raw_pcbs demo_fwd = [1, 2]"
  "comm_loglevel demo_fwd = 20" "global_forwarding_mode demo_fwd = FORWARDING_MODE_IP" "forward_ip_broadcasts demo_fwd = 1"
  "raw_pcb_tcp demo_fwd = Some 2" "raw_pcb_udp demo_fwd = Some 1"
  by (simp_all add: demo_fwd_def demo_user_def comm.defs user.defs comm_zero_def)

lemma demo_fwd_packet:
  "packet (pbufs demo_fwd) (Some 7) [7]" "chain_data (pbufs demo_fwd) [7] = ip_hdr_bytes demo_hdr @ [97, 98]"
  by (simp_all add: packet_Cons pb_ok_def pb_bytes_def)

lemma demo_not_udp: "iph_proto (ip_hdr_of (ip_hdr_bytes demo_hdr @ d)) = IP_PROTO_TCP" "IP_PROTO_TCP \<noteq> IP_PROTO_UDP"
  by (simp_all add: ip_hdr_of_bytes demo_hdr_def IP_PROTO_TCP_def IP_PROTO_UDP_def)

lemma demo_listener: "raw_listener IP_PROTO_TCP 2 demo_fwd"
  by (simp add: raw_listener_def demo_pcb_def IP_PROTO_TCP_def IP_PROTO_UDP_def ip_addr_isany_def IPADDR_ANY_def)

lemma demo_addr:
  "netif_is_up demo_netif" "\<not> ip_addr_isany (ni_ip_addr demo_netif)" "ni_ip_addr demo_netif = IP4_ADDR 192 168 4 1"
  "\<not> ip_addr_ismulticast (IP4_ADDR 192 168 4 1)" "src_ok (IP4_ADDR 192 168 4 9) demo_netif"
  by code_simp+


section \<open>From the host to the network\<close>

text \<open>A packet allocated for the IP layer has room for the IP header.\<close>

lemma pbuf_alloc_ip_room:
  assumes "malloc_fresh mal" "pbuf_alloc mal PBUF_IP n PBUF_RAM h = Some (Some p, h')"
  obtains b pos where "h' = h(p \<mapsto> b)" "packet h' (Some p) [p]" "pb_payload b = Some pos" "20 \<le> pos" "pb_type b = PBUF_RAM"
    "tot_len b = n" "pb_len b = n" "pb_ref b = 1" "pb_next b = None"
proof -
  have "packet h' (Some p) [p]" using pbuf_alloc_ram [OF assms(1), of PBUF_IP n h] assms(2) by auto
  moreover have "20 \<le> int (LWIP_MEM_ALIGN_SIZE (SIZEOF_STRUCT_PBUF + layer_offset PBUF_IP)) - int SIZEOF_STRUCT_PBUF"
    using align_size(1) [of "SIZEOF_STRUCT_PBUF + layer_offset PBUF_IP"]
    by (simp add: layer_offset_def PBUF_IP_HLEN_def PBUF_LINK_HLEN_def)
  ultimately show ?thesis
    using that assms(2) by (auto simp: pbuf_alloc_def Let_def split: option.splits prod.splits)
qed

text \<open>The test for header room at the start of \<open>raw_sendto\<close> leaves the packet as it was.\<close>

lemma header_probe:
  assumes "h p = Some b" "pb_type b = PBUF_RAM" "pb_payload b = Some pos" "20 \<le> pos" "unat (pb_len b) + 20 < 65536"
  shows "\<exists>h1. pbuf_header (Some p) 20 h = Some (0, h1) \<and> pbuf_header (Some p) (- 20) h1 = Some (0, h)"
proof -
  let ?b = "b\<lparr>pb_payload := Some (pos - 20), pb_len := pb_len b + 20, tot_len := tot_len b + 20\<rparr>"
  have u: "\<not> unat (pb_len b + 20) < 20" using unat_add_lt [of "pb_len b" 20] assms(5) by simp
  have e: "h(p \<mapsto> b) = h" "b\<lparr>pb_payload := Some pos\<rparr> = b" using assms(1,3) by auto
  have "pbuf_header (Some p) 20 h = Some (0, h(p \<mapsto> ?b))" using assms(1-4) by (simp add: pbuf_header_def Let_def)
  moreover have "pbuf_header (Some p) (- 20) (h(p \<mapsto> ?b)) = Some (0, h)"
    using assms(2-4) u by (simp add: pbuf_header_def Let_def e)
  ultimately show ?thesis by blast
qed

text \<open>\<open>raw_sendto\<close> on such a packet is \<open>ip_output_if\<close> from the address of the interface on the route.\<close>

lemma raw_sendto_spec:
  assumes "pbufs g p = Some b" "pb_type b = PBUF_RAM" "pb_payload b = Some pos" "20 \<le> pos" "unat (pb_len b) + 20 < 65536"
    and "ip_route dest g = Some (Some netif)" "netif_mem g netif = Some ni" "raw_mem g pcb = Some r" "ip_addr_isany (local_ip r)"
  shows "raw_sendto env pcb p dest g =
    ip_output_if env p (Some (ni_ip_addr ni)) (Some dest) (pcb_ttl r) (pcb_tos r) (protocol r) netif g"
proof -
  obtain h1 where h1: "pbuf_header (Some p) 20 (pbufs g) = Some (0, h1)" "pbuf_header (Some p) (- 20) h1 = Some (0, pbufs g)"
    using header_probe [of "pbufs g" p b pos] assms(1-5) by blast
  show ?thesis
    using h1 assms(6-9) by (simp add: raw_sendto_def on_pbufs_def IP_HLEN_def split: Option.bind_splits)
qed

lemma inject_ip_spec:
  assumes "malloc_fresh (pbuf_malloc api)" "20 \<le> length data" "length data < 65516"
    and "iph_proto (ip_hdr_of data) = IP_PROTO_TCP \<or> iph_proto (ip_hdr_of data) = IP_PROTO_UDP"
  defines "hl \<equiv> 4 * unat (IPH_HL (v_hl_tos (ip_hdr_of data)))"
  assumes "hl \<le> length data"
    and "pbuf_alloc (pbuf_malloc api) PBUF_IP (of_nat (length data - hl)) PBUF_RAM (pbufs g) = Some (Some p, h)"
  shows "\<exists>b pos. pb_type b = PBUF_RAM \<and> pb_payload b = Some pos \<and> 20 \<le> pos \<and> unat (pb_len b) = length data - hl \<and> pb_ref b = 1 \<and>
    packet ((pbufs g)(p \<mapsto> b)) (Some p) [p] \<and> chain_data ((pbufs g)(p \<mapsto> b)) [p] = drop hl data \<and>
    inject_ip_packet api data g = do {
      (_, g) \<leftarrow> raw_sendto (user_env api)
        (case if iph_proto (ip_hdr_of data) = IP_PROTO_TCP then raw_pcb_tcp g else raw_pcb_udp g of None \<Rightarrow> 0 | Some a \<Rightarrow> a) p
        (iph_dest (ip_hdr_of data)) (g\<lparr>pbufs := (pbufs g)(p \<mapsto> b)\<rparr>);
      free_pbuf p g }"
proof -
  let ?n = "length data - hl"
  have n: "unat (of_nat ?n :: u16) = ?n" using assms(3) by (simp add: unat_of_nat take_bit_eq_mod)
  obtain b0 pos where b0: "h = (pbufs g)(p \<mapsto> b0)" "packet h (Some p) [p]" "pb_payload b0 = Some pos" "20 \<le> pos"
    "pb_type b0 = PBUF_RAM" "tot_len b0 = of_nat ?n" "pb_len b0 = of_nat ?n" "pb_ref b0 = 1"
    using pbuf_alloc_ip_room [OF assms(1,7)] by metis
  have ok: "pb_ok b0" using b0(1,2) by (auto simp: packet_Cons)
  then have l: "length (pb_bytes b0) = ?n" using b0(7) n by simp
  then have "length (drop hl data) \<le> length (pb_bytes b0)" by simp
  from packet_write [OF b0(2) _ this] b0(1) obtain b where b: "pb_write b0 0 (drop hl data) = Some b"
    "packet (h(p \<mapsto> b)) (Some p) [p]" "chain_data (h(p \<mapsto> b)) [p] = drop hl data @ drop ?n (chain_data h [p])"
    "b\<lparr>pb_mem := pb_mem b0\<rparr> = b0"
    by auto
  have eq: "pb_type b = pb_type b0" "pb_payload b = pb_payload b0" "pb_len b = pb_len b0" "tot_len b = tot_len b0" "pb_ref b = pb_ref b0"
    using arg_cong [OF b(4), of pb_type] arg_cong [OF b(4), of pb_payload] arg_cong [OF b(4), of pb_len]
      arg_cong [OF b(4), of tot_len] arg_cong [OF b(4), of pb_ref] by simp_all
  have same: "b\<lparr>tot_len := of_nat ?n, pb_len := of_nat ?n\<rparr> = b" using eq b0(6,7) by simp
  have "drop ?n (chain_data h [p]) = []" using l b0(1) by simp
  moreover have "(4 * unat (IPH_HL (v_hl_tos (ip_hdr_of data))) > length data) = False" using assms(6) by (simp add: hl_def)
  ultimately show ?thesis
    using b eq b0(1-5,8) n assms(2,4,7)
    by (intro exI [of _ b] exI [of _ pos])
      (auto simp: inject_ip_packet_def on_pbufs_def b0(6,7) same Let_def IP_PROTO_TCP_def IP_PROTO_UDP_def
        simp flip: hl_def simp del: chain_data_simps of_nat_diff)
qed

text \<open>C3: A TCP or UDP packet from the host that \<open>inject_ip_packet\<close> accepts and has memory for goes to the output function of the interface on
  the route to the destination address of the host's header: in a fresh buffer, with the payload behind the host's
  header unchanged, and in front of it a new header with a verifying checksum, the protocol of the socket, the
  host's destination, the address of the interface as source and the lengths of what is sent.  The buffer is
  released afterwards and no other one is touched.\<close>

theorem host_to_network:
  assumes "malloc_fresh (pbuf_malloc api)" "20 \<le> length data" "length data < 65516"
    and "iph_proto (ip_hdr_of data) = IP_PROTO_TCP \<or> iph_proto (ip_hdr_of data) = IP_PROTO_UDP"
  defines "hl \<equiv> 4 * unat (IPH_HL (v_hl_tos (ip_hdr_of data)))" and "to \<equiv> iph_dest (ip_hdr_of data)"
  assumes "hl \<le> length data"
    and "pbuf_alloc (pbuf_malloc api) PBUF_IP (of_nat (length data - hl)) PBUF_RAM (pbufs g) = Some (Some p, h)"
    and "(if iph_proto (ip_hdr_of data) = IP_PROTO_TCP then raw_pcb_tcp g else raw_pcb_udp g) = Some pcb"
      "raw_mem g pcb = Some r" "ip_addr_isany (local_ip r)"
    and "ip_route to g = Some (Some netif)" "netif_mem g netif = Some ni"
  shows "\<exists>h' hdr. inject_ip_packet api data g = do {
        (_, g) \<leftarrow> user_output api (ni_output ni) netif p to (g\<lparr>pbufs := h', ip_id := ip_id g + 1\<rparr>);
        free_pbuf p g } \<and>
      packet h' (Some p) [p] \<and> chain_data h' [p] = ip_hdr_bytes hdr @ drop hl data \<and> pb_ref (the (h' p)) = 1 \<and>
      (\<forall>x. x \<noteq> p \<longrightarrow> h' x = pbufs g x) \<and> (\<forall>mis. inet_chksum mis (ip_hdr_bytes hdr) = 0) \<and>
      unat (ntohs (iph_len hdr)) = length data - hl + 20 \<and> iph_proto hdr = protocol r \<and> iph_ttl hdr = pcb_ttl r \<and>
      iph_dest hdr = to \<and> iph_src hdr = ni_ip_addr ni"
proof -
  let ?n = "length data - hl + 20"
  obtain b pos where b: "pb_type b = PBUF_RAM" "pb_payload b = Some pos" "20 \<le> pos" "unat (pb_len b) = length data - hl"
    "pb_ref b = 1" "packet ((pbufs g)(p \<mapsto> b)) (Some p) [p]" "chain_data ((pbufs g)(p \<mapsto> b)) [p] = drop hl data"
    "inject_ip_packet api data g = do {
      (_, g) \<leftarrow> raw_sendto (user_env api) pcb p to (g\<lparr>pbufs := (pbufs g)(p \<mapsto> b)\<rparr>);
      free_pbuf p g }"
    using inject_ip_spec [OF assms(1-4) assms(7,8) [unfolded hl_def]] unfolding hl_def [symmetric] to_def assms(9) option.case by blast
  let ?g = "g\<lparr>pbufs := (pbufs g)(p \<mapsto> b)\<rparr>"
  define hdr where "hdr = sent_hdr (pcb_tos r) (of_nat ?n) (ip_id g) (pcb_ttl r) (protocol r) (ni_ip_addr ni) to"
  have n: "unat (of_nat ?n :: u16) = ?n" using assms(3) by (simp only: unat_of_nat) (simp add: take_bit_eq_mod)
  have short: "length data - hl < 65516" using assms(3) by simp
  have l: "unat (pb_len b) + 20 < 65536" using b(4) assms(3) by simp
  have send: "raw_sendto (user_env api) pcb p to ?g =
      ip_output_if (user_env api) p (Some (ni_ip_addr ni)) (Some to) (pcb_ttl r) (pcb_tos r) (protocol r) netif ?g"
    by (rule raw_sendto_spec) (use b(1-3) l assms(10-13) in \<open>simp_all add: ip_route_frame\<close>)
  have src: "(if Some a = None \<or> ip_addr_isany (the (Some a)) then a else the (Some a)) = a" for a :: u32 by simp
  obtain h' where h': "ip_output_if (user_env api) p (Some (ni_ip_addr ni)) (Some to) (pcb_ttl r) (pcb_tos r) (protocol r) netif ?g =
      user_output api (ni_output ni) netif p to (g\<lparr>pbufs := h', ip_id := ip_id g + 1\<rparr>)" "packet h' (Some p) [p]"
    "chain_data h' [p] = ip_hdr_bytes hdr @ drop hl data" "\<forall>x. x \<noteq> p \<longrightarrow> h' x = pbufs g x" "pb_ref (the (h' p)) = 1"
    using ip_output_if_spec [of ?g p "[]" b pos netif ni "user_env api" "Some (ni_ip_addr ni)" to "pcb_ttl r" "pcb_tos r" "protocol r"]
      b(1-7) assms(13) short
    unfolding hdr_def src by (auto simp del: chain_data_simps)
  have f: "unat (ntohs (iph_len hdr)) = ?n" "\<forall>mis. inet_chksum mis (ip_hdr_bytes hdr) = 0" "iph_proto hdr = protocol r"
    "iph_ttl hdr = pcb_ttl r" "iph_dest hdr = to" "iph_src hdr = ni_ip_addr ni"
    unfolding hdr_def by (simp_all only: sent_hdr_fields htons_htons n sent_hdr_chksum) simp_all
  show ?thesis
    unfolding b(8) send h'(1)
    by (intro exI [of _ h'] exI [of _ hdr] conjI) (rule refl, fact h'(2), fact h'(3), fact h'(5), fact h'(4), (fact f)+)
qed

definition demo_out :: bytes where
  "demo_out = ip_hdr_bytes (sent_hdr 0 22 9 64 IP_PROTO_UDP 0 (IP4_ADDR 192 168 4 2)) @ [97, 98]"

lemma demo_out_hdr:
  "ip_hdr_of demo_out = sent_hdr 0 22 9 64 IP_PROTO_UDP 0 (IP4_ADDR 192 168 4 2)" "length demo_out = 22"
  "drop 20 demo_out = [97, 98]"
  by (simp_all add: demo_out_def ip_hdr_of_bytes)

theorem host_to_network_witness:
  "\<exists>h' hdr. inject_ip_packet demo_uapi demo_out (demo_fwd\<lparr>pbufs := Map.empty\<rparr>) = do {
        (_, g) \<leftarrow> user_output demo_uapi 2 5 7 (IP4_ADDR 192 168 4 2) (demo_fwd\<lparr>pbufs := h', ip_id := 1\<rparr>);
        free_pbuf 7 g } \<and>
     chain_data h' [7] = ip_hdr_bytes hdr @ [97, 98] \<and> iph_proto hdr = IP_PROTO_UDP \<and> iph_ttl hdr = 255 \<and>
     iph_dest hdr = IP4_ADDR 192 168 4 2 \<and> iph_src hdr = IP4_ADDR 192 168 4 1"
proof -
  let ?g = "demo_fwd\<lparr>pbufs := Map.empty\<rparr>"
  have m: "pbuf_malloc demo_uapi = demo_malloc" by (simp add: demo_uapi_def)
  have hl: "4 * unat (IPH_HL (v_hl_tos (ip_hdr_of demo_out))) = 20" by (simp add: demo_out_hdr vhl_fields)
  have ne: "IP_PROTO_UDP \<noteq> IP_PROTO_TCP" by (simp add: IP_PROTO_TCP_def IP_PROTO_UDP_def)
  obtain h where h: "pbuf_alloc demo_malloc PBUF_IP (of_nat (length demo_out - 20)) PBUF_RAM (pbufs ?g) = Some (Some 7, h)"
    by (simp add: pbuf_alloc_def demo_malloc_def demo_out_hdr Let_def)
  have "route_loop (IP4_ADDR 192 168 4 2) [5] ?g = Some (Some 5)"
  proof -
    have "netif_is_up demo_netif" "ip_addr_netcmp (IP4_ADDR 192 168 4 2) (ni_ip_addr demo_netif) (ni_netmask demo_netif)"
      by code_simp+
    then show ?thesis by simp
  qed
  then have rt: "ip_route (IP4_ADDR 192 168 4 2) ?g = Some (Some 5)" by (simp add: ip_route_def)
  have p: "raw_mem ?g 1 = Some (demo_pcb IP_PROTO_UDP)" "ip_addr_isany (local_ip (demo_pcb IP_PROTO_UDP))"
    "protocol (demo_pcb IP_PROTO_UDP) = IP_PROTO_UDP" "pcb_ttl (demo_pcb IP_PROTO_UDP) = 255" "netif_mem ?g 5 = Some demo_netif"
    "ip_id ?g = 0" "ni_output demo_netif = 2"
    by (simp_all add: demo_pcb_def ip_addr_isany_def IPADDR_ANY_def RAW_TTL_def demo_fwd_def demo_user_def comm.defs comm_zero_def
        demo_netif_def)
  show ?thesis
    using host_to_network [of demo_uapi demo_out ?g 7 h 1 "demo_pcb IP_PROTO_UDP" 5 demo_netif, unfolded hl m]
      demo_malloc_fresh h rt p ne demo_addr(3)
    by (auto simp: demo_out_hdr simp del: chain_data_simps)
qed

end
