(* ===== verification/Wifi_Conf.thy ===== *)
theory Wifi_Conf
  imports User_Spec
begin

text \<open>
  What the host can make the SDK see: the configuration structures that \<open>packet_from_host\<close> fills from the host's messages.
\<close>

text \<open>A C string in an array of \<open>n\<close> bytes.\<close>

definition c_string :: "nat \<Rightarrow> bytes \<Rightarrow> bool" where
  "c_string n s \<longleftrightarrow> length s = n \<and> s \<noteq> [] \<and> last s = 0"

definition station_config_ok :: "'s user_api \<Rightarrow> station_config \<Rightarrow> bool" where
  "station_config_ok api c \<longleftrightarrow> c_string (sizeof_ssid api) (sta_ssid c) \<and> c_string (sizeof_password api) (sta_password c) \<and>
     length (sta_bssid c) = 6"

definition softap_config_ok :: "'s user_api \<Rightarrow> softap_config \<Rightarrow> bool" where
  "softap_config_ok api c \<longleftrightarrow> c_string (sizeof_ssid api) (sap_ssid c) \<and> c_string (sizeof_password api) (sap_password c) \<and>
     unat (sap_ssid_len c) < sizeof_ssid api"

lemma zero_padded_string: "length s < n \<Longrightarrow> c_string n (zero_padded n s)"
  by (auto simp: c_string_def zero_padded_def)

lemma capi_update [simp]:
  "capi (api\<lparr>wifi_station_set_config_current := f\<rparr>) = capi api" "capi (api\<lparr>wifi_softap_set_config := k\<rparr>) = capi api"
  by (cases api; simp add: comm_api.defs)+

lemma try_sdk_cong:
  assumes "\<And>w. f w = f' w" "\<And>g. rest g = rest' g" "capi api = capi api'"
  shows "try_sdk api f msg rest g = try_sdk api' f' msg rest' g"
proof -
  have "f = f'" "rest = rest'" using assms(1,2) by (simp_all add: fun_eq_iff)
  moreover have "FAIL api = FAIL api'" using assms(3) by (simp add: FAIL_def fun_eq_iff)
  ultimately show ?thesis by (simp only: try_sdk_def)
qed

lemma FAIL_update [simp]:
  "FAIL (api\<lparr>wifi_station_set_config_current := f\<rparr>) = FAIL api" "FAIL (api\<lparr>wifi_softap_set_config := k\<rparr>) = FAIL api"
  by (simp_all add: FAIL_def fun_eq_iff)

text \<open>C13: Whatever bytes the host sends, the configuration structures that reach \<open>wifi_station_set_config_current\<close> and
  \<open>wifi_softap_set_config\<close> are well formed: the name and the password fill arrays of the SDK's sizes and end in a zero byte (an SSID or
  password that would not leave room for it is refused), the SSID length is inside the array, the hardware address has six
  bytes.  Stated as independence: the handlers cannot tell apart two SDKs that agree on well-formed structures.\<close>

theorem wifi_config_wellformed:
  assumes "sizeof_ssid api = 32" "sizeof_password api = 64"
    and "\<forall>c w. station_config_ok api c \<longrightarrow> f c w = f' c w" "\<forall>c w. softap_config_ok api c \<longrightarrow> k c w = k' c w"
  shows "station_conf_set (api\<lparr>wifi_station_set_config_current := f\<rparr>) data g =
      station_conf_set (api\<lparr>wifi_station_set_config_current := f'\<rparr>) data g \<and>
    softap_conf_set (api\<lparr>wifi_softap_set_config := k\<rparr>) data g = softap_conf_set (api\<lparr>wifi_softap_set_config := k'\<rparr>) data g"
proof
  show "station_conf_set (api\<lparr>wifi_station_set_config_current := f\<rparr>) data g =
      station_conf_set (api\<lparr>wifi_station_set_config_current := f'\<rparr>) data g"
    using assms(1-3)
    by (auto simp: station_conf_set_def Let_def station_config_ok_def slice_def zero_padded_string intro!: try_sdk_cong)
  show "softap_conf_set (api\<lparr>wifi_softap_set_config := k\<rparr>) data g = softap_conf_set (api\<lparr>wifi_softap_set_config := k'\<rparr>) data g"
    using assms(1,2,4)
    by (auto simp: softap_conf_set_def Let_def softap_config_ok_def slice_def zero_padded_string intro!: try_sdk_cong)
qed

theorem wifi_config_wellformed_witness:
  "station_conf_set (demo_uapi\<lparr>wifi_station_set_config_current := (\<lambda>c. Pair True)\<rparr>) (4 # replicate 97 65) demo_user =
     station_conf_set (demo_uapi\<lparr>wifi_station_set_config_current := (\<lambda>c. Pair (station_config_ok demo_uapi c))\<rparr>)
       (4 # replicate 97 65) demo_user \<and>
   softap_conf_set (demo_uapi\<lparr>wifi_softap_set_config := (\<lambda>c. Pair True)\<rparr>) (4 # replicate 101 65) demo_user =
     softap_conf_set (demo_uapi\<lparr>wifi_softap_set_config := (\<lambda>c. Pair (softap_config_ok demo_uapi c))\<rparr>)
       (4 # replicate 101 65) demo_user"
proof -
  have z: "sizeof_ssid demo_uapi = 32" "sizeof_password demo_uapi = 64" by (simp_all add: demo_uapi_def)
  have "\<forall>c (w :: nat world). station_config_ok demo_uapi c \<longrightarrow> Pair True w = Pair (station_config_ok demo_uapi c) w"
    "\<forall>c (w :: nat world). softap_config_ok demo_uapi c \<longrightarrow> Pair True w = Pair (softap_config_ok demo_uapi c) w"
    by simp_all
  from wifi_config_wellformed [OF z this] show ?thesis by blast
qed

end
