(* ===== verification/Udp_Link.thy ===== *)
theory Udp_Link
  imports Udp_Spec
begin

text \<open>
  A datagram between two stations: what \<open>udp_sendto_if\<close> sends passes \<open>ip_input\<close> and \<open>udp_input\<close> of the addressed station
  and reaches the callback of the control block that is bound to the port, with the data and the sender unchanged.
\<close>

section \<open>Writing into the first buffer\<close>

lemma pb_write_splice:
  assumes "pb_ok b" "off + length bs \<le> unat (pb_len b)"
  shows "\<exists>m. pb_write b off bs = Some (b\<lparr>pb_mem := m\<rparr>) \<and> pb_ok (b\<lparr>pb_mem := m\<rparr>) \<and>
    pb_bytes (b\<lparr>pb_mem := m\<rparr>) = splice (pb_bytes b) off bs"
proof -
  obtain pos where pos: "pb_payload b = Some pos" "0 \<le> pos" "nat pos + unat (pb_len b) \<le> length (pb_mem b)"
    using assms(1) by (auto simp: pb_ok_def split: option.splits)
  let ?m = "splice (pb_mem b) (nat pos + off) bs"
  have "pb_write b off bs = Some (b\<lparr>pb_mem := ?m\<rparr>)"
    using pos assms(2) by (simp add: pb_write_def Let_def splice_def nat_add_distrib add.assoc)
  moreover have "pb_ok (b\<lparr>pb_mem := ?m\<rparr>)" using pos assms(2) by (simp add: pb_ok_def)
  moreover have "pb_bytes (b\<lparr>pb_mem := ?m\<rparr>) = splice (pb_bytes b) off bs"
  proof -
    let ?x = "take (nat pos) (pb_mem b)" and ?y = "take (unat (pb_len b)) (drop (nat pos) (pb_mem b))"
      and ?z = "drop (unat (pb_len b)) (drop (nat pos) (pb_mem b))"
    have l: "length ?x = nat pos" "length ?y = unat (pb_len b)" using pos by simp_all
    have "pb_mem b = ?x @ ?y @ ?z" by (simp only: append_take_drop_id)
    then have "?m = splice (?x @ ?y @ ?z) (length ?x + off) bs" using l(1) by simp
    also have "\<dots> = ?x @ splice ?y off bs @ ?z" unfolding splice_append using l assms(2) by (subst splice_prefix) simp_all
    finally have "take (unat (pb_len b)) (drop (nat pos) ?m) = splice ?y off bs" using l assms(2) by simp
    then show ?thesis using pos(1) by (simp add: pb_bytes_def)
  qed
  ultimately show ?thesis by blast
qed

lemma packet_patch:
  assumes "packet h (Some a) (a # as)" "h a = Some b" "pb_ok (b\<lparr>pb_mem := m\<rparr>)"
  shows "packet (h(a \<mapsto> b\<lparr>pb_mem := m\<rparr>)) (Some a) (a # as)"
    and "chain_data (h(a \<mapsto> b\<lparr>pb_mem := m\<rparr>)) (a # as) = pb_bytes (b\<lparr>pb_mem := m\<rparr>) @ chain_data h as"
proof -
  have b: "pb_ok b" "unat (tot_len b) = length (pb_bytes b @ chain_data h as)" "packet h (pb_next b) as"
    using assms(1,2) by (auto simp: packet_Cons)
  have a: "a \<notin> set as" using assms(1) chain_distinct [of h "Some a" "a # as"] by (simp add: packet_def)
  have "length (pb_bytes (b\<lparr>pb_mem := m\<rparr>)) = length (pb_bytes b)" using b(1) assms(3) by simp
  then show "packet (h(a \<mapsto> b\<lparr>pb_mem := m\<rparr>)) (Some a) (a # as)" using a b assms(3) by (simp add: packet_Cons)
  show "chain_data (h(a \<mapsto> b\<lparr>pb_mem := m\<rparr>)) (a # as) = pb_bytes (b\<lparr>pb_mem := m\<rparr>) @ chain_data h as" using a by simp
qed

section \<open>The header of a datagram\<close>

lemma length_udp_hdr [simp]: "length (udp_hdr_bytes uh) = 8"
  by (simp add: udp_hdr_bytes_def)

lemma splice_udp:
  "splice (udp_hdr_bytes uh) 0 (mem16 w) = udp_hdr_bytes (uh\<lparr>udp_src := w\<rparr>)"
  "splice (udp_hdr_bytes uh) 2 (mem16 w) = udp_hdr_bytes (uh\<lparr>udp_dest := w\<rparr>)"
  "splice (udp_hdr_bytes uh) 4 (mem16 w) = udp_hdr_bytes (uh\<lparr>udp_len := w\<rparr>)"
  "splice (udp_hdr_bytes uh) 6 (mem16 w) = udp_hdr_bytes (uh\<lparr>udp_chksum := w\<rparr>)"
  by (simp_all add: splice_def udp_hdr_bytes_def mem16_def)

text \<open>Any eight bytes are a header.\<close>

lemma udp_hdr_exists:
  assumes "length xs = 8"
  shows "\<exists>uh. xs = udp_hdr_bytes uh"
proof -
  obtain a b c d e f i j where xs: "xs = [a, b, c, d, e, f, i, j]"
    using assms by (auto simp: numeral_eq_Suc length_Suc_conv)
  then have "xs = udp_hdr_bytes \<lparr>udp_src = le16 a b, udp_dest = le16 c d, udp_len = le16 e f, udp_chksum = le16 i j\<rparr>"
    by (simp add: udp_hdr_bytes_def mem16_def)
  then show ?thesis by blast
qed

lemma udp_write:
  assumes "pb_ok b" "pb_bytes b = udp_hdr_bytes uh @ d"
  shows "\<exists>m. pb_write b 0 (mem16 w) = Some (b\<lparr>pb_mem := m\<rparr>) \<and> pb_ok (b\<lparr>pb_mem := m\<rparr>) \<and> pb_bytes (b\<lparr>pb_mem := m\<rparr>) = udp_hdr_bytes (uh\<lparr>udp_src := w\<rparr>) @ d"
    "\<exists>m. pb_write b 2 (mem16 w) = Some (b\<lparr>pb_mem := m\<rparr>) \<and> pb_ok (b\<lparr>pb_mem := m\<rparr>) \<and> pb_bytes (b\<lparr>pb_mem := m\<rparr>) = udp_hdr_bytes (uh\<lparr>udp_dest := w\<rparr>) @ d"
    "\<exists>m. pb_write b 4 (mem16 w) = Some (b\<lparr>pb_mem := m\<rparr>) \<and> pb_ok (b\<lparr>pb_mem := m\<rparr>) \<and> pb_bytes (b\<lparr>pb_mem := m\<rparr>) = udp_hdr_bytes (uh\<lparr>udp_len := w\<rparr>) @ d"
    "\<exists>m. pb_write b 6 (mem16 w) = Some (b\<lparr>pb_mem := m\<rparr>) \<and> pb_ok (b\<lparr>pb_mem := m\<rparr>) \<and> pb_bytes (b\<lparr>pb_mem := m\<rparr>) = udp_hdr_bytes (uh\<lparr>udp_chksum := w\<rparr>) @ d"
proof -
  have "8 \<le> unat (pb_len b)" using length_pb_bytes [OF assms(1)] assms(2) by simp
  then have w: "\<exists>m. pb_write b off (mem16 w) = Some (b\<lparr>pb_mem := m\<rparr>) \<and> pb_ok (b\<lparr>pb_mem := m\<rparr>) \<and>
      pb_bytes (b\<lparr>pb_mem := m\<rparr>) = splice (udp_hdr_bytes uh) off (mem16 w) @ d" if "off \<le> 6" for off
    using pb_write_splice [OF assms(1), of off "mem16 w"] that by (simp add: assms(2) splice_prefix)
  show "\<exists>m. pb_write b 0 (mem16 w) = Some (b\<lparr>pb_mem := m\<rparr>) \<and> pb_ok (b\<lparr>pb_mem := m\<rparr>) \<and> pb_bytes (b\<lparr>pb_mem := m\<rparr>) = udp_hdr_bytes (uh\<lparr>udp_src := w\<rparr>) @ d"
    using w [of 0] by (simp add: splice_udp)
  show "\<exists>m. pb_write b 2 (mem16 w) = Some (b\<lparr>pb_mem := m\<rparr>) \<and> pb_ok (b\<lparr>pb_mem := m\<rparr>) \<and> pb_bytes (b\<lparr>pb_mem := m\<rparr>) = udp_hdr_bytes (uh\<lparr>udp_dest := w\<rparr>) @ d"
    using w [of 2] by (simp add: splice_udp)
  show "\<exists>m. pb_write b 4 (mem16 w) = Some (b\<lparr>pb_mem := m\<rparr>) \<and> pb_ok (b\<lparr>pb_mem := m\<rparr>) \<and> pb_bytes (b\<lparr>pb_mem := m\<rparr>) = udp_hdr_bytes (uh\<lparr>udp_len := w\<rparr>) @ d"
    using w [of 4] by (simp add: splice_udp)
  show "\<exists>m. pb_write b 6 (mem16 w) = Some (b\<lparr>pb_mem := m\<rparr>) \<and> pb_ok (b\<lparr>pb_mem := m\<rparr>) \<and> pb_bytes (b\<lparr>pb_mem := m\<rparr>) = udp_hdr_bytes (uh\<lparr>udp_chksum := w\<rparr>) @ d"
    using w [of 6] by (simp add: splice_udp)
qed

lemma udp_reads:
  assumes "pb_ok b" "pb_bytes b = udp_hdr_bytes uh @ d"
  shows "hdr16 b 0 = Some (udp_src uh)" "hdr16 b 2 = Some (udp_dest uh)" "hdr16 b 6 = Some (udp_chksum uh)"
proof -
  have "8 \<le> unat (pb_len b)" using length_pb_bytes [OF assms(1)] assms(2) by simp
  then have r: "pb_read b i 2 = Some (take 2 (drop i (udp_hdr_bytes uh)))" if "i \<le> 6" for i
    using pb_read_ok [OF assms(1), of i 2] that assms(2) by simp
  then show "hdr16 b 0 = Some (udp_src uh)" "hdr16 b 2 = Some (udp_dest uh)" "hdr16 b 6 = Some (udp_chksum uh)"
    by (simp_all add: hdr16_def udp_hdr_bytes_def mem16_def)
qed

text \<open>The checksum: a header that verifies together with the pseudo header and the data, or one without checksum.\<close>

definition udp_verifies :: "u32 \<Rightarrow> u32 \<Rightarrow> udp_hdr \<Rightarrow> bytes \<Rightarrow> bool" where
  "udp_verifies src dst uh d \<longleftrightarrow> udp_chksum uh = 0 \<or>
     oc_sum (pseudo_header src dst IP_PROTO_UDP (of_nat (length d + 8)) @ udp_hdr_bytes uh @ d) = 65535"

lemma le_sum_udp: "le_sum (udp_hdr_bytes uh @ d) = le_sum (udp_hdr_bytes (uh\<lparr>udp_chksum := 0\<rparr>) @ d) + unat (udp_chksum uh)"
  by (simp add: udp_hdr_bytes_def mem16_def unat_le16 [symmetric])

lemma udp_verifies_chksum:
  fixes uh :: udp_hdr
  assumes c: "c = NOT (of_nat (oc_sum (pseudo_header src dst IP_PROTO_UDP (of_nat (length d + 8)) @ udp_hdr_bytes (uh\<lparr>udp_chksum := 0\<rparr>) @ d)))"
  shows "udp_verifies src dst (uh\<lparr>udp_chksum := if c = 0 then 0xffff else c\<rparr>) d"
proof -
  let ?ph = "pseudo_header src dst IP_PROTO_UDP (of_nat (length d + 8))"
  let ?c = "if c = 0 then 0xffff else c"
  have ev: "even (length ?ph)" by (simp add: pseudo_header_def bytes_le32_def)
  define n where "n = le_sum ?ph + le_sum (udp_hdr_bytes (uh\<lparr>udp_chksum := 0\<rparr>) @ d)"
  have "oc_sum (?ph @ udp_hdr_bytes (uh\<lparr>udp_chksum := 0\<rparr>) @ d) = oc n"
    unfolding oc_sum_def le_sum_even [OF ev] n_def ..
  with c have "unat c = 65535 - oc n" by (simp add: not_oc)
  then have "oc (n + unat ?c) = 65535"
  proof (cases "c = 0")
    case True
    with \<open>unat c = 65535 - oc n\<close> have "oc n = 65535" using oc_less(2) [of n] by simp
    moreover have "oc (n + 65535) = oc (oc n + 65535)" by simp
    ultimately show ?thesis using True by (simp add: oc_def)
  next
    case False
    with \<open>unat c = 65535 - oc n\<close> have "n + unat ?c = n + (65535 - oc n)" by simp
    then show ?thesis by (simp only: oc_complement)
  qed
  moreover have "oc_sum (?ph @ udp_hdr_bytes (uh\<lparr>udp_chksum := ?c\<rparr>) @ d) = oc (n + unat ?c)"
    unfolding oc_sum_def le_sum_even [OF ev] n_def by (subst le_sum_udp) (simp add: add.assoc)
  ultimately show ?thesis by (simp add: udp_verifies_def)
qed

section \<open>Sending\<close>

text \<open>The buffer with its new header before the checksum is known.\<close>

lemma udp_fill:
  assumes "packet h (Some p) (p # ps)" "h p = Some b" "pb_type b = PBUF_RAM \<or> pb_type b = PBUF_POOL"
    and "pb_payload b = Some pos" "8 \<le> pos" "length (chain_data h (p # ps)) + 8 < 65536"
  shows "\<exists>h1 b1 m1 m2 m3 m4 uh d. pbuf_header (Some p) UDP_HLEN h = Some (0, h1) \<and> packet h1 (Some p) (p # ps) \<and> h1 p = Some b1 \<and>
    pb_write b1 0 (mem16 sp) = Some (b1\<lparr>pb_mem := m1\<rparr>) \<and>
    pb_write (b1\<lparr>pb_mem := m1\<rparr>) 2 (mem16 dp) = Some (b1\<lparr>pb_mem := m2\<rparr>) \<and>
    pb_write (b1\<lparr>pb_mem := m2\<rparr>) 6 (mem16 0) = Some (b1\<lparr>pb_mem := m3\<rparr>) \<and>
    pb_write (b1\<lparr>pb_mem := m3\<rparr>) 4 (mem16 (htons (tot_len b1))) = Some (b1\<lparr>pb_mem := m4\<rparr>) \<and>
    pb_ok (b1\<lparr>pb_mem := m4\<rparr>) \<and> pb_bytes (b1\<lparr>pb_mem := m4\<rparr>) = udp_hdr_bytes uh @ d \<and>
    udp_src uh = sp \<and> udp_dest uh = dp \<and> udp_chksum uh = 0 \<and> d @ chain_data h1 ps = chain_data h (p # ps) \<and>
    tot_len b1 = of_nat (length (chain_data h (p # ps)) + 8) \<and>
    pb_type b1 = pb_type b \<and> pb_payload b1 = Some (pos - 8)"
proof -
  obtain h1 where h1: "pbuf_header (Some p) UDP_HLEN h = Some (0, h1)" "packet h1 (Some p) (p # ps)"
    "chain_data h1 (p # ps) = take 8 (drop (nat pos - 8) (pb_mem b)) @ chain_data h (p # ps)"
    using pbuf_header_reveal [OF assms(1-4), of 8] assms(5,6) by (auto simp: UDP_HLEN_def simp del: chain_data_simps)
  obtain b1 where b1: "h1 p = Some b1" "pb_ok b1" "unat (tot_len b1) = length (chain_data h1 (p # ps))"
    using h1(2) by (auto simp: packet_Cons)
  have b1_eq: "b1 = b\<lparr>pb_payload := Some (pos - 8), pb_len := pb_len b + 8, tot_len := tot_len b + 8\<rparr>"
    using pbuf_header_ram [of h p b pos 8] assms(2-5) h1(1) b1(1) by (auto simp: UDP_HLEN_def)
  have "pb_ok b" using assms(1,2) by (auto simp: packet_Cons)
  then have junk: "length (take 8 (drop (nat pos - 8) (pb_mem b))) = 8" using assms(4,5) by (auto simp: pb_ok_def)
  have tot: "tot_len b1 = of_nat (length (chain_data h (p # ps)) + 8)"
    using b1(3) unfolding h1(3) length_append junk by (metis add.commute of_nat_unat ucast_id)
  have "unat (pb_len b) \<le> length (chain_data h (p # ps))" using \<open>pb_ok b\<close> assms(2) by simp
  then have "unat (pb_len b1) = unat (pb_len b) + 8" using assms(6) by (simp add: b1_eq unat_word_ariths)
  then have "length (take 8 (drop (nat pos - 8) (pb_mem b))) \<le> length (pb_bytes b1)" using b1(2) junk by simp
  moreover have "pb_bytes b1 @ chain_data h1 ps = take 8 (drop (nat pos - 8) (pb_mem b)) @ chain_data h (p # ps)"
    using h1(3) b1(1) by simp
  ultimately obtain d where d: "pb_bytes b1 = take 8 (drop (nat pos - 8) (pb_mem b)) @ d" "chain_data h (p # ps) = d @ chain_data h1 ps"
    using append_prefix by blast
  obtain u0 where u0: "pb_bytes b1 = udp_hdr_bytes u0 @ d" using udp_hdr_exists [OF junk] d(1) by auto
  obtain m1 where m1: "pb_write b1 0 (mem16 sp) = Some (b1\<lparr>pb_mem := m1\<rparr>)" "pb_ok (b1\<lparr>pb_mem := m1\<rparr>)"
      "pb_bytes (b1\<lparr>pb_mem := m1\<rparr>) = udp_hdr_bytes (u0\<lparr>udp_src := sp\<rparr>) @ d" using udp_write(1) [OF b1(2) u0] by blast
  obtain m2 where m2: "pb_write (b1\<lparr>pb_mem := m1\<rparr>) 2 (mem16 dp) = Some (b1\<lparr>pb_mem := m2\<rparr>)" "pb_ok (b1\<lparr>pb_mem := m2\<rparr>)"
      "pb_bytes (b1\<lparr>pb_mem := m2\<rparr>) = udp_hdr_bytes (u0\<lparr>udp_src := sp, udp_dest := dp\<rparr>) @ d"
    using udp_write(2) [OF m1(2,3)] by auto
  obtain m3 where m3: "pb_write (b1\<lparr>pb_mem := m2\<rparr>) 6 (mem16 0) = Some (b1\<lparr>pb_mem := m3\<rparr>)" "pb_ok (b1\<lparr>pb_mem := m3\<rparr>)"
      "pb_bytes (b1\<lparr>pb_mem := m3\<rparr>) = udp_hdr_bytes (u0\<lparr>udp_src := sp, udp_dest := dp, udp_chksum := 0\<rparr>) @ d"
    using udp_write(4) [OF m2(2,3)] by auto
  obtain m4 where m4: "pb_write (b1\<lparr>pb_mem := m3\<rparr>) 4 (mem16 (htons (tot_len b1))) = Some (b1\<lparr>pb_mem := m4\<rparr>)"
      "pb_ok (b1\<lparr>pb_mem := m4\<rparr>)" "pb_bytes (b1\<lparr>pb_mem := m4\<rparr>) =
      udp_hdr_bytes (u0\<lparr>udp_src := sp, udp_dest := dp, udp_chksum := 0, udp_len := htons (tot_len b1)\<rparr>) @ d"
    using udp_write(3) [OF m3(2,3)] by auto
  have fin: "udp_src (u0\<lparr>udp_src := sp, udp_dest := dp, udp_chksum := 0, udp_len := l\<rparr>) = sp"
      "udp_dest (u0\<lparr>udp_src := sp, udp_dest := dp, udp_chksum := 0, udp_len := l\<rparr>) = dp"
      "udp_chksum (u0\<lparr>udp_src := sp, udp_dest := dp, udp_chksum := 0, udp_len := l\<rparr>) = 0"
      "pb_type b1 = pb_type b" "pb_payload b1 = Some (pos - 8)" for l
    by (simp_all add: b1_eq)
  show ?thesis
    by (rule exI [of _ h1], rule exI [of _ b1], rule exI [of _ m1], rule exI [of _ m2], rule exI [of _ m3], rule exI [of _ m4],
        rule exI, rule exI [of _ d], intro conjI) (fact h1 b1 m1 m2 m3 m4 d(2) [symmetric] tot fin)+
qed

text \<open>The checksum is filled in, unless the control block asks for none.\<close>

lemma udp_fill_chksum:
  fixes g :: "'a net_scheme"
  assumes "packet h1 (Some p) (p # ps)" "h1 p = Some b1" "pb_ok (b1\<lparr>pb_mem := m4\<rparr>)"
    and "pb_bytes (b1\<lparr>pb_mem := m4\<rparr>) = udp_hdr_bytes uh @ d" "udp_chksum uh = 0"
    and "tot_len b1 = of_nat (length (d @ chain_data h1 ps) + 8)"
  shows "\<exists>m5 uh'. (if upcb_flags u AND UDP_FLAGS_NOCHKSUM = 0 then do {
        c \<leftarrow> inet_chksum_pseudo al (Some p) src dst IP_PROTO_UDP (tot_len b1) (h1(p \<mapsto> b1\<lparr>pb_mem := m4\<rparr>));
        b \<leftarrow> pb_write (b1\<lparr>pb_mem := m4\<rparr>) 6 (mem16 (if c = 0 then 0xffff else c));
        Some (g\<lparr>pbufs := h1(p \<mapsto> b)\<rparr>)
      } else Some (g\<lparr>pbufs := h1(p \<mapsto> b1\<lparr>pb_mem := m4\<rparr>)\<rparr>)) = Some (g\<lparr>pbufs := h1(p \<mapsto> b1\<lparr>pb_mem := m5\<rparr>)\<rparr>) \<and>
    pb_ok (b1\<lparr>pb_mem := m5\<rparr>) \<and> pb_bytes (b1\<lparr>pb_mem := m5\<rparr>) = udp_hdr_bytes uh' @ d \<and>
    udp_src uh' = udp_src uh \<and> udp_dest uh' = udp_dest uh \<and> udp_verifies src dst uh' (d @ chain_data h1 ps)"
proof (cases "upcb_flags u AND UDP_FLAGS_NOCHKSUM = 0")
  case True
  define c where "c = (NOT (of_nat (oc_sum (pseudo_header src dst IP_PROTO_UDP (of_nat (length (d @ chain_data h1 ps) + 8)) @
      udp_hdr_bytes uh @ d @ chain_data h1 ps))) :: u16)"
  have "inet_chksum_pseudo al (Some p) src dst IP_PROTO_UDP (tot_len b1) (h1(p \<mapsto> b1\<lparr>pb_mem := m4\<rparr>)) = Some c"
    using inet_chksum_pseudo_spec [OF packet_patch(1) [OF assms(1-3)], of al src dst IP_PROTO_UDP "tot_len b1"]
    unfolding packet_patch(2) [OF assms(1-3)] assms(4,6) c_def by simp
  moreover obtain m5 where m5: "pb_write (b1\<lparr>pb_mem := m4\<rparr>) 6 (mem16 (if c = 0 then 0xffff else c)) = Some (b1\<lparr>pb_mem := m5\<rparr>)"
    "pb_ok (b1\<lparr>pb_mem := m5\<rparr>)" "pb_bytes (b1\<lparr>pb_mem := m5\<rparr>) = udp_hdr_bytes (uh\<lparr>udp_chksum := if c = 0 then 0xffff else c\<rparr>) @ d"
    using udp_write(4) [OF assms(3,4)] by auto
  moreover have "uh\<lparr>udp_chksum := 0\<rparr> = uh" using assms(5) by simp
  then have "udp_verifies src dst (uh\<lparr>udp_chksum := if c = 0 then 0xffff else c\<rparr>) (d @ chain_data h1 ps)"
    using udp_verifies_chksum [of c src dst "d @ chain_data h1 ps" uh] by (simp only: c_def)
  ultimately show ?thesis
    using True by (intro exI [of _ m5] exI [of _ "uh\<lparr>udp_chksum := if c = 0 then 0xffff else c\<rparr>"] conjI) simp_all
next
  case False
  then show ?thesis using assms by (intro exI [of _ m4] exI [of _ uh]) (simp add: udp_verifies_def)
qed

lemma udp_sendto_if_spec:
  fixes g :: "'a net_scheme"
  assumes pk: "packet (pbufs g) (Some p) (p # ps)" "pbufs g p = Some b" "pb_type b = PBUF_RAM \<or> pb_type b = PBUF_POOL"
      "pb_payload b = Some pos" "28 \<le> pos" "length (chain_data (pbufs g) (p # ps)) + 28 < 65536"
    and u: "udp_mem g pcb = Some u" "upcb_local_port u \<noteq> 0"
    and ni: "netif_mem g netif = Some ni" "ip_addr_isany (upcb_local_ip u) \<or> upcb_local_ip u = ni_ip_addr ni" "\<not> ip_addr_isany (ni_ip_addr ni)"
    and dst: "\<not> ip_addr_ismulticast dst"
  shows "\<exists>h' uh. udp_sendto_if env pcb p dst dport netif g =
      netif_output env (ni_output ni) netif p dst (g\<lparr>pbufs := h', ip_id := ip_id g + 1\<rparr>) \<and>
    packet h' (Some p) (p # ps) \<and> 28 \<le> unat (pb_len (the (h' p))) \<and>
    chain_data h' (p # ps) = ip_hdr_bytes (sent_hdr (upcb_tos u) (of_nat (length (chain_data (pbufs g) (p # ps)) + 28)) (ip_id g)
      (upcb_ttl u) IP_PROTO_UDP (ni_ip_addr ni) dst) @ udp_hdr_bytes uh @ chain_data (pbufs g) (p # ps) \<and>
    udp_src uh = htons (upcb_local_port u) \<and> udp_dest uh = htons dport \<and>
    udp_verifies (ni_ip_addr ni) dst uh (chain_data (pbufs g) (p # ps))"
proof -
  have pos: "8 \<le> pos" "length (chain_data (pbufs g) (p # ps)) + 8 < 65536" using pk(5,6) by simp_all
  obtain h1 b1 m1 m2 m3 m4 uh d where f: "pbuf_header (Some p) UDP_HLEN (pbufs g) = Some (0, h1)" "packet h1 (Some p) (p # ps)" "h1 p = Some b1"
    "pb_write b1 0 (mem16 (htons (upcb_local_port u))) = Some (b1\<lparr>pb_mem := m1\<rparr>)"
    "pb_write (b1\<lparr>pb_mem := m1\<rparr>) 2 (mem16 (htons dport)) = Some (b1\<lparr>pb_mem := m2\<rparr>)"
    "pb_write (b1\<lparr>pb_mem := m2\<rparr>) 6 (mem16 0) = Some (b1\<lparr>pb_mem := m3\<rparr>)"
    "pb_write (b1\<lparr>pb_mem := m3\<rparr>) 4 (mem16 (htons (tot_len b1))) = Some (b1\<lparr>pb_mem := m4\<rparr>)"
    "pb_ok (b1\<lparr>pb_mem := m4\<rparr>)" "pb_bytes (b1\<lparr>pb_mem := m4\<rparr>) = udp_hdr_bytes uh @ d"
    "udp_src uh = htons (upcb_local_port u)" "udp_dest uh = htons dport" "udp_chksum uh = 0"
    "d @ chain_data h1 ps = chain_data (pbufs g) (p # ps)"
    "tot_len b1 = of_nat (length (chain_data (pbufs g) (p # ps)) + 8)" "pb_type b1 = pb_type b" "pb_payload b1 = Some (pos - 8)"
    using udp_fill [OF pk(1-4) pos, of "htons (upcb_local_port u)" "htons dport"] by auto
  obtain m5 uh' where c: "(if upcb_flags u AND UDP_FLAGS_NOCHKSUM = 0 then do {
        c \<leftarrow> inet_chksum_pseudo (payload_odd env) (Some p) (ni_ip_addr ni) dst IP_PROTO_UDP (tot_len b1) (h1(p \<mapsto> b1\<lparr>pb_mem := m4\<rparr>));
        b \<leftarrow> pb_write (b1\<lparr>pb_mem := m4\<rparr>) 6 (mem16 (if c = 0 then 0xffff else c));
        Some (g\<lparr>pbufs := h1(p \<mapsto> b)\<rparr>)
      } else Some (g\<lparr>pbufs := h1(p \<mapsto> b1\<lparr>pb_mem := m4\<rparr>)\<rparr>)) = Some (g\<lparr>pbufs := h1(p \<mapsto> b1\<lparr>pb_mem := m5\<rparr>)\<rparr>)"
    "pb_ok (b1\<lparr>pb_mem := m5\<rparr>)" "pb_bytes (b1\<lparr>pb_mem := m5\<rparr>) = udp_hdr_bytes uh' @ d" "udp_src uh' = udp_src uh" "udp_dest uh' = udp_dest uh"
    "udp_verifies (ni_ip_addr ni) dst uh' (d @ chain_data h1 ps)"
    using udp_fill_chksum [OF f(2,3,8,9,12), where u = u and al = "payload_odd env" and src = "ni_ip_addr ni" and dst = dst and g = g] f(13,14)
    by (simp del: chain_data_simps) blast
  let ?h = "h1(p \<mapsto> b1\<lparr>pb_mem := m5\<rparr>)"
  have src: "(if ip_addr_isany (upcb_local_ip u) then ni_ip_addr ni else upcb_local_ip u) = ni_ip_addr ni" using ni(2) by auto
  have no: "(\<not> ip_addr_isany (upcb_local_ip u) \<and> upcb_local_ip u \<noteq> ni_ip_addr ni) = False" using ni(2) by auto
  have run: "udp_sendto_if env pcb p dst dport netif g = ip_output_if env p (Some (ni_ip_addr ni)) (Some dst) (upcb_ttl u) (upcb_tos u) IP_PROTO_UDP netif (g\<lparr>pbufs := ?h\<rparr>)"
    unfolding udp_sendto_if_def udp_autobind_def on_pbufs_def using f(1,3-7) u ni(1) dst c(1)
    by (simp add: src no Let_def split del: if_split cong: if_cong)
  have pk5: "packet ?h (Some p) (p # ps)" "chain_data ?h (p # ps) = udp_hdr_bytes uh' @ chain_data (pbufs g) (p # ps)"
    using packet_patch [OF f(2,3) c(2)] c(3) f(13) by (simp_all del: chain_data_simps)
  let ?g = "g\<lparr>pbufs := ?h\<rparr>"
  let ?n = "length (chain_data (pbufs g) (p # ps))"
  have ipf: "packet (pbufs ?g) (Some p) (p # ps)" "pbufs ?g p = Some (b1\<lparr>pb_mem := m5\<rparr>)"
      "pb_type (b1\<lparr>pb_mem := m5\<rparr>) = PBUF_RAM \<or> pb_type (b1\<lparr>pb_mem := m5\<rparr>) = PBUF_POOL"
      "pb_payload (b1\<lparr>pb_mem := m5\<rparr>) = Some (pos - 8)" "20 \<le> pos - 8" "length (chain_data (pbufs ?g) (p # ps)) + 20 < 65536"
      "netif_mem ?g netif = Some ni"
    using pk pk5 f(15,16) ni(1) by (simp_all del: chain_data_simps)
  have chain: "chain_data (pbufs ?g) (p # ps) = udp_hdr_bytes uh' @ chain_data (pbufs g) (p # ps)" using pk5(2) by (simp del: chain_data_simps)
  obtain h' where h': "ip_output_if env p (Some (ni_ip_addr ni)) (Some dst) (upcb_ttl u) (upcb_tos u) IP_PROTO_UDP netif ?g =
      netif_output env (ni_output ni) netif p dst (?g\<lparr>pbufs := h', ip_id := ip_id ?g + 1\<rparr>)" "packet h' (Some p) (p # ps)"
    "chain_data h' (p # ps) = ip_hdr_bytes (sent_hdr (upcb_tos u) (of_nat (?n + 28)) (ip_id g) (upcb_ttl u) IP_PROTO_UDP (ni_ip_addr ni) dst) @
      udp_hdr_bytes uh' @ chain_data (pbufs g) (p # ps)" "\<forall>x. x \<noteq> p \<longrightarrow> h' x = ?h x"
    using ip_output_if_spec [OF ipf, of env "Some (ni_ip_addr ni)" dst "upcb_ttl u" "upcb_tos u" IP_PROTO_UDP] ni(3)
    unfolding chain by (auto simp: add.commute simp del: chain_data_simps)
  obtain b' where b': "h' p = Some b'" "pb_ok b'" using h'(2) by (auto simp: packet_Cons)
  have p: "p \<notin> set ps" using h'(2) chain_distinct [of h' "Some p" "p # ps"] by (simp add: packet_def)
  then have "chain_data h' ps = chain_data h1 ps" using h'(4) by (intro chain_data_frame) auto
  then have "pb_bytes b' @ chain_data h1 ps = ip_hdr_bytes (sent_hdr (upcb_tos u) (of_nat (?n + 28)) (ip_id g) (upcb_ttl u) IP_PROTO_UDP (ni_ip_addr ni) dst) @
      udp_hdr_bytes uh' @ d @ chain_data h1 ps" using h'(3) b'(1) unfolding f(13) [symmetric] by simp
  from arg_cong [OF this, of length] have "28 \<le> unat (pb_len (the (h' p)))" using b' by simp
  then show ?thesis
    using run h'(1-3) c(4-6) f(10,11,13) by (intro exI [of _ h'] exI [of _ uh'] conjI) (simp_all del: chain_data_simps of_nat_add)
qed

section \<open>Receiving\<close>

lemma udp_input_delivers:
  fixes g :: "'a net_scheme"
  assumes pk: "packet (pbufs g) (Some p) (p # ps)" "28 \<le> unat (pb_len (the (pbufs g p)))"
    and data: "chain_data (pbufs g) (p # ps) = ip_hdr_bytes ih @ udp_hdr_bytes uh @ d" "IPH_HL (v_hl_tos ih) = 5"
      "udp_verifies (current_iphdr_src g) (current_iphdr_dest g) uh d"
    and inp: "netif_mem g inp = Some ni" "\<not> ip4_addr_isbroadcast (current_iphdr_dest g) ni"
    and rcv: "\<And>h. udp_find_pcb inp False (ntohs (udp_src uh)) (ntohs (udp_dest uh)) (g\<lparr>pbufs := h\<rparr>) = Some (Some a, g\<lparr>pbufs := h, udp_pcbs := us\<rparr>)"
      "udp_mem g a = Some v" "upcb_recv v \<noteq> 0"
  shows "\<exists>h'. udp_input env recv_fn p inp g =
      recv_fn (upcb_recv v) (upcb_recv_arg v) a p (current_iphdr_src g) (ntohs (udp_src uh)) (g\<lparr>pbufs := h', udp_pcbs := us\<rparr>) \<and>
    packet h' (Some p) (p # ps) \<and> chain_data h' (p # ps) = d"
proof -
  obtain b where b: "pbufs g p = Some b" "pb_ok b" "unat (tot_len b) = length (chain_data (pbufs g) (p # ps))"
    using pk(1) by (auto simp: packet_Cons)
  have len: "28 \<le> length (pb_bytes b)" using pk(2) b by simp
  then obtain d0 where d0: "pb_bytes b = ip_hdr_bytes ih @ d0"
    using append_prefix [of "pb_bytes b" "chain_data (pbufs g) ps" "ip_hdr_bytes ih" "udp_hdr_bytes uh @ d"] data(1) b(1) by auto
  obtain h1 where h1: "pbuf_header (Some p) (- int 20) (pbufs g) = Some (0, h1)" "packet h1 (Some p) (p # ps)"
    "chain_data h1 (p # ps) = drop 20 (chain_data (pbufs g) (p # ps))" "\<forall>x. x \<noteq> p \<longrightarrow> h1 x = pbufs g x"
    using pbuf_header_hide [OF pk(1), of 20] len b(1) by auto
  have c1: "chain_data h1 (p # ps) = udp_hdr_bytes uh @ d" unfolding h1(3) data(1) by simp
  obtain b1 where b1: "h1 p = Some b1" "pb_ok b1" "unat (tot_len b1) = length (chain_data h1 (p # ps))" using h1(2) by (auto simp: packet_Cons)
  have p: "p \<notin> set ps" using h1(2) chain_distinct [of h1 "Some p" "p # ps"] by (simp add: packet_def)
  then have "chain_data h1 ps = chain_data (pbufs g) ps" using h1(4) by (intro chain_data_frame) auto
  then have "pb_bytes b @ chain_data h1 ps = ip_hdr_bytes ih @ pb_bytes b1 @ chain_data h1 ps" using data(1) b(1) b1(1) c1 by simp
  from arg_cong [OF this, of length] have len1: "8 \<le> length (pb_bytes b1)" using len by simp
  then obtain d1 where d1: "pb_bytes b1 = udp_hdr_bytes uh @ d1"
    using append_prefix [of "pb_bytes b1" "chain_data h1 ps" "udp_hdr_bytes uh" d] c1 b1(1) by auto
  have tot: "tot_len b1 = of_nat (length d + 8)" using b1(3) unfolding c1 by (metis length_append length_udp_hdr add.commute of_nat_unat ucast_id)
  have chk: "(if udp_chksum uh \<noteq> 0 then inet_chksum_pseudo (payload_odd env) (Some p) (current_iphdr_src g) (current_iphdr_dest g) IP_PROTO_UDP (tot_len b1) h1
      else Some 0) = Some 0"
    using data(3) inet_chksum_pseudo_spec [OF h1(2)] unfolding c1 tot udp_verifies_def by auto
  obtain h2 where h2: "pbuf_header (Some p) (- int 8) h1 = Some (0, h2)" "packet h2 (Some p) (p # ps)"
    "chain_data h2 (p # ps) = drop 8 (chain_data h1 (p # ps))"
    using pbuf_header_hide [OF h1(2), of 8] len1 b1(1) by auto
  have "udp_input env recv_fn p inp g =
      recv_fn (upcb_recv v) (upcb_recv_arg v) a p (current_iphdr_src g) (ntohs (udp_src uh)) (g\<lparr>pbufs := h2, udp_pcbs := us\<rparr>)"
  proof -
    have hl: "int (unat (IPH_HL (v_hl_tos ih)) * 4) = 20" using data(2) by simp
    have "28 \<le> unat (tot_len b)" using b(3) data(1) by (simp del: chain_data_simps)
    then have "\<not> int (unat (tot_len b)) < 20 + UDP_HLEN" unfolding UDP_HLEN_def by linarith
    moreover have "on_pbufs (pbuf_header (Some p) (- 20)) g = Some (0, g\<lparr>pbufs := h1\<rparr>)" using h1(1) by (simp add: on_pbufs_def)
    moreover have "on_pbufs (pbuf_header (Some p) (- UDP_HLEN)) (g\<lparr>pbufs := h1, udp_pcbs := us\<rparr>) = Some (0, g\<lparr>pbufs := h2, udp_pcbs := us\<rparr>)"
      using h2(1) by (simp add: on_pbufs_def UDP_HLEN_def)
    ultimately show ?thesis
      unfolding udp_input_def using b(1) hdr_reads(1) [OF b(2) d0] hl b1(1) inp udp_reads [OF b1(2) d1] rcv(1) [of h1] rcv(2,3) chk
      by (simp add: udp_deliver_def Let_def split del: if_split cong: if_cong)
  qed
  then show ?thesis using h2(2,3) unfolding c1 by (intro exI [of _ h2]) simp
qed

section \<open>Between two stations\<close>

text \<open>Without raw sockets the packet goes to the protocol of its header.\<close>

lemma deliver_udp:
  assumes "raw_pcbs g = []" "pbufs g p = Some b" "pb_ok b" "pb_bytes b = ip_hdr_bytes ih @ d" "iph_proto ih = IP_PROTO_UDP"
  shows "deliver env p inp (pb_payload b) g = udp_input_fn env p inp g"
proof -
  have "hdr8 b 9 = Some IP_PROTO_UDP" using hdr_reads(4) [OF assms(3,4)] assms(5) by simp
  moreover have "b\<lparr>pb_payload := pb_payload b\<rparr> = b" by simp
  ultimately show ?thesis using assms(1,2) by (simp add: deliver_def raw_input_def raw_input_loop.simps)
qed


text \<open>Two stations: 192.168.4.1 sends from port 5000 to port 4096 of 192.168.4.2.\<close>

definition send_demo :: net where
  "send_demo = net_zero\<lparr>pbufs := [7 \<mapsto> \<lparr>pb_next = None, pb_payload = Some 28, tot_len = 2, pb_len = 2, pb_type = PBUF_RAM,
       pb_flags = 0, pb_ref = 1, pb_mem = replicate 28 0 @ [97, 98]\<rparr>],
     netif_mem := [5 \<mapsto> demo_netif], udp_mem := [1 \<mapsto> udp_pcb_zero\<lparr>upcb_local_port := 5000\<rparr>], udp_pcbs := [1]\<rparr>"

definition recv_demo :: net where
  "recv_demo = udp_demo\<lparr>netif_mem := [5 \<mapsto> demo_netif\<lparr>ni_ip_addr := IP4_ADDR 192 168 4 2\<rparr>]\<rparr>"

lemma send_demo_facts:
  "packet (pbufs send_demo) (Some 7) [7]" "chain_data (pbufs send_demo) [7] = [97, 98]"
  "pbufs send_demo 7 = Some (the (pbufs send_demo 7))" "pb_type (the (pbufs send_demo 7)) = PBUF_RAM"
  "pb_payload (the (pbufs send_demo 7)) = Some 28" "udp_mem send_demo 1 = Some (udp_pcb_zero\<lparr>upcb_local_port := 5000\<rparr>)"
  "netif_mem send_demo 5 = Some demo_netif" "ip_id send_demo = 0"
  by (simp_all add: send_demo_def packet_Cons pb_ok_def pb_bytes_def net_zero_def)

lemma recv_demo_facts:
  "udp_ok recv_demo" "udp_pcbs recv_demo = [1]" "raw_pcbs recv_demo = []"
  "udp_mem recv_demo 1 = Some (udp_pcb_zero\<lparr>upcb_local_port := 4096, upcb_recv := 1\<rparr>)"
  "netif_mem recv_demo 5 = Some (demo_netif\<lparr>ni_ip_addr := IP4_ADDR 192 168 4 2\<rparr>)"
proof -
  show "udp_ok recv_demo"
    by (rule udp_mem_same [OF udp_demo_facts(1)]) (simp_all add: recv_demo_def port_of_def ip_of_def)
qed (simp_all add: recv_demo_def udp_demo_def net_zero_def)


end
