(* ===== verification/Spec2Isabelle.thy ===== *)
theory Spec2Isabelle
  imports Forward Wifi_Conf Udp_Link
begin

text \<open>
  Verification of the raw-esp firmware (\<open>src/user_main\<close>, \<open>src/driver\<close> and the parts of \<open>src/lwip\<close> it runs on).

  The firmware turns an ESP8266 into a network card on a serial line.  A host sends framed messages over a UART; the
  firmware configures the wireless interface, sends the host's packets to the network and the network's packets to
  the host.  Its parts and the theories that model them:

  \<^item> \<open>Esp_Prelude\<close>: types (\<open>u8\<close>, \<open>u16\<close>, \<open>u32\<close>, \<open>bytes\<close>), checked array access (\<open>peek\<close>, \<open>poke\<close>: an access outside of the array is
    \<open>None\<close>), the fold \<open>mfold\<close> of a fallible operation and lemmas on words that the other theories share.
  \<^item> \<open>Crc16\<close> (\<open>user_main/crc16.c\<close>): both table-driven checksums, proved equal to the bit-serial division and to detect
    bursts.
  \<^item> \<open>Cobs\<close> (\<open>user_main/cobs.c\<close>): encoder and decoder of the framing, with the frame format as the function \<open>cobs_spec\<close>; the
    encoder refines it, the decoder inverts it and finds frame boundaries again after garbage (locale \<open>framing\<close>).  The decoder's store outside
    its buffer is characterised exactly.
  \<^item> \<open>Uart\<close> (\<open>driver/uart.c\<close>): the registers and FIFOs of the two UARTs, configuration, output, interrupt masks.
  \<^item> \<open>Comm\<close> (\<open>user_main/comm.c\<close>): transmitter with its ring of 32 blocks, decoder, receive loop, task and interrupt handler.
    \<open>Comm_Ring\<close>: the ring is a bounded queue (locale \<open>bounded_queue\<close>), the sender moves exactly the pending bytes.  \<open>Comm_Link\<close>:
    interleavings of senders, tasks, interrupts and line activity; the stream on the line, the receiver and the scheduling invariant
    (locale \<open>comm_client\<close>).
  \<^item> \<open>Pbuf\<close> (\<open>lwip/core/pbuf.c\<close>): packet buffers in an explicit heap of addresses.  \<open>Pbuf_Chain\<close>: chains, their data and the
    invariant of the length fields (\<open>packet\<close>).  \<open>Pbuf_Spec\<close>: what the operations promise.
  \<^item> \<open>Net\<close>: the global state of the stack.  \<open>Inet_Chksum\<close>, \<open>Ip_Addr\<close>, \<open>Ip\<close>, \<open>Netif\<close>, \<open>Etharp\<close> (\<open>lwip/core/ipv4\<close>, \<open>lwip/core/raw.c\<close>,
    \<open>lwip/core/netif.c\<close>, \<open>lwip/netif/etharp.c\<close>): checksum, addresses, routing, output and input of IP packets, raw sockets,
    interfaces, ARP cache and Ethernet frames.  \<open>Ip_Spec\<close> and \<open>Etharp_Spec\<close> hold the lemmas on packets and on the cache
    (locales \<open>raw_client\<close> and \<open>arp_link\<close> for what is called through pointers).  \<open>Net_Frame\<close>: what sending and receiving leave alone
    (locales \<open>net_frame\<close>, \<open>arp_frame\<close>, \<open>ip_frame\<close>, \<open>ip_input_frame\<close>, \<open>eth_frame\<close>).
  \<^item> \<open>Icmp\<close> (\<open>lwip/core/ipv4/icmp.c\<close>): the echo responder and the error messages, with the exact cases in which the checksums of a reply are
    right.  \<open>Igmp\<close> (\<open>lwip/core/ipv4/igmp.c\<close>): multicast groups, their timers, reports and queries.  \<open>Udp\<close> (\<open>lwip/core/udp.c\<close>): control
    blocks, ports, sending and receiving of datagrams.  \<open>Proto_Frame\<close>: what these protocols leave alone (locale \<open>proto_frame\<close>).
    \<open>Igmp_Spec\<close>: the invariant of the groups (locale \<open>igmp_link\<close>) and the answer to a query.  \<open>Udp_Spec\<close>: the search for a free
    port, control blocks that never overlap, and the one receiver of a datagram.  \<open>Udp_Link\<close>: a datagram from the sender's control
    block to the callback of the receiver, through both layers of both stations.
  \<^item> \<open>Message\<close> (\<open>user_main/message.h\<close>): message codes and structures.  \<open>User_Main\<close> (\<open>user_main/user_main.c\<close>): interception of the interface, packet
    forwarding in both directions, the handler of every message, scan results and start-up.
  \<^item> \<open>User_Spec\<close>: the locales above interpreted on the functions of \<open>user_main.c\<close>, the step relation \<open>fw_step\<close> of the whole
    firmware with its invariants (locale \<open>link_invariant\<close>).  \<open>Forward\<close>: packets from the network to the host and back, end to end.
    \<open>Wifi_Conf\<close>: what the host can make the SDK see.

  State.  The globals are one record that grows layer by layer: \<open>net\<close> (lwIP), \<open>comm\<close> (serial link and UART), \<open>user\<close> (main
  program).  An operation of a lower layer works on every extension, so that the same definition is used for
  its own lemmas and in the firmware.  A C function that may fault, read outside of an object or not return is an
  \<open>option\<close>; \<open>None\<close> is the fault.  Integers have their C width as words; \<open>int\<close> is used where the code's arithmetic cannot
  leave the range (offsets into a buffer).  A function pointer is an address, and a call through it a case distinction over the
  functions that are ever stored there; the vendor's functions are members of the record \<open>user_api\<close>, which is a parameter.
  What a theorem needs of them is a named hypothesis: \<open>malloc_ok\<close> (a block has the size asked for), \<open>malloc_fresh\<close> (its address is free),
  \<open>logs_fit\<close> (a formatted log line fits its buffer), \<open>stack_ok\<close> (TCP, the DHCP client and the receivers of UDP datagrams leave the serial link to \<open>comm.c\<close>; for ICMP, IGMP
  and UDP themselves this is proved).

  Loops.  Loops that end by a measure are \<open>fun\<close> or \<open>function\<close> with its termination proof; loops that depend on the heap or on
  what a callback does (chains of buffers, the receive loop, calls through saved pointers) are \<open>partial_function (option)\<close>, and the theorems about them
  prove that a result is returned.  There is no fuel.  \<open>uart_tx_one_char\<close> waits for the hardware: the list of how
  many bytes the line takes before each poll is its argument, and a list that ends too early is \<open>None\<close>.

  Not modelled.  TCP is called by \<open>ip_input\<close> for packets that are not forwarded, the DHCP client and server, DNS and espconn by
  UDP as the callbacks of their control blocks; they are parameters of the layer below.  Memory pools, timers and system
  functions belong to the SDK.  The sockets and netconn interfaces need an operating system and are compiled out, as are
  fragmentation, AutoIP, SNMP and PPP.  Interrupts between the statements of a critical section
  are excluded by \<open>irq_save\<close>; elsewhere a task and a handler run to their end, which is how the SDK schedules tasks.
\<close>

end
